(* ===== verification/Prelude.thy ===== *)
theory Prelude
  imports Complex_Main "HOL-Library.Word"
begin

text \<open>
  Shared ground of the development: the outcome of a C++ call (a value, a thrown
  \<^verbatim>\<open>std::runtime_error\<close>, undefined behaviour), the fixed-size \<^verbatim>\<open>std::array\<close> types of the
  bridge, machine integers, little-endian byte strings and the generic lemmas on them.
\<close>

named_theorems outcome_simps \<open>evaluation of calls that may throw\<close>
named_theorems no_ub \<open>calls whose behaviour is defined\<close>
named_theorems fp_eval \<open>evaluation of floating-point operations on concrete operands\<close>

type_synonym u8 = "8 word"
type_synonym u16 = "16 word"
type_synonym u32 = "32 word"
type_synonym u64 = "64 word"

section \<open>Outcomes of C++ calls\<close>

text \<open>
  \<open>Ok\<close> is a normal return, \<open>Throw\<close> a \<^verbatim>\<open>std::runtime_error\<close> with its message,
  \<open>Undefined\<close> an evaluation the C++ standard gives no meaning to (an out-of-range
  \<^verbatim>\<open>operator[]\<close>, a floating-point to integer conversion that does not fit).
\<close>

datatype 'a outcome = Ok 'a | Throw string | Undefined

fun obind :: "'a outcome \<Rightarrow> ('a \<Rightarrow> 'b outcome) \<Rightarrow> 'b outcome" where
  "obind (Ok x) f = f x"
| "obind (Throw e) f = Throw e"
| "obind Undefined f = Undefined"

definition throw_if :: "bool \<Rightarrow> string \<Rightarrow> 'a outcome \<Rightarrow> 'a outcome" where
  "throw_if c msg k = (if c then Throw msg else k)"

definition defined :: "'a option \<Rightarrow> 'a outcome" where
  "defined x = (case x of None \<Rightarrow> Undefined | Some v \<Rightarrow> Ok v)"

lemma throw_if_simps [simp, outcome_simps]:
  "throw_if True msg k = Throw msg"
  "throw_if False msg k = k"
  by (simp_all add: throw_if_def)

lemma throw_if_eq_Ok [simp]: "throw_if c msg k = Ok x \<longleftrightarrow> \<not> c \<and> k = Ok x"
  by (simp add: throw_if_def)

lemma throw_if_eq_Undefined [simp]: "throw_if c msg k = Undefined \<longleftrightarrow> \<not> c \<and> k = Undefined"
  by (simp add: throw_if_def)

lemma defined_simps [simp, outcome_simps]:
  "defined None = Undefined"
  "defined (Some x) = Ok x"
  by (simp_all add: defined_def)

lemma defined_eq_Ok [simp]: "defined x = Ok y \<longleftrightarrow> x = Some y"
  by (cases x) simp_all

lemma obind_eq_Ok: "obind m f = Ok y \<longleftrightarrow> (\<exists>x. m = Ok x \<and> f x = Ok y)"
  by (cases m) simp_all

lemma obind_Ok [simp]: "obind m Ok = m"
  by (cases m) simp_all

lemma obind_assoc: "obind (obind m f) g = obind m (\<lambda>x. obind (f x) g)"
  by (cases m) simp_all

lemma obind_cong [fundef_cong]:
  "m = m' \<Longrightarrow> (\<And>x. m' = Ok x \<Longrightarrow> f x = f' x) \<Longrightarrow> obind m f = obind m' f'"
  by (cases m') simp_all

lemma obind_no_ub [no_ub]: "m \<noteq> Undefined \<Longrightarrow> (\<And>x. m = Ok x \<Longrightarrow> f x \<noteq> Undefined) \<Longrightarrow> obind m f \<noteq> Undefined"
  by (cases m) simp_all

lemma throw_if_no_ub [no_ub]: "(\<not> c \<Longrightarrow> k \<noteq> Undefined) \<Longrightarrow> throw_if c msg k \<noteq> Undefined"
  by (simp add: throw_if_def)

lemma if_no_ub [no_ub]: "(c \<Longrightarrow> a \<noteq> Undefined) \<Longrightarrow> (\<not> c \<Longrightarrow> b \<noteq> Undefined) \<Longrightarrow> (if c then a else b) \<noteq> Undefined"
  by simp

lemma Ok_no_ub [no_ub]: "Ok x \<noteq> Undefined" "Throw e \<noteq> Undefined" by simp_all

lemma Let_no_ub [no_ub]: "f x \<noteq> Undefined \<Longrightarrow> Let x f \<noteq> Undefined" by simp

section \<open>Arrays of fixed size\<close>

datatype 'a arr3 = Arr3 'a 'a 'a
datatype 'a arr4 = Arr4 'a 'a 'a 'a

fun arr3_list :: "'a arr3 \<Rightarrow> 'a list" where
  "arr3_list (Arr3 a b c) = [a, b, c]"

fun arr4_list :: "'a arr4 \<Rightarrow> 'a list" where
  "arr4_list (Arr4 a b c d) = [a, b, c, d]"

text \<open>\<^verbatim>\<open>a[static_cast<std::size_t>(i)]\<close>: a negative \<open>i\<close> becomes a huge index, so it is out of
  range like an index above 3, and \<^verbatim>\<open>operator[]\<close> does not check.\<close>

definition arr4_at :: "'a arr4 \<Rightarrow> int \<Rightarrow> 'a option" where
  "arr4_at v i = (if 0 \<le> i \<and> i < 4 then Some (arr4_list v ! nat i) else None)"

fun arr3_all :: "('a \<Rightarrow> bool) \<Rightarrow> 'a arr3 \<Rightarrow> bool" where
  "arr3_all P (Arr3 a b c) = (P a \<and> P b \<and> P c)"

fun arr4_all :: "('a \<Rightarrow> bool) \<Rightarrow> 'a arr4 \<Rightarrow> bool" where
  "arr4_all P (Arr4 a b c d) = (P a \<and> P b \<and> P c \<and> P d)"

text \<open>A loop over the four elements whose body may throw or be undefined.\<close>

fun arr4_mapM :: "('a \<Rightarrow> 'b outcome) \<Rightarrow> 'a arr4 \<Rightarrow> 'b arr4 outcome" where
  "arr4_mapM f (Arr4 a b c d) =
     obind (f a) (\<lambda>a'. obind (f b) (\<lambda>b'. obind (f c) (\<lambda>c'. obind (f d) (\<lambda>d'.
       Ok (Arr4 a' b' c' d')))))"

lemma arr4_at_simps [simp]:
  "arr4_at (Arr4 a b c d) 0 = Some a"
  "arr4_at (Arr4 a b c d) 1 = Some b"
  "arr4_at (Arr4 a b c d) 2 = Some c"
  "arr4_at (Arr4 a b c d) 3 = Some d"
  by (simp_all add: arr4_at_def numeral_2_eq_2 numeral_3_eq_3)

lemma arr4_at_eq_None [simp]: "arr4_at v i = None \<longleftrightarrow> i < 0 \<or> 3 < i"
  by (auto simp: arr4_at_def)

lemma arr4_at_range: "arr4_at v i = Some x \<Longrightarrow> 0 \<le> i \<and> i \<le> 3"
  by (auto simp: arr4_at_def split: if_splits)

lemma arr4_at_eq_Some:
  "arr4_at (Arr4 a b c d) i = Some x \<longleftrightarrow> i = 0 \<and> x = a \<or> i = 1 \<and> x = b \<or> i = 2 \<and> x = c \<or> i = 3 \<and> x = d"
  (is "?l \<longleftrightarrow> ?r")
proof
  assume l: ?l
  from arr4_at_range [OF l] have "i = 0 \<or> i = 1 \<or> i = 2 \<or> i = 3" by linarith
  with l show ?r by (elim disjE) simp_all
qed auto

lemma length_arr3_list [simp]: "length (arr3_list v) = 3"
  by (cases v) simp

lemma length_arr4_list [simp]: "length (arr4_list v) = 4"
  by (cases v) simp

lemma arr3_all_iff: "arr3_all P v \<longleftrightarrow> (\<forall>x \<in> set (arr3_list v). P x)"
  by (cases v) auto

lemma arr4_all_iff: "arr4_all P v \<longleftrightarrow> (\<forall>x \<in> set (arr4_list v). P x)"
  by (cases v) auto

lemma arr4_mapM_Ok:
  assumes "\<And>x. x \<in> set (arr4_list v) \<Longrightarrow> f x = Ok (g x)"
  shows "arr4_mapM f v = Ok (map_arr4 g v)"
  using assms by (cases v) simp

lemma arr4_mapM_eq_Ok:
  "arr4_mapM f (Arr4 a b c d) = Ok w \<longleftrightarrow>
     (\<exists>a' b' c' d'. w = Arr4 a' b' c' d' \<and> f a = Ok a' \<and> f b = Ok b' \<and> f c = Ok c' \<and> f d = Ok d')"
  by (auto simp: obind_eq_Ok)

lemma mapM_no_ub [no_ub]: "(\<And>x. f x \<noteq> Undefined) \<Longrightarrow> arr4_mapM f v \<noteq> Undefined"
  by (cases v) (simp add: no_ub)

section \<open>Little-endian byte strings\<close>

fun le_enc :: "nat \<Rightarrow> nat \<Rightarrow> u8 list" where
  "le_enc 0 v = []"
| "le_enc (Suc n) v = of_nat (v mod 256) # le_enc n (v div 256)"

fun le_dec :: "u8 list \<Rightarrow> nat" where
  "le_dec [] = 0"
| "le_dec (b # bs) = unat b + 256 * le_dec bs"

lemma length_le_enc [simp]: "length (le_enc n v) = n"
  by (induction n arbitrary: v) simp_all

lemma le_dec_enc: "v < 256 ^ n \<Longrightarrow> le_dec (le_enc n v) = v"
proof (induction n arbitrary: v)
  case 0
  then show ?case by simp
next
  case (Suc n)
  then have "v div 256 < 256 ^ n"
    by (simp add: less_mult_imp_div_less mult.commute)
  then have "le_dec (le_enc n (v div 256)) = v div 256"
    by (rule Suc.IH)
  then show ?case
    by (simp add: unat_of_nat)
qed

lemma le_dec_less: "le_dec bs < 256 ^ length bs"
proof (induction bs)
  case Nil
  then show ?case by simp
next
  case (Cons b bs)
  have "unat b < 256" using unsigned_less [of b] by simp
  with Cons show ?case by simp
qed

lemma le_enc_dec: "le_enc (length bs) (le_dec bs) = bs"
proof (induction bs)
  case Nil
  then show ?case by simp
next
  case (Cons b bs)
  have "unat b < 256" using unsigned_less [of b] by simp
  with Cons show ?case by simp
qed

lemma le_dec_inj: "length xs = length ys \<Longrightarrow> le_dec xs = le_dec ys \<Longrightarrow> xs = ys"
  by (metis le_enc_dec)

section \<open>The C++ standard library's comparisons\<close>

text \<open>\<^verbatim>\<open>std::max\<close>, \<^verbatim>\<open>std::clamp\<close>: written with \<^verbatim>\<open><\<close> only, as the standard specifies them, so that
  they keep their meaning on NaN.\<close>

definition std_max :: "'a::ord \<Rightarrow> 'a \<Rightarrow> 'a" where
  "std_max a b = (if a < b then b else a)"

definition std_clamp :: "'a::ord \<Rightarrow> 'a \<Rightarrow> 'a \<Rightarrow> 'a" where
  "std_clamp v lo hi = (if v < lo then lo else if hi < v then hi else v)"

section \<open>Actions\<close>

text \<open>
  A member function that changes its object and may throw: the object it leaves behind is part of
  the result also when it throws, as in C++, where nothing is rolled back.
\<close>

type_synonym ('s, 'a) action = "'s \<Rightarrow> 'a outcome \<times> 's"

definition act_ok :: "'a \<Rightarrow> ('s, 'a) action" where
  "act_ok x s = (Ok x, s)"

definition act_bind :: "('s, 'a) action \<Rightarrow> ('a \<Rightarrow> ('s, 'b) action) \<Rightarrow> ('s, 'b) action" where
  "act_bind m f s = (case m s of
       (Ok x, s') \<Rightarrow> f x s'
     | (Throw e, s') \<Rightarrow> (Throw e, s')
     | (Undefined, s') \<Rightarrow> (Undefined, s'))"

lemma act_bind_Ok [simp, outcome_simps]: "m s = (Ok x, s') \<Longrightarrow> act_bind m f s = f x s'"
  by (simp add: act_bind_def)

lemma act_bind_Throw [simp, outcome_simps]: "m s = (Throw e, s') \<Longrightarrow> act_bind m f s = (Throw e, s')"
  by (simp add: act_bind_def)

lemma act_bind_ok [simp, outcome_simps]: "act_bind (act_ok x) f = f x"
  by (rule ext) (simp add: act_bind_def act_ok_def)

lemma act_bind_cases:
  assumes "act_bind m f s = (r, s')"
  obtains (returns) x s1 where "m s = (Ok x, s1)" "f x s1 = (r, s')"
    | (throws) e where "m s = (Throw e, s')" "r = Throw e"
    | (undef) "m s = (Undefined, s')" "r = Undefined"
  using assms by (auto simp: act_bind_def split: prod.splits outcome.splits)

lemma act_bind_eq_Ok:
  "act_bind m f s = (Ok y, s') \<longleftrightarrow> (\<exists>x s1. m s = (Ok x, s1) \<and> f x s1 = (Ok y, s'))"
  by (auto simp: act_bind_def split: prod.splits outcome.splits)

text \<open>What every step of a sequence keeps, the sequence keeps, also when a step throws.\<close>

definition keeps :: "('s \<Rightarrow> bool) \<Rightarrow> ('s, 'a) action \<Rightarrow> bool" where
  "keeps I m \<longleftrightarrow> (\<forall>s. I s \<longrightarrow> I (snd (m s)))"

lemma keepsD: "keeps I m \<Longrightarrow> I s \<Longrightarrow> m s = (r, s') \<Longrightarrow> I s'"
  by (metis keeps_def snd_conv)

lemma keeps_ok [intro]: "keeps I (act_ok x)"
  by (simp add: keeps_def act_ok_def)

lemma keeps_bind [intro]: "keeps I m \<Longrightarrow> (\<And>x. keeps I (f x)) \<Longrightarrow> keeps I (act_bind m f)"
  by (auto simp: keeps_def act_bind_def split: prod.splits outcome.splits)

section \<open>Latest-value slots\<close>

text \<open>
  A callback writes values into a slot, overwriting the previous one; a loop polls it and consumes
  the value when it is fresh.  Whatever the interleaving, the loop consumes at most as many values as
  were written: nothing is consumed twice.
\<close>

datatype ('m, 't) slot_event = Put 'm | Poll 't

fun slot_run :: "('m \<Rightarrow> 's \<Rightarrow> 's) \<Rightarrow> ('t \<Rightarrow> 's \<Rightarrow> bool \<times> 's) \<Rightarrow> ('m, 't) slot_event list \<Rightarrow> 's \<Rightarrow> nat" where
  "slot_run put poll [] s = 0"
| "slot_run put poll (Put m # es) s = slot_run put poll es (put m s)"
| "slot_run put poll (Poll t # es) s = (case poll t s of (c, s') \<Rightarrow> (if c then 1 else 0) + slot_run put poll es s')"

fun puts :: "('m, 't) slot_event list \<Rightarrow> nat" where
  "puts [] = 0"
| "puts (Put m # es) = Suc (puts es)"
| "puts (Poll t # es) = puts es"

locale latest_slot =
  fixes fresh :: "'s \<Rightarrow> bool" and put :: "'m \<Rightarrow> 's \<Rightarrow> 's" and poll :: "'t \<Rightarrow> 's \<Rightarrow> bool \<times> 's"
  assumes consumes_fresh: "poll t s = (True, s') \<Longrightarrow> fresh s"
    and leaves_stale: "poll t s = (c, s') \<Longrightarrow> c \<or> \<not> fresh s \<Longrightarrow> \<not> fresh s'"
begin

lemma consumed_le_puts: "slot_run put poll es s \<le> puts es + (if fresh s then 1 else 0)"
proof (induction es arbitrary: s)
  case Nil
  then show ?case by simp
next
  case (Cons e es)
  show ?case
  proof (cases e)
    case (Put m)
    then show ?thesis using Cons [of "put m s"] by (simp split: if_splits)
  next
    case (Poll t)
    obtain c s' where p: "poll t s = (c, s')" by force
    from Cons [of s'] leaves_stale [OF p] consumes_fresh [of t s s'] p show ?thesis
      by (auto simp: Poll split: if_splits)
  qed
qed

lemma second_poll: "poll t s = (True, s') \<Longrightarrow> \<not> fst (poll t' s')"
  using leaves_stale [of t s True s'] consumes_fresh [of t' s'] by (cases "poll t' s'") auto

end

section \<open>Rate limiters\<close>

text \<open>
  An action that is taken only when enough time has passed since it was last taken: \<open>step\<close> returns
  the time at which the action fired, if it did.  Whatever else happens in between, consecutive
  firings are \<open>due\<close> apart.
\<close>

fun firings :: "('e \<Rightarrow> 's \<Rightarrow> int option \<times> 's) \<Rightarrow> 'e list \<Rightarrow> 's \<Rightarrow> int list" where
  "firings step [] s = []"
| "firings step (e # es) s = (case step e s of
     (None, s') \<Rightarrow> firings step es s'
   | (Some t, s') \<Rightarrow> t # firings step es s')"

fun spaced :: "(int \<Rightarrow> bool) \<Rightarrow> int list \<Rightarrow> bool" where
  "spaced due (s # t # ts) = (due (t - s) \<and> spaced due (t # ts))"
| "spaced due _ = True"

locale rate_limiter =
  fixes inv :: "'s \<Rightarrow> bool" and last_time :: "'s \<Rightarrow> int" and due :: "int \<Rightarrow> bool"
    and step :: "'e \<Rightarrow> 's \<Rightarrow> int option \<times> 's"
  assumes fires: "inv s \<Longrightarrow> step e s = (Some t, s') \<Longrightarrow> due (t - last_time s) \<and> last_time s' = t"
    and idles: "inv s \<Longrightarrow> step e s = (None, s') \<Longrightarrow> last_time s' = last_time s"
    and stays: "inv s \<Longrightarrow> step e s = (r, s') \<Longrightarrow> inv s'"
begin

lemma spaced_firings: "inv s \<Longrightarrow> spaced due (last_time s # firings step es s)"
proof (induction es arbitrary: s)
  case Nil
  then show ?case by simp
next
  case (Cons e es)
  obtain r s' where e: "step e s = (r, s')" by force
  note IH = Cons.IH [OF stays [OF Cons.prems e]]
  show ?case
  proof (cases r)
    case None
    then show ?thesis using IH idles [OF Cons.prems] e by simp
  next
    case (Some t)
    then show ?thesis using IH fires [OF Cons.prems] e by simp
  qed
qed

end

lemma spaced_Cons: "spaced due (s # ts) \<Longrightarrow> spaced due ts"
  by (cases ts) simp_all

end
