(* ===== verification/Ieee.thy ===== *)
theory Ieee
  imports Prelude
begin

text \<open>
  IEEE 754 binary arithmetic as the bridge's C++ uses it: \<^verbatim>\<open>double\<close> is binary64, \<^verbatim>\<open>float\<close> is
  binary32, both rounding to nearest, ties to even (the default mode, which the program never
  changes).  A value is a NaN (all NaNs are one value here: the code never reads a payload), an
  infinity, the negative zero, or \<open>Fin q\<close> with the exact rational \<open>q\<close> (\<open>Fin 0\<close> is the positive
  zero).  Every operation is the exact rational operation followed by one rounding, so all
  definitions compute.
\<close>

section \<open>Formats and rounding\<close>

text \<open>\<open>prec\<close>: significand bits, hidden bit included; \<open>qmin\<close>: exponent of the smallest subnormal;
  \<open>emax\<close>: exponent of the largest binade.\<close>

record fmt =
  prec :: nat
  qmin :: int
  emax :: int

definition b64 :: fmt where
  "b64 = \<lparr>prec = 53, qmin = - 1074, emax = 1023\<rparr>"

definition b32 :: fmt where
  "b32 = \<lparr>prec = 24, qmin = - 149, emax = 127\<rparr>"

function flog :: "int \<Rightarrow> int" where
  "flog n = (if n \<le> 1 then 0 else flog (n div 2) + 1)"
  by pat_completeness auto
termination by (relation "measure nat") auto

function clog :: "int \<Rightarrow> int" where
  "clog n = (if n \<le> 1 then 0 else clog ((n + 1) div 2) + 1)"
  by pat_completeness auto
termination by (relation "measure nat") auto

declare flog.simps [simp del] clog.simps [simp del]

text \<open>The binade of a non-zero rational: \<open>2 powi ilog2 q \<le> \<bar>q\<bar> < 2 powi (ilog2 q + 1)\<close>.\<close>

definition ilog2 :: "rat \<Rightarrow> int" where
  "ilog2 q = (if 1 \<le> \<bar>q\<bar> then flog \<lfloor>\<bar>q\<bar>\<rfloor> else - clog \<lceil>1 / \<bar>q\<bar>\<rceil>)"

text \<open>Round half to even.\<close>

definition rhe :: "rat \<Rightarrow> int" where
  "rhe x = (let f = \<lfloor>x\<rfloor>; d = x - of_int f in
     if d < 1/2 \<or> d = 1/2 \<and> even f then f else f + 1)"

definition ulp_exp :: "fmt \<Rightarrow> rat \<Rightarrow> int" where
  "ulp_exp F q = max (ilog2 q - (int (prec F) - 1)) (qmin F)"

definition round_rat :: "fmt \<Rightarrow> rat \<Rightarrow> rat" where
  "round_rat F q = (if q = 0 then 0
     else of_int (rhe (q / 2 powi ulp_exp F q)) * 2 powi ulp_exp F q)"

datatype fp = NaN | PInf | NInf | NZero | Fin rat

text \<open>Rounding an exact result whose sign is known even when it rounds to zero.\<close>

definition rnd_signed :: "fmt \<Rightarrow> bool \<Rightarrow> rat \<Rightarrow> fp" where
  "rnd_signed F s q = (let r = round_rat F q in
     if 2 powi (emax F + 1) \<le> \<bar>r\<bar> then (if r < 0 then NInf else PInf)
     else if r = 0 then (if s then NZero else Fin 0)
     else Fin r)"

definition rnd :: "fmt \<Rightarrow> rat \<Rightarrow> fp" where
  "rnd F q = rnd_signed F (q < 0) q"

section \<open>Operations\<close>

fun val :: "fp \<Rightarrow> rat" where
  "val (Fin q) = q"
| "val _ = 0"

fun isfinite :: "fp \<Rightarrow> bool" where
  "isfinite (Fin q) = True"
| "isfinite NZero = True"
| "isfinite _ = False"

fun signbit :: "fp \<Rightarrow> bool" where
  "signbit (Fin q) = (q < 0)"
| "signbit NZero = True"
| "signbit NInf = True"
| "signbit _ = False"

fun fp_neg :: "fp \<Rightarrow> fp" where
  "fp_neg NaN = NaN"
| "fp_neg PInf = NInf"
| "fp_neg NInf = PInf"
| "fp_neg NZero = Fin 0"
| "fp_neg (Fin q) = (if q = 0 then NZero else Fin (- q))"

fun fp_add :: "fmt \<Rightarrow> fp \<Rightarrow> fp \<Rightarrow> fp" where
  "fp_add F NaN y = NaN"
| "fp_add F x NaN = NaN"
| "fp_add F PInf NInf = NaN"
| "fp_add F NInf PInf = NaN"
| "fp_add F PInf y = PInf"
| "fp_add F NInf y = NInf"
| "fp_add F x PInf = PInf"
| "fp_add F x NInf = NInf"
| "fp_add F NZero NZero = NZero"
| "fp_add F x y = rnd F (val x + val y)"

definition fp_inf :: "bool \<Rightarrow> fp" where
  "fp_inf s = (if s then NInf else PInf)"

definition fp_zero :: "bool \<Rightarrow> fp" where
  "fp_zero s = (if s then NZero else Fin 0)"

definition fp_mul :: "fmt \<Rightarrow> fp \<Rightarrow> fp \<Rightarrow> fp" where
  "fp_mul F x y = (let s = (signbit x \<noteq> signbit y) in
     if x = NaN \<or> y = NaN then NaN
     else if \<not> isfinite x then (if isfinite y \<and> val y = 0 then NaN else fp_inf s)
     else if \<not> isfinite y then (if val x = 0 then NaN else fp_inf s)
     else rnd_signed F s (val x * val y))"

definition fp_div :: "fmt \<Rightarrow> fp \<Rightarrow> fp \<Rightarrow> fp" where
  "fp_div F x y = (let s = (signbit x \<noteq> signbit y) in
     if x = NaN \<or> y = NaN then NaN
     else if \<not> isfinite x then (if isfinite y then fp_inf s else NaN)
     else if \<not> isfinite y then fp_zero s
     else if val y = 0 then (if val x = 0 then NaN else fp_inf s)
     else rnd_signed F s (val x / val y))"

text \<open>The comparison operators: false as soon as one operand is a NaN; the zeros are equal.\<close>

fun fp_less :: "fp \<Rightarrow> fp \<Rightarrow> bool" where
  "fp_less NaN y = False"
| "fp_less x NaN = False"
| "fp_less PInf y = False"
| "fp_less x PInf = True"
| "fp_less x NInf = False"
| "fp_less NInf y = True"
| "fp_less x y = (val x < val y)"

definition fp_eq :: "fp \<Rightarrow> fp \<Rightarrow> bool" where
  "fp_eq x y = (x \<noteq> NaN \<and> (x = y \<or> isfinite x \<and> isfinite y \<and> val x = val y))"

definition fp_le :: "fp \<Rightarrow> fp \<Rightarrow> bool" where
  "fp_le x y = (fp_less x y \<or> fp_eq x y)"

text \<open>The square root rounds the real root: \<open>isqrt\<close> finds the integer part of the scaled root and
  the remainder decides the direction.\<close>

function isqrt :: "int \<Rightarrow> int" where
  "isqrt n = (if n \<le> 0 then 0
     else let r = 2 * isqrt (n div 4) in if (r + 1) ^ 2 \<le> n then r + 1 else r)"
  by pat_completeness auto
termination by (relation "measure nat") auto

declare isqrt.simps [simp del]

definition round_sqrt :: "fmt \<Rightarrow> rat \<Rightarrow> rat" where
  "round_sqrt F q = (let e = max (ilog2 q div 2 - (int (prec F) - 1)) (qmin F);
       x = q / 4 powi e; m = isqrt \<lfloor>x\<rfloor>; h = (of_int m + 1/2) ^ 2 in
     (if x < h \<or> x = h \<and> even m then of_int m else of_int (m + 1)) * 2 powi e)"

fun fp_sqrt :: "fmt \<Rightarrow> fp \<Rightarrow> fp" where
  "fp_sqrt F NaN = NaN"
| "fp_sqrt F PInf = PInf"
| "fp_sqrt F NInf = NaN"
| "fp_sqrt F NZero = NZero"
| "fp_sqrt F (Fin q) = (if q < 0 then NaN else if q = 0 then Fin 0 else Fin (round_sqrt F q))"

section \<open>\<open>double\<close> and \<open>float\<close>\<close>

type_synonym double = fp
type_synonym float32 = fp

text \<open>The arithmetic of the type classes is that of \<^verbatim>\<open>double\<close>: the program computes in \<^verbatim>\<open>double\<close> only
  and uses \<^verbatim>\<open>float\<close> for packets, through casts.\<close>

instantiation fp :: "{zero, one, uminus, plus, minus, times, inverse, ord}"
begin

definition zero_fp :: fp where "0 = Fin 0"
definition one_fp :: fp where "1 = Fin 1"
definition uminus_fp :: "fp \<Rightarrow> fp" where "- x = fp_neg x"
definition plus_fp :: "fp \<Rightarrow> fp \<Rightarrow> fp" where "x + y = fp_add b64 x y"
definition minus_fp :: "fp \<Rightarrow> fp \<Rightarrow> fp" where "x - y = fp_add b64 x (fp_neg y)"
definition times_fp :: "fp \<Rightarrow> fp \<Rightarrow> fp" where "x * y = fp_mul b64 x y"
definition divide_fp :: "fp \<Rightarrow> fp \<Rightarrow> fp" where "x div y = fp_div b64 x y"
definition inverse_fp :: "fp \<Rightarrow> fp" where "inverse x = fp_div b64 (Fin 1) x"
definition less_fp :: "fp \<Rightarrow> fp \<Rightarrow> bool" where "x < y = fp_less x y"
definition less_eq_fp :: "fp \<Rightarrow> fp \<Rightarrow> bool" where "x \<le> y = fp_le x y"

instance ..

end

lemmas fp_class_defs = zero_fp_def one_fp_def uminus_fp_def plus_fp_def minus_fp_def times_fp_def
  divide_fp_def inverse_fp_def less_fp_def less_eq_fp_def

text \<open>A literal, an integer converted to \<^verbatim>\<open>double\<close>, \<^verbatim>\<open>std::sqrt\<close>, \<^verbatim>\<open>static_cast<float>\<close>.\<close>

definition lit :: "rat \<Rightarrow> double" where
  "lit q = rnd b64 q"

definition of_count :: "int \<Rightarrow> double" where
  "of_count n = rnd b64 (of_int n)"

definition std_sqrt :: "double \<Rightarrow> double" where
  "std_sqrt x = fp_sqrt b64 x"

fun to_float :: "double \<Rightarrow> float32" where
  "to_float (Fin q) = rnd b32 q"
| "to_float x = x"

text \<open>\<^verbatim>\<open>static_cast<std::uint16_t>(x)\<close>: truncation towards zero, undefined when the truncated value
  does not fit.\<close>

definition trunc_rat :: "rat \<Rightarrow> int" where
  "trunc_rat q = (if 0 \<le> q then \<lfloor>q\<rfloor> else \<lceil>q\<rceil>)"

definition to_u16 :: "double \<Rightarrow> u16 option" where
  "to_u16 x = (if isfinite x \<and> 0 \<le> trunc_rat (val x) \<and> trunc_rat (val x) < 65536
     then Some (word_of_int (trunc_rat (val x))) else None)"

section \<open>The binade of a rational\<close>

lemma flog_bounds:
  "1 \<le> n \<Longrightarrow> 0 \<le> flog n \<and> 2 ^ nat (flog n) \<le> n \<and> n < 2 * 2 ^ nat (flog n)"
proof (induction n rule: flog.induct)
  case (1 n)
  show ?case
  proof (cases "n \<le> 1")
    case True
    with 1 show ?thesis by (simp add: flog.simps)
  next
    case False
    with 1 have "0 \<le> flog (n div 2) \<and> 2 ^ nat (flog (n div 2)) \<le> n div 2
        \<and> n div 2 < 2 * 2 ^ nat (flog (n div 2))" by simp
    with False show ?thesis by (auto simp: flog.simps [of n] nat_add_distrib)
  qed
qed

lemma clog_bounds:
  "1 < n \<Longrightarrow> 1 \<le> clog n \<and> n \<le> 2 ^ nat (clog n) \<and> 2 ^ nat (clog n) < 2 * n"
proof (induction n rule: clog.induct)
  case (1 n)
  let ?h = "(n + 1) div 2"
  show ?case
  proof (cases "n = 2")
    case True
    then show ?thesis by (simp add: clog.simps)
  next
    case False
    with 1 have "1 \<le> clog ?h \<and> ?h \<le> 2 ^ nat (clog ?h) \<and> 2 ^ nat (clog ?h) < 2 * ?h" by simp
    moreover from this have "even ((2::int) ^ nat (clog ?h))" by simp
    then obtain b where "(2::int) ^ nat (clog ?h) = 2 * b" by (rule evenE)
    ultimately show ?thesis using 1(2) by (simp add: clog.simps [of n] nat_add_distrib) arith
  qed
qed

lemma powi_nat: "0 \<le> k \<Longrightarrow> (2::rat) powi k = 2 ^ nat k"
  by (simp add: power_int_def)

lemma powi_pos [simp]: "0 < (2::rat) powi k"
  by (simp add: zero_less_power_int)

lemma powi_Suc: "(2::rat) powi (k + 1) = 2 * 2 powi k"
  by (simp add: power_int_add)

lemma powi_mono: "j \<le> k \<Longrightarrow> (2::rat) powi j \<le> 2 powi k"
  by (rule power_int_increasing) auto

lemma powi_less_iff [simp]: "(2::rat) powi j < 2 powi k \<longleftrightarrow> j < k"
  by (metis powi_mono linorder_not_less order_le_less one_less_numeral_iff power_int_strict_increasing semiring_norm(76))

lemma ilog2_bounds:
  assumes "q \<noteq> 0"
  shows "2 powi ilog2 q \<le> \<bar>q\<bar>" and "\<bar>q\<bar> < 2 powi (ilog2 q + 1)"
proof -
  have "2 powi ilog2 q \<le> \<bar>q\<bar> \<and> \<bar>q\<bar> < 2 powi (ilog2 q + 1)"
  proof (cases "1 \<le> \<bar>q\<bar>")
    case True
    let ?n = "\<lfloor>\<bar>q\<bar>\<rfloor>"
    from True have "1 \<le> ?n" by simp
    from flog_bounds [OF this] have l: "0 \<le> flog ?n" and a: "2 ^ nat (flog ?n) \<le> ?n"
      and b: "?n + 1 \<le> 2 * 2 ^ nat (flog ?n)" by auto
    from a have "rat_of_int (2 ^ nat (flog ?n)) \<le> \<bar>q\<bar>" by (simp only: le_floor_iff [symmetric])
    moreover have "\<bar>q\<bar> < of_int (?n + 1)" by linarith
    moreover from b have "rat_of_int (?n + 1) \<le> of_int (2 * 2 ^ nat (flog ?n))" by (simp only: of_int_le_iff)
    ultimately show ?thesis using True l by (simp add: ilog2_def powi_Suc powi_nat)
  next
    case False
    let ?n = "\<lceil>1 / \<bar>q\<bar>\<rceil>"
    from False assms have q: "0 < \<bar>q\<bar>" "\<bar>q\<bar> < 1" by auto
    then have g: "1 < 1 / \<bar>q\<bar>" by simp
    then have "1 < ?n" by linarith
    from clog_bounds [OF this] have l: "1 \<le> clog ?n" and a: "?n \<le> 2 ^ nat (clog ?n)"
      and b: "2 ^ nat (clog ?n) < 2 * ?n" by auto
    let ?c = "(2::rat) ^ nat (clog ?n)"
    from a have "1 / \<bar>q\<bar> \<le> of_int (2 ^ nat (clog ?n))" by (simp only: ceiling_le_iff)
    then have "1 / ?c \<le> \<bar>q\<bar>" using q by (simp add: field_simps)
    moreover have "\<bar>q\<bar> < 2 / ?c"
    proof -
      obtain j where j: "nat (clog ?n) = Suc j" using l by (cases "nat (clog ?n)") auto
      from b have "(2::int) ^ j < ?n" by (simp add: j)
      then have "of_int ((2::int) ^ j) < 1 / \<bar>q\<bar>" by (simp only: less_ceiling_iff)
      then show ?thesis using q by (simp add: field_simps j)
    qed
    moreover have "(2::rat) powi (- clog ?n) = 1 / ?c"
      using l by (simp add: power_int_minus powi_nat field_simps)
    ultimately show ?thesis using False powi_Suc [of "- clog ?n"] by (simp add: ilog2_def)
  qed
  then show "2 powi ilog2 q \<le> \<bar>q\<bar>" and "\<bar>q\<bar> < 2 powi (ilog2 q + 1)" by simp_all
qed

lemma ilog2_unique:
  assumes "2 powi k \<le> \<bar>q\<bar>" "\<bar>q\<bar> < 2 powi (k + 1)"
  shows "ilog2 q = k"
proof -
  have "0 < \<bar>q\<bar>" by (rule less_le_trans [OF powi_pos assms(1)])
  then have "q \<noteq> 0" by simp
  from ilog2_bounds [OF this] assms have "(2::rat) powi k < 2 powi (ilog2 q + 1)"
    and "(2::rat) powi ilog2 q < 2 powi (k + 1)" by linarith+
  then show ?thesis by simp
qed

section \<open>Rounding is to the nearest grid point\<close>

lemma rhe_half: "\<bar>of_int (rhe x) - x\<bar> \<le> 1/2"
proof -
  have "of_int \<lfloor>x\<rfloor> \<le> x" "x < of_int \<lfloor>x\<rfloor> + 1" by linarith+
  then show ?thesis by (auto simp: rhe_def Let_def abs_le_iff)
qed

lemma rhe_nearest: "\<bar>of_int (rhe x) - x\<bar> \<le> \<bar>of_int n - x\<bar>"
proof (cases "n = rhe x")
  case False
  then have "1 \<le> \<bar>n - rhe x\<bar>" by simp
  then have "(1::rat) \<le> \<bar>of_int n - of_int (rhe x)\<bar>" by (metis of_int_1_le_iff of_int_abs of_int_diff)
  with rhe_half [of x] show ?thesis by linarith
qed simp

lemma rhe_unique: "\<bar>of_int n - x\<bar> < 1/2 \<Longrightarrow> rhe x = n"
proof -
  assume a: "\<bar>of_int n - x\<bar> < 1/2"
  with rhe_half [of x] have "\<bar>rat_of_int (rhe x) - of_int n\<bar> < 1" by linarith
  then have "\<bar>rat_of_int (rhe x - n)\<bar> < 1" by simp
  then show ?thesis by (metis of_int_abs of_int_less_1_iff zabs_less_one_iff eq_iff_diff_eq_0)
qed

lemma rhe_of_int [simp]: "rhe (of_int n) = n"
  by (rule rhe_unique) simp

lemma rhe_minus: "rhe (- x) = - rhe x"
proof (cases "x - of_int \<lfloor>x\<rfloor> = 1/2")
  case True
  then have "\<lfloor>- x\<rfloor> = - \<lfloor>x\<rfloor> - 1" by linarith
  with True show ?thesis by (auto simp: rhe_def Let_def)
next
  case False
  have "\<bar>of_int (- rhe x) - (- x)\<bar> < 1/2"
  proof -
    have "of_int \<lfloor>x\<rfloor> \<le> x" "x < of_int \<lfloor>x\<rfloor> + 1" by linarith+
    with False show ?thesis by (auto simp: rhe_def Let_def abs_less_iff)
  qed
  then show ?thesis by (rule rhe_unique)
qed

lemma ilog2_minus [simp]: "ilog2 (- q) = ilog2 q"
  by (simp add: ilog2_def)

lemma round_rat_minus [simp]: "round_rat F (- q) = - round_rat F q"
  using rhe_minus [of "q / 2 powi ulp_exp F q"] by (simp add: round_rat_def ulp_exp_def)

lemma round_rat_0 [simp]: "round_rat F 0 = 0"
  by (simp add: round_rat_def)

definition on_grid :: "fmt \<Rightarrow> rat \<Rightarrow> bool" where
  "on_grid F q = (\<exists>m e. q = of_int m * 2 powi e \<and> \<bar>m\<bar> < 2 ^ prec F \<and> qmin F \<le> e)"

lemma on_gridI: "q = of_int m * 2 powi e \<Longrightarrow> \<bar>m\<bar> < 2 ^ prec F \<Longrightarrow> qmin F \<le> e \<Longrightarrow> on_grid F q"
  by (auto simp: on_grid_def)

lemma scaled_bound:
  assumes "q \<noteq> 0" "0 < prec F"
  shows "\<bar>q / 2 powi ulp_exp F q\<bar> < 2 ^ prec F"
proof -
  have "ilog2 q + 1 \<le> ulp_exp F q + int (prec F)" by (simp add: ulp_exp_def)
  then have "(2::rat) powi (ilog2 q + 1) \<le> 2 powi ulp_exp F q * 2 powi int (prec F)"
    by (subst power_int_add [symmetric]) (auto intro: powi_mono)
  with ilog2_bounds(2) [OF assms(1)] have "\<bar>q\<bar> < 2 powi ulp_exp F q * 2 ^ prec F" by simp
  then show ?thesis by (simp add: divide_less_eq mult.commute)
qed

lemma round_rat_on_grid:
  assumes "0 < prec F"
  shows "on_grid F (round_rat F q)"
proof (cases "q = 0")
  case True
  then show ?thesis by (intro on_gridI [of _ 0 "qmin F"]) auto
next
  case False
  let ?e = "ulp_exp F q" and ?m = "rhe (q / 2 powi ulp_exp F q)"
  have r: "round_rat F q = of_int ?m * 2 powi ?e" using False by (simp add: round_rat_def)
  have e: "qmin F \<le> ?e" by (simp add: ulp_exp_def)
  have "\<bar>rat_of_int ?m\<bar> < 2 ^ prec F + 1"
    using scaled_bound [OF False assms] rhe_half [of "q / 2 powi ?e"] by linarith
  then have "rat_of_int \<bar>?m\<bar> < of_int (2 ^ prec F + 1)" by simp
  then have "\<bar>?m\<bar> < 2 ^ prec F + 1" by (simp only: of_int_less_iff)
  then have m: "\<bar>?m\<bar> \<le> 2 ^ prec F" by linarith
  show ?thesis
  proof (cases "\<bar>?m\<bar> = 2 ^ prec F")
    case False
    with m r e show ?thesis by (intro on_gridI) auto
  next
    case True
    obtain p where p: "prec F = Suc p" using assms gr0_conv_Suc by blast
    have "round_rat F q = of_int (sgn ?m * 2 ^ p) * 2 powi (?e + 1)"
    proof -
      have "?m = sgn ?m * 2 ^ p * 2" using mult_sgn_abs [of ?m] True by (simp add: p mult_ac)
      then have "rat_of_int ?m = of_int (sgn ?m * 2 ^ p) * 2" by (metis of_int_mult of_int_numeral)
      then show ?thesis by (simp only: r powi_Suc mult.assoc)
    qed
    moreover have "\<bar>sgn ?m * 2 ^ p\<bar> < 2 ^ prec F" by (simp add: p abs_mult abs_sgn_eq)
    ultimately show ?thesis using e
      by (intro on_gridI [of _ "sgn ?m * 2 ^ p" "?e + 1"]) (assumption | simp)+
  qed
qed

lemma round_rat_nearest:
  assumes "0 < prec F" "on_grid F g"
  shows "\<bar>round_rat F q - q\<bar> \<le> \<bar>g - q\<bar>"
proof (cases "q = 0")
  case True
  then show ?thesis by simp
next
  case False
  let ?e = "ulp_exp F q" and ?u = "(2::rat) powi ulp_exp F q"
  have scale: "\<bar>of_int n - q / ?u\<bar> * ?u = \<bar>of_int n * ?u - q\<bar>" for n
  proof -
    have "\<bar>of_int n - q / ?u\<bar> * ?u = \<bar>(of_int n - q / ?u) * ?u\<bar>" by (simp add: abs_mult)
    then show ?thesis by (simp add: left_diff_distrib)
  qed
  have near: "\<bar>round_rat F q - q\<bar> \<le> \<bar>of_int n * ?u - q\<bar>" for n
  proof -
    have "\<bar>of_int (rhe (q / ?u)) - q / ?u\<bar> * ?u \<le> \<bar>of_int n - q / ?u\<bar> * ?u"
      by (intro mult_right_mono rhe_nearest) simp
    then show ?thesis using False by (simp add: scale) (simp add: round_rat_def)
  qed
  from assms(2) obtain m k where g: "g = of_int m * 2 powi k" and m: "\<bar>m\<bar> < 2 ^ prec F"
    and k: "qmin F \<le> k" by (auto simp: on_grid_def)
  show ?thesis
  proof (cases "?e \<le> k")
    case True
    then have "(2::rat) powi k = of_int (2 ^ nat (k - ?e)) * ?u"
      using power_int_add [of "2::rat" "k - ?e" ?e] by (simp add: powi_nat)
    then have "g = of_int (m * 2 ^ nat (k - ?e)) * ?u" by (simp add: g)
    with near show ?thesis by metis
  next
    case False
    with k have e: "?e = ilog2 q - (int (prec F) - 1)" and k1: "k + 1 \<le> ?e"
      by (auto simp: ulp_exp_def max_def split: if_splits)
    let ?b = "(2::rat) powi ilog2 q"
    have "rat_of_int \<bar>m\<bar> \<le> of_int (2 ^ prec F)" using m by (simp only: of_int_le_iff)
    then have "\<bar>g\<bar> \<le> 2 ^ prec F * 2 powi k" by (simp add: g abs_mult)
    also have "\<dots> = 2 powi (k + int (prec F))" by (simp add: power_int_add)
    also have "\<dots> \<le> ?b" using k1 e by (intro powi_mono) simp
    finally have gb: "\<bar>g\<bar> \<le> ?b" .
    obtain p where p: "prec F = Suc p" using assms(1) gr0_conv_Suc by blast
    have b: "?b = of_int (2 ^ p) * ?u"
      using power_int_add [of "2::rat" "int p" ?e] e p by simp
    have qb: "?b \<le> \<bar>q\<bar>" by (rule ilog2_bounds(1) [OF \<open>q \<noteq> 0\<close>])
    show ?thesis
    proof (cases "0 < q")
      case True
      have "\<bar>round_rat F q - q\<bar> \<le> \<bar>?b - q\<bar>" using near [of "2 ^ p"] b by simp
      with True gb qb show ?thesis by linarith
    next
      case False
      have "\<bar>round_rat F q - q\<bar> \<le> \<bar>- ?b - q\<bar>" using near [of "- (2 ^ p)"] b by simp
      with False gb qb show ?thesis by linarith
    qed
  qed
qed

lemma round_rat_eqI:
  assumes "2 powi k \<le> \<bar>q\<bar>" "\<bar>q\<bar> < 2 powi (k + 1)" "e = max (k - (int (prec F) - 1)) (qmin F)"
    and "\<bar>of_int m - q / 2 powi e\<bar> < 1/2"
  shows "round_rat F q = of_int m * 2 powi e"
proof -
  have "0 < \<bar>q\<bar>" by (rule less_le_trans [OF powi_pos assms(1)])
  moreover have "ulp_exp F q = e" using ilog2_unique [OF assms(1,2)] assms(3) by (simp add: ulp_exp_def)
  ultimately show ?thesis using rhe_unique [OF assms(4)] by (simp add: round_rat_def)
qed

text \<open>
  What a client of rounding relies on: a set \<open>G\<close> of representable numbers and a function that
  returns a nearest one.  Monotonicity and exactness follow from these two laws alone.
\<close>

locale rounding =
  fixes G :: "rat \<Rightarrow> bool" and rd :: "rat \<Rightarrow> rat"
  assumes rd_G: "G (rd q)"
    and rd_nearest: "G g \<Longrightarrow> \<bar>rd q - q\<bar> \<le> \<bar>g - q\<bar>"
begin

lemma rd_fix: "G q \<Longrightarrow> rd q = q"
  using rd_nearest [of q q] by simp

lemma rd_idem: "rd (rd q) = rd q"
  by (rule rd_fix [OF rd_G])

lemma rd_mono: "q \<le> q' \<Longrightarrow> rd q \<le> rd q'"
proof (rule ccontr)
  assume le: "q \<le> q'" and "\<not> rd q \<le> rd q'"
  then have lt: "rd q' < rd q" by simp
  have "\<bar>rd q - q\<bar> \<le> \<bar>rd q' - q\<bar>" "\<bar>rd q' - q'\<bar> \<le> \<bar>rd q - q'\<bar>"
    by (rule rd_nearest [OF rd_G])+
  with lt le have "q = q'" by linarith
  with lt show False by simp
qed

lemma rd_le: "G hi \<Longrightarrow> q \<le> hi \<Longrightarrow> rd q \<le> hi"
  using rd_mono rd_fix by metis

lemma rd_ge: "G lo \<Longrightarrow> lo \<le> q \<Longrightarrow> lo \<le> rd q"
  using rd_mono rd_fix by metis

end

interpretation d: rounding "on_grid b64" "round_rat b64"
  by unfold_locales (simp_all add: round_rat_on_grid round_rat_nearest b64_def)

interpretation f: rounding "on_grid b32" "round_rat b32"
  by unfold_locales (simp_all add: round_rat_on_grid round_rat_nearest b32_def)

lemma fmt_simps [simp]:
  "prec b64 = 53" "qmin b64 = - 1074" "emax b64 = 1023"
  "prec b32 = 24" "qmin b32 = - 149" "emax b32 = 127"
  by (simp_all add: b64_def b32_def)

lemma on_grid_0 [simp]: "on_grid F 0"
  by (rule on_gridI [of _ 0 "qmin F"]) simp_all

lemma on_grid_minus [simp]: "on_grid F (- q) = on_grid F q"
proof -
  have "on_grid F (- q)" if "on_grid F q" for q
  proof -
    from that obtain m e where "q = of_int m * 2 powi e" "\<bar>m\<bar> < 2 ^ prec F" "qmin F \<le> e"
      by (auto simp: on_grid_def)
    then show ?thesis by (intro on_gridI [of _ "- m" e]) simp_all
  qed
  from this [of q] this [of "- q"] show ?thesis by auto
qed

lemma on_grid_of_int: "\<bar>m\<bar> < 2 ^ prec F \<Longrightarrow> qmin F \<le> 0 \<Longrightarrow> on_grid F (of_int m)"
  by (rule on_gridI [of _ m 0]) simp_all

lemma on_grid_frac: "\<bar>m\<bar> < 2 ^ prec F \<Longrightarrow> int n \<le> - qmin F \<Longrightarrow> on_grid F (of_int m / 2 ^ n)"
  by (rule on_gridI [of _ m "- int n"]) (simp_all add: power_int_minus divide_inverse)

lemma flog_simps [simp, fp_eval]:
  "flog 1 = 0"
  "flog (numeral (num.Bit0 n)) = flog (numeral n) + 1"
  "flog (numeral (num.Bit1 n)) = flog (numeral n) + 1"
  by (simp_all add: flog.simps [of 1] flog.simps [of "numeral (num.Bit0 n)"] flog.simps [of "numeral (num.Bit1 n)"])

text \<open>Membership in the grid of \<^verbatim>\<open>double\<close> for concrete dyadic fractions.\<close>

lemma on_grid_eval [fp_eval]:
  "on_grid b64 1"
  "(numeral a :: int) < 9007199254740992 \<Longrightarrow> on_grid b64 (numeral a)"
  "2 ^ nat (flog (numeral b)) = (numeral b :: int) \<Longrightarrow> flog (numeral b) \<le> 1074 \<Longrightarrow> on_grid b64 (1 / numeral b)"
  "2 ^ nat (flog (numeral b)) = (numeral b :: int) \<Longrightarrow> flog (numeral b) \<le> 1074 \<Longrightarrow>
     (numeral a :: int) < 9007199254740992 \<Longrightarrow> on_grid b64 (numeral a / numeral b)"
proof -
  have d: "on_grid b64 (of_int m / numeral b)"
    if "2 ^ nat (flog (numeral b)) = (numeral b :: int)" "flog (numeral b) \<le> 1074" "\<bar>m\<bar> < 9007199254740992" for m b
  proof -
    have "(numeral b :: rat) = of_int (2 ^ nat (flog (numeral b)))" by (simp only: that(1)) simp
    then have "of_int m / numeral b = of_int m / (2::rat) ^ nat (flog (numeral b))" by simp
    moreover have "on_grid b64 (of_int m / (2::rat) ^ nat (flog (numeral b)))"
      using that by (intro on_grid_frac) auto
    ultimately show ?thesis by (simp only:)
  qed
  show "on_grid b64 1" using on_grid_of_int [of 1 b64] by simp
  show "(numeral a :: int) < 9007199254740992 \<Longrightarrow> on_grid b64 (numeral a)"
    using on_grid_of_int [of "numeral a" b64] by simp
  show "2 ^ nat (flog (numeral b)) = (numeral b :: int) \<Longrightarrow> flog (numeral b) \<le> 1074 \<Longrightarrow> on_grid b64 (1 / numeral b)"
    using d [of b 1] by simp
  show "2 ^ nat (flog (numeral b)) = (numeral b :: int) \<Longrightarrow> flog (numeral b) \<le> 1074 \<Longrightarrow>
     (numeral a :: int) < 9007199254740992 \<Longrightarrow> on_grid b64 (numeral a / numeral b)"
    using d [of b "numeral a"] by simp
qed

section \<open>Rounding into the format\<close>

fun representable :: "fmt \<Rightarrow> fp \<Rightarrow> bool" where
  "representable F (Fin q) = (on_grid F q \<and> \<bar>q\<bar> < 2 powi (emax F + 1))"
| "representable F _ = True"

lemma rnd_not_NaN [simp]: "rnd_signed F s q \<noteq> NaN" "rnd F q \<noteq> NaN"
  by (simp_all add: rnd_def rnd_signed_def Let_def)

lemma representable_rnd_signed: "0 < prec F \<Longrightarrow> representable F (rnd_signed F s q)"
  using round_rat_on_grid [of F q] by (auto simp: rnd_signed_def Let_def)

lemma representable_rnd [simp]: "representable b64 (rnd b64 q)" "representable b32 (rnd b32 q)"
  by (simp_all add: rnd_def representable_rnd_signed)

lemma rnd_exact: "on_grid b64 q \<Longrightarrow> \<bar>q\<bar> < 2 powi 1024 \<Longrightarrow> rnd b64 q = Fin q"
  by (auto simp: rnd_def rnd_signed_def Let_def d.rd_fix)

lemma rnd32_exact: "on_grid b32 q \<Longrightarrow> \<bar>q\<bar> < 2 powi 128 \<Longrightarrow> rnd b32 q = Fin q"
  by (auto simp: rnd_def rnd_signed_def Let_def f.rd_fix)


section \<open>Order and monotonicity of the operations\<close>

lemma less_fp_finite: "isfinite x \<Longrightarrow> isfinite y \<Longrightarrow> x < y \<longleftrightarrow> val x < val y"
  by (cases x; cases y) (simp_all add: less_fp_def)

lemma le_fp_finite: "isfinite x \<Longrightarrow> isfinite y \<Longrightarrow> x \<le> y \<longleftrightarrow> val x \<le> val y"
  by (cases x; cases y) (auto simp: less_eq_fp_def fp_le_def fp_eq_def)

lemma less_fp_NaN [simp]: "\<not> NaN < y" "\<not> x < NaN"
  by (simp_all add: less_fp_def) (cases x; simp)

lemma le_fp_NaN [simp]: "\<not> NaN \<le> y" "\<not> x \<le> NaN"
  by (simp_all add: less_eq_fp_def fp_le_def fp_eq_def) (cases x; simp)

lemma le_fp_PInf [simp]: "x \<le> PInf \<longleftrightarrow> x \<noteq> NaN"
  by (cases x) (simp_all add: less_eq_fp_def fp_le_def fp_eq_def)

lemma le_fp_NInf [simp]: "NInf \<le> x \<longleftrightarrow> x \<noteq> NaN"
  by (cases x) (simp_all add: less_eq_fp_def fp_le_def fp_eq_def)

lemma PInf_le_fp [simp]: "PInf \<le> x \<longleftrightarrow> x = PInf"
  by (cases x) (simp_all add: less_eq_fp_def fp_le_def fp_eq_def)

lemma le_fp_refl: "x \<noteq> NaN \<Longrightarrow> x \<le> x"
  by (cases x) (simp_all add: less_eq_fp_def fp_le_def fp_eq_def)

lemma le_fp_trans: "x \<le> y \<Longrightarrow> y \<le> z \<Longrightarrow> x \<le> (z::fp)"
  by (cases x; cases y; cases z) (auto simp: less_eq_fp_def fp_le_def fp_eq_def)

lemma le_fp_NZero: "NZero \<le> x \<longleftrightarrow> Fin 0 \<le> x" "x \<le> NZero \<longleftrightarrow> x \<le> Fin 0"
  by (cases x; auto simp: less_eq_fp_def fp_le_def fp_eq_def)+

lemma fp_Fin_simps [simp, fp_eval]:
  "Fin a < Fin b \<longleftrightarrow> a < b"
  "Fin a \<le> Fin b \<longleftrightarrow> a \<le> b"
  "NZero < Fin b \<longleftrightarrow> 0 < b"
  "Fin a < NZero \<longleftrightarrow> a < 0"
  "Fin a < PInf" "\<not> PInf < Fin a"
  by (auto simp: less_fp_def less_eq_fp_def fp_le_def fp_eq_def)

lemma less_imp_not_NaN: "x < (y::fp) \<Longrightarrow> x \<noteq> NaN \<and> y \<noteq> NaN"
  by auto

text \<open>Between two finite values everything is finite.\<close>

lemma finite_between: "isfinite lo \<Longrightarrow> isfinite hi \<Longrightarrow> lo \<le> x \<Longrightarrow> x \<le> hi \<Longrightarrow> isfinite x"
  by (cases lo; cases hi; cases x) (simp_all add: less_eq_fp_def fp_le_def fp_eq_def)

lemma round_sign: "round_rat b64 q < 0 \<Longrightarrow> q < 0" "0 < round_rat b64 q \<Longrightarrow> 0 < q"
  using d.rd_ge [of 0 q] d.rd_le [of 0 q] by (auto simp: not_less [symmetric])

text \<open>\<open>rnd_signed\<close> and \<open>rnd\<close> differ in the sign of a zero only, which no comparison sees.\<close>

lemma rnd_signed_le_mono:
  assumes "q \<le> q'"
  shows "rnd_signed b64 s q \<le> rnd_signed b64 s' q'"
proof -
  have "round_rat b64 q \<le> round_rat b64 q'" by (rule d.rd_mono [OF assms])
  then show ?thesis
    by (auto simp: rnd_signed_def Let_def less_eq_fp_def fp_le_def fp_eq_def abs_if)
qed

lemma rnd_le_mono: "q \<le> q' \<Longrightarrow> rnd b64 q \<le> rnd b64 q'"
  by (simp add: rnd_def rnd_signed_le_mono)

lemma rnd_signed_le_exact:
  assumes "isfinite hi" "representable b64 hi" "q \<le> val hi"
  shows "rnd_signed b64 s q \<le> hi"
proof -
  have "rnd_signed b64 False (val hi) \<le> hi"
    using assms(1,2) by (cases hi) (simp_all add: rnd_signed_def Let_def d.rd_fix less_eq_fp_def fp_le_def fp_eq_def)
  with rnd_signed_le_mono [OF assms(3)] show ?thesis by (rule le_fp_trans)
qed

lemma rnd_signed_ge_exact:
  assumes "isfinite lo" "representable b64 lo" "val lo \<le> q"
  shows "lo \<le> rnd_signed b64 s q"
proof -
  have "lo \<le> rnd_signed b64 False (val lo)"
    using assms(1,2) by (cases lo) (simp_all add: rnd_signed_def Let_def d.rd_fix less_eq_fp_def fp_le_def fp_eq_def)
  from this rnd_signed_le_mono [OF assms(3)] show ?thesis by (rule le_fp_trans)
qed

lemma fp_add_finite:
  assumes "isfinite x" "isfinite y"
  shows "fp_add F x y = (if x = NZero \<and> y = NZero then NZero else rnd F (val x + val y))"
  using assms by (cases x; cases y) simp_all

lemma fp_add_le_mono:
  assumes "isfinite a" "y \<le> y'"
  shows "a + y \<le> a + (y'::fp)"
proof (cases "isfinite y \<and> isfinite y'")
  case True
  then have "val a + val y \<le> val a + val y'" using assms(2) by (simp add: le_fp_finite)
  from rnd_le_mono [OF this] have "rnd b64 (val a + val y) \<le> rnd b64 (val a + val y')" .
  moreover have "rnd b64 0 = Fin 0" by (simp add: rnd_exact)
  ultimately show ?thesis using assms(1) True
    by (auto simp: plus_fp_def fp_add_finite le_fp_NZero)
next
  case False
  with assms(2) have ends: "y = NInf \<or> y' = PInf" and nn: "y \<noteq> NaN" "y' \<noteq> NaN"
    by (cases y; cases y'; auto simp: less_eq_fp_def fp_le_def fp_eq_def)+
  have n: "a + z \<noteq> NaN" if "z \<noteq> NaN" for z
    using that assms(1) by (cases a; cases z) (simp_all add: plus_fp_def)
  have i: "a + PInf = PInf" "a + NInf = NInf"
    using assms(1) by (cases a; simp add: plus_fp_def)+
  from ends show ?thesis
  proof
    assume "y = NInf"
    with n [OF nn(2)] show ?thesis by (simp only: i le_fp_NInf) simp
  next
    assume "y' = PInf"
    with n [OF nn(1)] show ?thesis by (simp only: i le_fp_PInf) simp
  qed
qed

lemma fp_mul_finite:
  "isfinite x \<Longrightarrow> isfinite y \<Longrightarrow> x * y = rnd_signed b64 (signbit x \<noteq> signbit y) (val x * val y)"
  by (cases x; cases y) (simp_all add: times_fp_def fp_mul_def Let_def)

lemma representable_add: "representable b64 x \<Longrightarrow> representable b64 y \<Longrightarrow> representable b64 (x + y)"
  by (cases x; cases y) (simp_all add: plus_fp_def)

lemma representable_neg: "representable b64 x \<Longrightarrow> representable b64 (- x)"
  by (cases x) (simp_all add: uminus_fp_def)

lemma representable_mul: "representable b64 (x * y)"
  by (auto simp: times_fp_def fp_mul_def Let_def fp_inf_def representable_rnd_signed)

lemma representable_div: "representable b64 (x / y)"
  by (auto simp: divide_fp_def fp_div_def Let_def fp_inf_def fp_zero_def representable_rnd_signed)

lemma minus_fp_alt: "x - y = x + - (y::fp)"
  by (simp add: minus_fp_def plus_fp_def uminus_fp_def)

lemma isfinite_neg [simp]: "isfinite (- x) = isfinite x"
  by (cases x) (simp_all add: uminus_fp_def)

lemma val_neg [simp]: "val (- x) = - val x"
  by (cases x) (simp_all add: uminus_fp_def)

lemma neg_neg [simp]: "- (- x) = (x::fp)"
  by (cases x) (simp_all add: uminus_fp_def)

text \<open>A finite number minus itself is the positive zero.\<close>

lemma sub_self: "isfinite x \<Longrightarrow> x - x = 0"
  by (cases x) (simp_all add: minus_fp_def zero_fp_def rnd_exact)


lemma rnd_exact_small [fp_eval]:
  "on_grid b64 q \<Longrightarrow> \<bar>q\<bar> < 9007199254740992 \<Longrightarrow> rnd b64 q = Fin q"
  "on_grid b64 q \<Longrightarrow> \<bar>q\<bar> < 9007199254740992 \<Longrightarrow> q \<noteq> 0 \<Longrightarrow> rnd_signed b64 s q = Fin q"
  by (auto simp: rnd_def rnd_signed_def Let_def d.rd_fix)

text \<open>Evaluating an inexact rounding of \<open>a / b\<close>: the significand \<open>m\<close> and the scale \<open>n\<close> are given
  and the conditions are integer arithmetic.\<close>

lemma rnd_eval:
  assumes "0 < b" "4503599627370496 * b \<le> a * 2 ^ n" "m < 9007199254740992"
    and "2 * \<bar>a * 2 ^ n - m * b\<bar> < b" "n \<le> 1000"
  shows "rnd b64 (of_int a / of_int b) = Fin (of_int m / 2 ^ n)"
    and "rnd_signed b64 s (of_int a / of_int b) = Fin (of_int m / 2 ^ n)"
proof -
  let ?q = "rat_of_int a / of_int b" and ?k = "52 - int n"
  have e: "(2::rat) powi (- int n) = 1 / 2 ^ n" by (simp add: power_int_minus divide_inverse)
  have k: "(2::rat) powi ?k = 4503599627370496 / 2 ^ n" "(2::rat) powi (?k + 1) = 9007199254740992 / 2 ^ n"
    using power_int_diff [of "2::rat" 52 "int n"] powi_Suc [of ?k] by simp_all
  have b: "0 < rat_of_int b" using assms(1) by simp
  have "of_int (4503599627370496 * b) \<le> rat_of_int (a * 2 ^ n)" using assms(2) by (simp only: of_int_le_iff)
  then have lo: "4503599627370496 * of_int b \<le> rat_of_int a * 2 ^ n" by simp
  have "rat_of_int (2 * \<bar>a * 2 ^ n - m * b\<bar>) < of_int b" using assms(4) by (simp only: of_int_less_iff)
  then have near: "2 * \<bar>rat_of_int a * 2 ^ n - of_int m * of_int b\<bar> < of_int b" by simp
  have "a * 2 ^ n < 9007199254740992 * b"
  proof -
    have "(m + 1) * b \<le> 9007199254740992 * b" using assms(1,3) by (intro mult_right_mono) simp_all
    then have "m * b + b \<le> 9007199254740992 * b" by (simp only: distrib_right mult_1)
    moreover have "x < z" if "y + c \<le> z" "2 * \<bar>x - y\<bar> < c" "0 < c" for x y z c :: int
      using that by arith
    ultimately show ?thesis using assms(1,4) by blast
  qed
  then have "rat_of_int (a * 2 ^ n) < of_int (9007199254740992 * b)" by (simp only: of_int_less_iff)
  then have hi: "rat_of_int a * 2 ^ n < 9007199254740992 * of_int b" by simp
  have "0 < rat_of_int a * 2 ^ n" using lo b by linarith
  then have a: "0 < rat_of_int a" by (simp add: zero_less_mult_iff)
  have "\<bar>of_int m - ?q / 2 powi (- int n)\<bar> < 1/2"
  proof -
    have "of_int m - ?q / 2 powi (- int n) = (of_int m * of_int b - of_int a * 2 ^ n) / of_int b"
      using b by (simp add: e field_simps)
    then have "\<bar>of_int m - ?q / 2 powi (- int n)\<bar> = \<bar>of_int a * 2 ^ n - of_int m * of_int b\<bar> / of_int b"
      using b by (simp add: abs_minus_commute)
    also have "\<dots> < 1/2" using near b by (simp add: divide_less_eq)
    finally show ?thesis .
  qed
  moreover have "2 powi ?k \<le> \<bar>?q\<bar>" unfolding k using lo b a by (simp add: field_simps)
  moreover have "\<bar>?q\<bar> < 2 powi (?k + 1)" unfolding k using hi b a by (simp add: field_simps)
  moreover have "- int n = max (?k - (int (prec b64) - 1)) (qmin b64)" using assms(5) by simp
  ultimately have r: "round_rat b64 ?q = of_int m * 2 powi (- int n)"
    by (intro round_rat_eqI)
  have "m \<noteq> 0"
  proof
    assume "m = 0"
    then have "2 * \<bar>a * 2 ^ n\<bar> < b" using assms(4) by simp
    with assms(1,2) show False by linarith
  qed
  moreover have "\<bar>rat_of_int m / 2 ^ n\<bar> < 2 powi 1024"
  proof -
    have "0 < y + c" if "0 \<le> x" "2 * \<bar>x - y\<bar> < c" "0 < c" for x y c :: int
      using that by arith
    moreover have "0 \<le> a * 2 ^ n" using assms(1,2) by linarith
    ultimately have "0 < m * b + b" using assms(1,4) by blast
    then have "0 < (m + 1) * b" by (simp only: distrib_right mult_1)
    then have "0 \<le> m" using assms(1) by (simp add: zero_less_mult_iff)
    with assms(3) have "rat_of_int m < of_int 9007199254740992" "0 \<le> rat_of_int m" by (simp_all only: of_int_less_iff of_int_0_le_iff)
    moreover have "rat_of_int m / 2 ^ n \<le> of_int m" using \<open>0 \<le> rat_of_int m\<close> by (simp add: divide_le_eq mult_le_cancel_left1)
    ultimately show ?thesis by simp
  qed
  ultimately show "rnd b64 ?q = Fin (of_int m / 2 ^ n)" "rnd_signed b64 s ?q = Fin (of_int m / 2 ^ n)"
    by (simp_all add: rnd_def rnd_signed_def Let_def r e)
qed

section \<open>Comparisons of the standard library on finite operands\<close>

lemma clamp_val:
  assumes "isfinite v" "isfinite lo" "isfinite hi" "val lo \<le> val hi"
  shows "isfinite (std_clamp v lo hi)" and "val (std_clamp v lo hi) = max (val lo) (min (val hi) (val v))"
  using assms by (auto simp: std_clamp_def less_fp_finite)

lemma std_max_val:
  assumes "isfinite a" "isfinite b"
  shows "isfinite (std_max a b)" and "val (std_max a b) = max (val a) (val b)"
  using assms by (auto simp: std_max_def less_fp_finite)

lemma fp_mul_le_mono:
  assumes "isfinite c" "0 \<le> val c" "isfinite x" "isfinite y" "val x \<le> val y"
  shows "c * x \<le> c * y"
  using assms by (simp add: fp_mul_finite rnd_signed_le_mono mult_left_mono)

lemma fp_sub_le_anti:
  assumes "isfinite a" "isfinite x" "isfinite y" "val x \<le> val y"
  shows "a - y \<le> a - x"
  unfolding minus_fp_alt using assms by (intro fp_add_le_mono) (simp_all add: le_fp_finite)

text \<open>A literal between two \<^verbatim>\<open>double\<close>s is between them after rounding.\<close>

lemma lit_between:
  assumes "representable b64 (Fin lo)" "representable b64 (Fin hi)" "lo \<le> q" "q \<le> hi"
  shows "isfinite (lit q)" and "lo \<le> val (lit q)" and "val (lit q) \<le> hi"
proof -
  have "Fin lo \<le> lit q"
    unfolding lit_def rnd_def by (rule rnd_signed_ge_exact [OF _ assms(1)]) (simp_all add: assms(3))
  moreover have "lit q \<le> Fin hi"
    unfolding lit_def rnd_def by (rule rnd_signed_le_exact [OF _ assms(2)]) (simp_all add: assms(4))
  ultimately show f: "isfinite (lit q)" by (rule finite_between [of "Fin lo" "Fin hi", rotated 2]) simp_all
  with \<open>Fin lo \<le> lit q\<close> \<open>lit q \<le> Fin hi\<close> show "lo \<le> val (lit q)" "val (lit q) \<le> hi" by (simp_all add: le_fp_finite)
qed

lemma representable_lit [simp]: "representable b64 (lit q)" "representable b64 (of_count n)"
  by (simp_all add: lit_def of_count_def)

end
