(* ===== verification/Config.thy ===== *)
theory Config
  imports Ieee
begin

text \<open>
  \<^verbatim>\<open>include/betaflight_gazebo_bridge/Config.hh\<close> and \<^verbatim>\<open>src/Config.cc\<close>: the configuration structs with
  their member initialisers, \<^verbatim>\<open>ConfigLoader::Load\<close> and \<^verbatim>\<open>ConfigLoader::Validate\<close>.  yaml-cpp is not
  part of the repository: its node operations are the fields of the record \<open>yaml\<close>, an argument of
  everything that reads the document.  So is \<^verbatim>\<open>inet_pton(AF_INET, ...)\<close>.
\<close>

section \<open>The structs\<close>

record SitlConfig =
  sitl_address :: string
  sitl_motorPort :: u16
  sitl_fdmPort :: u16
  sitl_rcPort :: u16

record GazeboConfig =
  gz_imuTopic :: string
  gz_altimeterTopic :: string
  gz_navsatTopic :: "string option"
  gz_actuatorTopic :: string

record FdmConfig =
  fdm_rateHz :: double
  fdm_frameMode :: string
  fdm_pressureMode :: string
  fdm_altitudeSource :: string
  fdm_seaLevelPressurePa :: double

record MotorConfig =
  mot_map :: "int arr4"
  mot_minRotorVelocityRadS :: double
  mot_maxRotorVelocityRadS :: double
  mot_timeoutSeconds :: double
  mot_publishZeroOnTimeout :: bool

record LoggingConfig =
  log_level :: string
  log_statusPeriodSeconds :: double
  log_logFirstPackets :: bool

record MavlinkConfig =
  mav_address :: string
  mav_port :: u16
  mav_systemId :: u8
  mav_componentId :: u8

record OdometryConfig =
  odo_enabled :: bool
  odo_gazeboTopic :: string

record RangefinderConfig =
  rf_enabled :: bool
  rf_name :: string
  rf_gazeboTopic :: string
  rf_output :: string
  rf_sitlAddress :: string
  rf_sitlPort :: u16
  rf_mavlinkMessage :: string
  rf_orientation :: string
  rf_sensorId :: "u8 option"

record BridgeConfig =
  sitl :: SitlConfig
  gazebo :: GazeboConfig
  fdm :: FdmConfig
  motors :: MotorConfig
  logging :: LoggingConfig
  mavlink :: MavlinkConfig
  odometry :: OdometryConfig
  rangefinders :: "RangefinderConfig list"

definition default_sitl :: SitlConfig where
  "default_sitl = \<lparr>sitl_address = ''127.0.0.1'', sitl_motorPort = 9002, sitl_fdmPort = 9003,
     sitl_rcPort = 9004\<rparr>"

definition default_gazebo :: GazeboConfig where
  "default_gazebo = \<lparr>gz_imuTopic = ''/imu'', gz_altimeterTopic = ''/altimeter'', gz_navsatTopic = None,
     gz_actuatorTopic = ''/X3/gazebo/command/motor_speed''\<rparr>"

definition default_fdm :: FdmConfig where
  "default_fdm = \<lparr>fdm_rateHz = lit 500, fdm_frameMode = ''gazebo_bridge'',
     fdm_pressureMode = ''from_altitude'', fdm_altitudeSource = ''altimeter'',
     fdm_seaLevelPressurePa = lit 101325\<rparr>"

definition default_motors :: MotorConfig where
  "default_motors = \<lparr>mot_map = Arr4 0 1 2 3, mot_minRotorVelocityRadS = 0,
     mot_maxRotorVelocityRadS = lit 800, mot_timeoutSeconds = lit (1/10),
     mot_publishZeroOnTimeout = True\<rparr>"

definition default_logging :: LoggingConfig where
  "default_logging = \<lparr>log_level = ''info'', log_statusPeriodSeconds = 1, log_logFirstPackets = True\<rparr>"

definition default_mavlink :: MavlinkConfig where
  "default_mavlink = \<lparr>mav_address = ''127.0.0.1'', mav_port = 14550, mav_systemId = 1,
     mav_componentId = 158\<rparr>"

definition default_odometry :: OdometryConfig where
  "default_odometry = \<lparr>odo_enabled = False, odo_gazeboTopic = ''/model/X3/odometry''\<rparr>"

definition default_rangefinder :: RangefinderConfig where
  "default_rangefinder = \<lparr>rf_enabled = True, rf_name = '''', rf_gazeboTopic = '''', rf_output = '''',
     rf_sitlAddress = '''', rf_sitlPort = 0, rf_mavlinkMessage = '''', rf_orientation = '''',
     rf_sensorId = None\<rparr>"

definition default_config :: BridgeConfig where
  "default_config = \<lparr>sitl = default_sitl, gazebo = default_gazebo, fdm = default_fdm,
     motors = default_motors, logging = default_logging, mavlink = default_mavlink,
     odometry = default_odometry, rangefinders = []\<rparr>"

section \<open>Loading\<close>

text \<open>
  The yaml-cpp operations the loader calls: \<^verbatim>\<open>LoadFile\<close>, \<^verbatim>\<open>node[key]\<close>, \<^verbatim>\<open>operator bool\<close>,
  \<^verbatim>\<open>IsSequence\<close>, the elements of a sequence (\<^verbatim>\<open>size\<close>, \<^verbatim>\<open>node[i]\<close>, iteration) and \<^verbatim>\<open>as<T>()\<close> for
  the four types it reads.
\<close>

record 'n yaml =
  y_load :: "string \<Rightarrow> 'n outcome"
  y_get :: "'n \<Rightarrow> string \<Rightarrow> 'n outcome"
  y_defined :: "'n \<Rightarrow> bool"
  y_is_seq :: "'n \<Rightarrow> bool"
  y_items :: "'n \<Rightarrow> 'n list"
  y_string :: "'n \<Rightarrow> string outcome"
  y_int :: "'n \<Rightarrow> int outcome"
  y_double :: "'n \<Rightarrow> double outcome"
  y_bool :: "'n \<Rightarrow> bool outcome"

definition ReadScalar :: "'n yaml \<Rightarrow> ('n \<Rightarrow> 'a outcome) \<Rightarrow> 'n \<Rightarrow> string \<Rightarrow> 'a \<Rightarrow> 'a outcome" where
  "ReadScalar Y as_T node key value =
     (if y_defined Y node
      then obind (y_get Y node key) (\<lambda>n. if y_defined Y n then as_T n else Ok value)
      else Ok value)"

definition ReadPort :: "'n yaml \<Rightarrow> 'n \<Rightarrow> string \<Rightarrow> u16 \<Rightarrow> u16 outcome" where
  "ReadPort Y node key fallback =
     (if \<not> y_defined Y node then Ok fallback
      else obind (y_get Y node key) (\<lambda>n. if \<not> y_defined Y n then Ok fallback
        else obind (y_int Y n) (\<lambda>port.
          throw_if (port \<le> 0 \<or> 65535 < port) (''Invalid UDP port for '' @ key)
            (Ok (word_of_int port)))))"

definition LoadSitl :: "'n yaml \<Rightarrow> 'n \<Rightarrow> SitlConfig \<Rightarrow> SitlConfig outcome" where
  "LoadSitl Y node c =
     obind (ReadScalar Y (y_string Y) node ''address'' (sitl_address c)) (\<lambda>address.
     obind (ReadPort Y node ''motor_port'' (sitl_motorPort c)) (\<lambda>motorPort.
     obind (ReadPort Y node ''fdm_port'' (sitl_fdmPort c)) (\<lambda>fdmPort.
     obind (ReadPort Y node ''rc_port'' (sitl_rcPort c)) (\<lambda>rcPort.
       Ok \<lparr>sitl_address = address, sitl_motorPort = motorPort, sitl_fdmPort = fdmPort,
           sitl_rcPort = rcPort\<rparr>))))"

definition LoadGazebo :: "'n yaml \<Rightarrow> 'n \<Rightarrow> GazeboConfig \<Rightarrow> GazeboConfig outcome" where
  "LoadGazebo Y node c =
     obind (ReadScalar Y (y_string Y) node ''imu_topic'' (gz_imuTopic c)) (\<lambda>imu.
     obind (ReadScalar Y (y_string Y) node ''altimeter_topic'' (gz_altimeterTopic c)) (\<lambda>alt.
     obind (ReadScalar Y (\<lambda>n. obind (y_string Y n) (\<lambda>s. Ok (Some s))) node ''navsat_topic''
       (gz_navsatTopic c)) (\<lambda>navsat.
     obind (ReadScalar Y (y_string Y) node ''actuator_topic'' (gz_actuatorTopic c)) (\<lambda>act.
       Ok \<lparr>gz_imuTopic = imu, gz_altimeterTopic = alt, gz_navsatTopic = navsat,
           gz_actuatorTopic = act\<rparr>))))"

definition LoadFdm :: "'n yaml \<Rightarrow> 'n \<Rightarrow> FdmConfig \<Rightarrow> FdmConfig outcome" where
  "LoadFdm Y node c =
     obind (ReadScalar Y (y_double Y) node ''rate_hz'' (fdm_rateHz c)) (\<lambda>rate.
     obind (ReadScalar Y (y_string Y) node ''frame_mode'' (fdm_frameMode c)) (\<lambda>frame.
     obind (ReadScalar Y (y_string Y) node ''pressure_mode'' (fdm_pressureMode c)) (\<lambda>pressure.
     obind (ReadScalar Y (y_string Y) node ''altitude_source'' (fdm_altitudeSource c)) (\<lambda>source.
     obind (ReadScalar Y (y_double Y) node ''sea_level_pressure_pa'' (fdm_seaLevelPressurePa c)) (\<lambda>p0.
       Ok \<lparr>fdm_rateHz = rate, fdm_frameMode = frame, fdm_pressureMode = pressure,
           fdm_altitudeSource = source, fdm_seaLevelPressurePa = p0\<rparr>)))))"

text \<open>\<^verbatim>\<open>motors.map\<close>: a sequence of exactly four scalars, converted left to right.\<close>

definition LoadMotorMap :: "'n yaml \<Rightarrow> 'n \<Rightarrow> int arr4 \<Rightarrow> int arr4 outcome" where
  "LoadMotorMap Y node m =
     (if y_defined Y node
      then obind (y_get Y node ''map'') (\<lambda>n. if y_defined Y n
        then throw_if (\<not> y_is_seq Y n \<or> length (y_items Y n) \<noteq> 4)
               ''motors.map must contain exactly four indices''
               (arr4_mapM (y_int Y) (Arr4 (y_items Y n ! 0) (y_items Y n ! 1)
                                          (y_items Y n ! 2) (y_items Y n ! 3)))
        else Ok m)
      else Ok m)"

definition LoadMotors :: "'n yaml \<Rightarrow> 'n \<Rightarrow> MotorConfig \<Rightarrow> MotorConfig outcome" where
  "LoadMotors Y node c =
     obind (LoadMotorMap Y node (mot_map c)) (\<lambda>m.
     obind (ReadScalar Y (y_double Y) node ''min_rotor_velocity_rad_s'' (mot_minRotorVelocityRadS c)) (\<lambda>lo.
     obind (ReadScalar Y (y_double Y) node ''max_rotor_velocity_rad_s'' (mot_maxRotorVelocityRadS c)) (\<lambda>hi.
     obind (ReadScalar Y (y_double Y) node ''timeout_seconds'' (mot_timeoutSeconds c)) (\<lambda>timeout.
     obind (ReadScalar Y (y_bool Y) node ''publish_zero_on_timeout'' (mot_publishZeroOnTimeout c)) (\<lambda>zero.
       Ok \<lparr>mot_map = m, mot_minRotorVelocityRadS = lo, mot_maxRotorVelocityRadS = hi,
           mot_timeoutSeconds = timeout, mot_publishZeroOnTimeout = zero\<rparr>)))))"

definition LoadLogging :: "'n yaml \<Rightarrow> 'n \<Rightarrow> LoggingConfig \<Rightarrow> LoggingConfig outcome" where
  "LoadLogging Y node c =
     obind (ReadScalar Y (y_string Y) node ''level'' (log_level c)) (\<lambda>level.
     obind (ReadScalar Y (y_double Y) node ''status_period_seconds'' (log_statusPeriodSeconds c)) (\<lambda>period.
     obind (ReadScalar Y (y_bool Y) node ''log_first_packets'' (log_logFirstPackets c)) (\<lambda>first.
       Ok \<lparr>log_level = level, log_statusPeriodSeconds = period, log_logFirstPackets = first\<rparr>)))"

definition LoadMavlink :: "'n yaml \<Rightarrow> 'n \<Rightarrow> MavlinkConfig \<Rightarrow> MavlinkConfig outcome" where
  "LoadMavlink Y node c =
     obind (ReadScalar Y (y_string Y) node ''address'' (mav_address c)) (\<lambda>address.
     obind (ReadPort Y node ''port'' (mav_port c)) (\<lambda>port.
     obind (ReadScalar Y (y_int Y) node ''system_id'' (uint (mav_systemId c))) (\<lambda>systemId.
     obind (ReadScalar Y (y_int Y) node ''component_id'' (uint (mav_componentId c))) (\<lambda>componentId.
       throw_if (systemId < 1 \<or> 255 < systemId \<or> componentId < 1 \<or> 255 < componentId)
         ''mavlink source IDs must be in range 1..255''
         (Ok \<lparr>mav_address = address, mav_port = port, mav_systemId = word_of_int systemId,
              mav_componentId = word_of_int componentId\<rparr>)))))"

definition LoadOdometry :: "'n yaml \<Rightarrow> 'n \<Rightarrow> OdometryConfig \<Rightarrow> OdometryConfig outcome" where
  "LoadOdometry Y node c =
     obind (ReadScalar Y (y_bool Y) node ''enable'' (odo_enabled c)) (\<lambda>enabled.
     obind (ReadScalar Y (y_string Y) node ''gazebo_topic'' (odo_gazeboTopic c)) (\<lambda>topic.
       Ok \<lparr>odo_enabled = enabled, odo_gazeboTopic = topic\<rparr>))"

definition LoadSensorId :: "'n yaml \<Rightarrow> 'n \<Rightarrow> u8 option outcome" where
  "LoadSensorId Y node =
     obind (y_get Y node ''sensor_id'') (\<lambda>n. if y_defined Y n
       then obind (y_int Y n) (\<lambda>i.
         throw_if (i < 0 \<or> 255 < i) ''rangefinder sensor_id must be in range 0..255''
           (Ok (Some (word_of_int i))))
       else Ok None)"

definition LoadRangefinder :: "'n yaml \<Rightarrow> 'n \<Rightarrow> RangefinderConfig outcome" where
  "LoadRangefinder Y node = (let c = default_rangefinder in
     obind (ReadScalar Y (y_bool Y) node ''enable'' (rf_enabled c)) (\<lambda>enabled.
     obind (ReadScalar Y (y_string Y) node ''name'' (rf_name c)) (\<lambda>name.
     obind (ReadScalar Y (y_string Y) node ''gazebo_topic'' (rf_gazeboTopic c)) (\<lambda>topic.
     obind (ReadScalar Y (y_string Y) node ''output'' (rf_output c)) (\<lambda>output.
     obind (ReadScalar Y (y_string Y) node ''sitl_address'' (rf_sitlAddress c)) (\<lambda>address.
     obind (ReadPort Y node ''sitl_port'' 0) (\<lambda>port.
     obind (ReadScalar Y (y_string Y) node ''mavlink_message'' (rf_mavlinkMessage c)) (\<lambda>message.
     obind (ReadScalar Y (y_string Y) node ''orientation'' (rf_orientation c)) (\<lambda>orientation.
     obind (LoadSensorId Y node) (\<lambda>sensorId.
       Ok \<lparr>rf_enabled = enabled, rf_name = name, rf_gazeboTopic = topic, rf_output = output,
           rf_sitlAddress = address, rf_sitlPort = port, rf_mavlinkMessage = message,
           rf_orientation = orientation, rf_sensorId = sensorId\<rparr>))))))))))"

fun LoadRangefinders :: "'n yaml \<Rightarrow> 'n list \<Rightarrow> RangefinderConfig list outcome" where
  "LoadRangefinders Y [] = Ok []"
| "LoadRangefinders Y (n # ns) =
     obind (LoadRangefinder Y n) (\<lambda>r. obind (LoadRangefinders Y ns) (\<lambda>rs. Ok (r # rs)))"

section \<open>Validation\<close>

text \<open>\<^verbatim>\<open>std::to_string\<close> of an unsigned number; \<open>quoted\<close> builds the messages that quote an option.\<close>

fun to_dec :: "nat \<Rightarrow> string" where
  "to_dec n = (if n < 10 then [char_of (48 + n)] else to_dec (n div 10) @ [char_of (48 + n mod 10)])"

declare to_dec.simps [simp del]

definition quoted :: "string \<Rightarrow> string" where
  "quoted s = CHR 0x27 # s @ [CHR 0x27]"

definition endpoint :: "RangefinderConfig \<Rightarrow> string" where
  "endpoint r = rf_sitlAddress r @ '':'' @ to_dec (unat (rf_sitlPort r))"

text \<open>The loop over \<^verbatim>\<open>motors.map\<close> with its set of indices seen so far.\<close>

fun ValidateMap :: "int set \<Rightarrow> int list \<Rightarrow> unit outcome" where
  "ValidateMap seen [] = Ok ()"
| "ValidateMap seen (index # is) =
     throw_if (index < 0 \<or> 3 < index) ''motors.map values must be in range 0..3''
       (throw_if (index \<in> seen) ''motors.map must not contain duplicate indices''
         (ValidateMap (insert index seen) is))"

text \<open>The loop over the rangefinders: names, topics, endpoints and sensor identifiers seen so far, and
  whether an \<^verbatim>\<open>obstacle_distance\<close> mapping has been seen.\<close>

fun ValidateRangefinders ::
  "string set \<Rightarrow> string set \<Rightarrow> string set \<Rightarrow> u8 set \<Rightarrow> bool \<Rightarrow> RangefinderConfig list \<Rightarrow> unit outcome" where
  "ValidateRangefinders names topics endpoints ids obstacle [] = Ok ()"
| "ValidateRangefinders names topics endpoints ids obstacle (r # rs) =
     throw_if (rf_name r = '''' \<or> rf_name r \<in> names) ''rangefinder names must be non-empty and unique''
     (throw_if (rf_gazeboTopic r = '''' \<or> rf_gazeboTopic r \<in> topics)
        ''rangefinder Gazebo topics must be non-empty and unique''
     (let names' = insert (rf_name r) names; topics' = insert (rf_gazeboTopic r) topics in
      if rf_output r = ''tfmini'' then
        throw_if (rf_sitlAddress r = '''' \<or> rf_sitlPort r = 0)
          ''TFmini rangefinder requires sitl_address and sitl_port''
        (throw_if (endpoint r \<in> endpoints) ''TFmini endpoints must be unique''
          (ValidateRangefinders names' topics' (insert (endpoint r) endpoints) ids obstacle rs))
      else if rf_output r = ''mavlink'' then
        throw_if (rf_orientation r \<noteq> ''forward'')
          (''MAVLink rangefinder orientation must be '' @ quoted ''forward'')
        (if rf_mavlinkMessage r = ''distance_sensor'' then
           (case rf_sensorId r of
              None \<Rightarrow> Throw ''DISTANCE_SENSOR requires a unique sensor_id''
            | Some i \<Rightarrow> throw_if (i \<in> ids) ''DISTANCE_SENSOR requires a unique sensor_id''
                (ValidateRangefinders names' topics' endpoints (insert i ids) obstacle rs))
         else if rf_mavlinkMessage r = ''obstacle_distance'' then
           throw_if obstacle ''only one OBSTACLE_DISTANCE rangefinder is supported''
             (ValidateRangefinders names' topics' endpoints ids True rs)
         else Throw (''mavlink_message must be '' @ quoted ''distance_sensor'' @ '' or '' @
                quoted ''obstacle_distance''))
      else Throw (''rangefinder output must be '' @ quoted ''tfmini'' @ '' or '' @ quoted ''mavlink'')))"

definition Validate :: "(string \<Rightarrow> u32 option) \<Rightarrow> BridgeConfig \<Rightarrow> unit outcome" where
  "Validate inet_pton c = (let g = gazebo c; f = fdm c; m = motors c in
     throw_if (inet_pton (mav_address (mavlink c)) = None) ''mavlink.address must be an IPv4 address''
     (throw_if (gz_imuTopic g = '''' \<or> gz_altimeterTopic g = '''' \<or> gz_actuatorTopic g = '''')
        ''Gazebo topics must not be empty''
     (throw_if (gz_navsatTopic g = Some '''') ''gazebo.navsat_topic must not be empty''
     (throw_if (odo_enabled (odometry c) \<and> odo_gazeboTopic (odometry c) = '''')
        ''odometry.gazebo_topic must not be empty''
     (throw_if (fdm_rateHz f \<le> 0) ''fdm.rate_hz must be positive''
     (throw_if (fdm_frameMode f \<noteq> ''gazebo_bridge'' \<and> fdm_frameMode f \<noteq> ''passthrough'')
        (''fdm.frame_mode must be '' @ quoted ''gazebo_bridge'' @ '' or '' @ quoted ''passthrough'')
     (throw_if (fdm_seaLevelPressurePa f \<le> 0) ''fdm.sea_level_pressure_pa must be positive''
     (throw_if (fdm_pressureMode f \<noteq> ''from_altitude'' \<and> fdm_pressureMode f \<noteq> ''zero'')
        (''fdm.pressure_mode must be '' @ quoted ''from_altitude'' @ '' or '' @ quoted ''zero'')
     (throw_if (fdm_altitudeSource f \<noteq> ''altimeter'' \<and> fdm_altitudeSource f \<noteq> ''gps'')
        (''fdm.altitude_source must be '' @ quoted ''altimeter'' @ '' or '' @ quoted ''gps'')
     (throw_if (fdm_altitudeSource f = ''gps'' \<and> gz_navsatTopic g = None)
        (''fdm.altitude_source '' @ quoted ''gps'' @ '' requires gazebo.navsat_topic'')
     (throw_if (mot_timeoutSeconds m \<le> 0) ''motors.timeout_seconds must be positive''
     (throw_if (mot_minRotorVelocityRadS m < 0 \<or> mot_maxRotorVelocityRadS m \<le> mot_minRotorVelocityRadS m)
        ''motor velocity range is invalid''
     (obind (ValidateMap {} (arr4_list (mot_map m)))
        (\<lambda>_. ValidateRangefinders {} {} {} {} False (rangefinders c)))))))))))))))"

definition Load :: "'n yaml \<Rightarrow> (string \<Rightarrow> u32 option) \<Rightarrow> string \<Rightarrow> BridgeConfig outcome" where
  "Load Y inet_pton path = (let d = default_config in
     obind (y_load Y path) (\<lambda>doc.
     obind (y_get Y doc ''sitl'') (\<lambda>n. obind (LoadSitl Y n (sitl d)) (\<lambda>sitl.
     obind (y_get Y doc ''gazebo'') (\<lambda>n. obind (LoadGazebo Y n (gazebo d)) (\<lambda>gazebo.
     obind (y_get Y doc ''fdm'') (\<lambda>n. obind (LoadFdm Y n (fdm d)) (\<lambda>fdm.
     obind (y_get Y doc ''motors'') (\<lambda>n. obind (LoadMotors Y n (motors d)) (\<lambda>motors.
     obind (y_get Y doc ''logging'') (\<lambda>n. obind (LoadLogging Y n (logging d)) (\<lambda>logging.
     obind (y_get Y doc ''mavlink'') (\<lambda>n. obind (LoadMavlink Y n (mavlink d)) (\<lambda>mavlink.
     obind (y_get Y doc ''odometry'') (\<lambda>n. obind (LoadOdometry Y n (odometry d)) (\<lambda>odometry.
     obind (y_get Y doc ''rangefinders'') (\<lambda>n.
     obind (throw_if (y_defined Y n \<and> \<not> y_is_seq Y n) ''rangefinders must be a list''
              (LoadRangefinders Y (if y_defined Y n then y_items Y n else []))) (\<lambda>rs.
     let config = \<lparr>sitl = sitl, gazebo = gazebo, fdm = fdm, motors = motors, logging = logging,
           mavlink = mavlink, odometry = odometry, rangefinders = rs\<rparr> in
     obind (Validate inet_pton config) (\<lambda>_. Ok config)))))))))))))))))))"

section \<open>What validation promises\<close>

text \<open>The declarative reading of \<^verbatim>\<open>Validate\<close>, without its loops and sets.\<close>

definition valid_rangefinder :: "RangefinderConfig \<Rightarrow> bool" where
  "valid_rangefinder r \<longleftrightarrow> rf_name r \<noteq> '''' \<and> rf_gazeboTopic r \<noteq> '''' \<and>
     (rf_output r = ''tfmini'' \<and> rf_sitlAddress r \<noteq> '''' \<and> rf_sitlPort r \<noteq> 0 \<or>
      rf_output r = ''mavlink'' \<and> rf_orientation r = ''forward'' \<and>
        (rf_mavlinkMessage r = ''distance_sensor'' \<and> rf_sensorId r \<noteq> None \<or>
         rf_mavlinkMessage r = ''obstacle_distance''))"

definition is_tfmini :: "RangefinderConfig \<Rightarrow> bool" where
  "is_tfmini r \<longleftrightarrow> rf_output r = ''tfmini''"

definition is_distance_sensor :: "RangefinderConfig \<Rightarrow> bool" where
  "is_distance_sensor r \<longleftrightarrow> rf_output r = ''mavlink'' \<and> rf_mavlinkMessage r = ''distance_sensor''"

definition is_obstacle :: "RangefinderConfig \<Rightarrow> bool" where
  "is_obstacle r \<longleftrightarrow> rf_output r = ''mavlink'' \<and> rf_mavlinkMessage r = ''obstacle_distance''"

definition tcp_endpoint :: "RangefinderConfig \<Rightarrow> string \<times> u16" where
  "tcp_endpoint r = (rf_sitlAddress r, rf_sitlPort r)"

definition valid_rangefinders :: "RangefinderConfig list \<Rightarrow> bool" where
  "valid_rangefinders rs \<longleftrightarrow> list_all valid_rangefinder rs \<and>
     distinct (map rf_name rs) \<and> distinct (map rf_gazeboTopic rs) \<and>
     distinct (map tcp_endpoint (filter is_tfmini rs)) \<and>
     distinct (map rf_sensorId (filter is_distance_sensor rs)) \<and>
     length (filter is_obstacle rs) \<le> 1"

definition valid_map :: "int arr4 \<Rightarrow> bool" where
  "valid_map m \<longleftrightarrow> set (arr4_list m) \<subseteq> {0..3} \<and> distinct (arr4_list m)"

definition valid_config :: "(string \<Rightarrow> u32 option) \<Rightarrow> BridgeConfig \<Rightarrow> bool" where
  "valid_config inet_pton c \<longleftrightarrow>
     inet_pton (mav_address (mavlink c)) \<noteq> None \<and>
     gz_imuTopic (gazebo c) \<noteq> '''' \<and> gz_altimeterTopic (gazebo c) \<noteq> '''' \<and>
     gz_actuatorTopic (gazebo c) \<noteq> '''' \<and> gz_navsatTopic (gazebo c) \<noteq> Some '''' \<and>
     (odo_enabled (odometry c) \<longrightarrow> odo_gazeboTopic (odometry c) \<noteq> '''') \<and>
     \<not> fdm_rateHz (fdm c) \<le> 0 \<and>
     fdm_frameMode (fdm c) \<in> {''gazebo_bridge'', ''passthrough''} \<and>
     \<not> fdm_seaLevelPressurePa (fdm c) \<le> 0 \<and>
     fdm_pressureMode (fdm c) \<in> {''from_altitude'', ''zero''} \<and>
     (fdm_altitudeSource (fdm c) = ''altimeter'' \<or>
      fdm_altitudeSource (fdm c) = ''gps'' \<and> gz_navsatTopic (gazebo c) \<noteq> None) \<and>
     \<not> mot_timeoutSeconds (motors c) \<le> 0 \<and>
     \<not> mot_minRotorVelocityRadS (motors c) < 0 \<and>
     \<not> mot_maxRotorVelocityRadS (motors c) \<le> mot_minRotorVelocityRadS (motors c) \<and>
     valid_map (mot_map (motors c)) \<and> valid_rangefinders (rangefinders c)"

lemma ValidateMap_iff:
  "ValidateMap seen is = Ok () \<longleftrightarrow> set is \<subseteq> {0..3} \<and> distinct is \<and> set is \<inter> seen = {}"
  by (induction "is" arbitrary: seen) auto

lemma valid_map_perm: "valid_map m \<Longrightarrow> set (arr4_list m) = {0, 1, 2, 3}"
proof -
  assume v: "valid_map m"
  then have "card (set (arr4_list m)) = 4"
    unfolding valid_map_def by (simp add: distinct_card)
  moreover have s: "set (arr4_list m) \<subseteq> {0, 1, 2, 3}"
    using v by (auto simp: valid_map_def)
  moreover have "card {0, 1, 2, 3::int} = 4" by simp
  ultimately show ?thesis using card_subset_eq [OF _ s] by simp
qed

subsection \<open>Endpoint strings identify endpoints\<close>

lemma of_char_digit: "d < 10 \<Longrightarrow> of_char (char_of (48 + d) :: char) = (48 + d :: nat)"
  by simp

lemma to_dec_no_colon: "CHR '':'' \<notin> set (to_dec n)"
proof (induction n rule: to_dec.induct)
  case (1 n)
  have c: "char_of (48 + d) \<noteq> CHR '':''" if "d < 10" for d :: nat
  proof
    assume "char_of (48 + d) = CHR '':''"
    then have "of_char (char_of (48 + d) :: char) = (of_char CHR '':'' :: nat)" by (rule arg_cong)
    with that show False by (simp only: of_char_digit) simp
  qed
  show ?case
  proof (cases "n < 10")
    case True
    then show ?thesis using c [of n] by (subst to_dec.simps) auto
  next
    case False
    have "char_of (48 + n mod 10) \<noteq> CHR '':''" by (rule c) simp
    with 1 [OF False] False show ?thesis by (subst to_dec.simps) auto
  qed
qed

lemma to_dec_inj: "to_dec m = to_dec n \<Longrightarrow> m = n"
proof (induction m arbitrary: n rule: to_dec.induct)
  case (1 m)
  have ne: "to_dec k \<noteq> []" for k by (subst to_dec.simps) simp
  have last: "of_char (last (to_dec k)) = (48 + k mod 10 :: nat)" for k
  proof -
    have "last (to_dec k) = char_of (48 + k mod 10)" by (subst to_dec.simps) simp
    moreover have "of_char (char_of (48 + k mod 10) :: char) = (48 + k mod 10 :: nat)"
      by (rule of_char_digit) simp
    ultimately show ?thesis by (simp only:)
  qed
  have butl: "butlast (to_dec k) = (if k < 10 then [] else to_dec (k div 10))" for k
    by (subst to_dec.simps) simp
  have "(48 + m mod 10 :: nat) = 48 + n mod 10" unfolding last [symmetric] by (simp only: 1(2))
  then have l: "m mod 10 = n mod 10" by simp
  have b: "(if m < 10 then [] else to_dec (m div 10)) = (if n < 10 then [] else to_dec (n div 10))"
    unfolding butl [symmetric] by (simp only: 1(2))
  show ?case
  proof (cases "m < 10")
    case True
    with b ne [of "n div 10"] have "n < 10" by (simp split: if_splits)
    with True l show ?thesis by simp
  next
    case False
    with b ne [of "m div 10"] have n: "\<not> n < 10" by (auto split: if_splits)
    with False b 1(1) have "m div 10 = n div 10" by simp
    with l show ?thesis by (metis div_mod_decomp)
  qed
qed

lemma endpoint_eq_iff: "endpoint r = endpoint r' \<longleftrightarrow> tcp_endpoint r = tcp_endpoint r'"
proof
  assume e: "endpoint r = endpoint r'"
  let ?f = "\<lambda>s. takeWhile (\<lambda>c. c \<noteq> CHR '':'') (rev s)" and ?g = "\<lambda>s. dropWhile (\<lambda>c. c \<noteq> CHR '':'') (rev s)"
  have nc: "\<forall>c \<in> set (rev (to_dec k)). c \<noteq> CHR '':''" for k
    using to_dec_no_colon [of k] by auto
  have rv: "rev (endpoint r) = rev (to_dec (unat (rf_sitlPort r))) @ CHR '':'' # rev (rf_sitlAddress r)" for r
    by (simp add: endpoint_def)
  have tw: "?f (endpoint r) = rev (to_dec (unat (rf_sitlPort r)))"
    "?g (endpoint r) = CHR '':'' # rev (rf_sitlAddress r)" for r
    unfolding rv using nc [of "unat (rf_sitlPort r)"]
    by (subst takeWhile_append2 dropWhile_append2; simp)+
  have "rev (to_dec (unat (rf_sitlPort r))) = rev (to_dec (unat (rf_sitlPort r')))"
    unfolding tw(1) [symmetric] by (simp only: e)
  then have "unat (rf_sitlPort r) = unat (rf_sitlPort r')" by (auto intro: to_dec_inj)
  then have p: "rf_sitlPort r = rf_sitlPort r'" by (simp add: unsigned_word_eqI)
  have "CHR '':'' # rev (rf_sitlAddress r) = CHR '':'' # rev (rf_sitlAddress r')"
    unfolding tw(2) [symmetric] by (simp only: e)
  with p show "tcp_endpoint r = tcp_endpoint r'" by (simp add: tcp_endpoint_def)
qed (simp add: endpoint_def tcp_endpoint_def)

subsection \<open>The rangefinder loop decides the declarative condition\<close>

lemma endpoint_fresh: "tcp_endpoint r \<in> tcp_endpoint ` A \<longleftrightarrow> endpoint r \<in> endpoint ` A"
  using endpoint_eq_iff by (simp add: image_iff)

lemma kinds:
  "rf_output r = ''tfmini'' \<Longrightarrow> is_tfmini r \<and> \<not> is_distance_sensor r \<and> \<not> is_obstacle r"
  "rf_output r = ''mavlink'' \<Longrightarrow> \<not> is_tfmini r"
  "rf_output r = ''mavlink'' \<Longrightarrow> rf_mavlinkMessage r = ''distance_sensor'' \<Longrightarrow> is_distance_sensor r \<and> \<not> is_obstacle r"
  "rf_output r = ''mavlink'' \<Longrightarrow> rf_mavlinkMessage r = ''obstacle_distance'' \<Longrightarrow> is_obstacle r \<and> \<not> is_distance_sensor r"
  by (simp_all add: is_tfmini_def is_distance_sensor_def is_obstacle_def)

lemma ValidateRangefinders_iff:
  "ValidateRangefinders N T E I ob rs = Ok () \<longleftrightarrow>
     valid_rangefinders rs \<and>
     rf_name ` set rs \<inter> N = {} \<and> rf_gazeboTopic ` set rs \<inter> T = {} \<and>
     endpoint ` set (filter is_tfmini rs) \<inter> E = {} \<and>
     rf_sensorId ` set (filter is_distance_sensor rs) \<inter> Some ` I = {} \<and>
     (ob \<longrightarrow> filter is_obstacle rs = [])"
proof (induction rs arbitrary: N T E I ob)
  case Nil
  then show ?case by (simp add: valid_rangefinders_def)
next
  case (Cons r rs)
  note unfolds = Cons.IH valid_rangefinders_def valid_rangefinder_def endpoint_fresh
  show ?case
  proof (cases "rf_output r = ''tfmini''")
    case True
    then show ?thesis using kinds(1) [OF True]
      by (simp add: unfolds del: set_filter) argo
  next
    case nt: False
    show ?thesis
    proof (cases "rf_output r = ''mavlink''")
      case mav: True
      show ?thesis
      proof (cases "rf_mavlinkMessage r = ''distance_sensor''")
        case True
        with mav kinds(2) [OF mav] kinds(3) [OF mav True] show ?thesis
          by (cases "rf_sensorId r") (simp add: unfolds del: set_filter, simp add: unfolds inj_image_mem_iff del: set_filter, argo)
      next
        case nd: False
        show ?thesis
        proof (cases "rf_mavlinkMessage r = ''obstacle_distance''")
          case True
          with mav kinds(2) [OF mav] kinds(4) [OF mav True] show ?thesis
            by (cases "filter is_obstacle rs = []")
              (simp add: unfolds del: set_filter, argo, simp add: unfolds del: set_filter)
        next
          case False
          with mav nd show ?thesis by (simp add: valid_rangefinders_def valid_rangefinder_def)
        qed
      qed
    next
      case False
      with nt show ?thesis by (simp add: valid_rangefinders_def valid_rangefinder_def)
    qed
  qed
qed

lemma valid_rangefinders_run:
  "ValidateRangefinders {} {} {} {} False rs = Ok () \<longleftrightarrow> valid_rangefinders rs"
  by (simp add: ValidateRangefinders_iff)

lemma valid_map_run: "ValidateMap {} (arr4_list m) = Ok () \<longleftrightarrow> valid_map m"
  by (auto simp: ValidateMap_iff valid_map_def)

lemma Validate_iff:
  "Validate inet_pton c = Ok () \<longleftrightarrow> valid_config inet_pton c"
  unfolding Validate_def valid_config_def Let_def throw_if_eq_Ok obind_eq_Ok
  by (cases "fdm_altitudeSource (fdm c) = ''gps''")
    (simp add: valid_rangefinders_run valid_map_run unit_eq; argo)+

subsection \<open>The loader\<close>

lemma ReadPort_range:
  assumes "ReadPort Y n k d = Ok p" "d \<noteq> 0"
  shows "p \<noteq> 0"
proof -
  have "word_of_int i \<noteq> (0 :: u16)" if "0 < i" "i \<le> 65535" for i :: int
  proof
    assume "word_of_int i = (0 :: u16)"
    then have "uint (word_of_int i :: u16) = 0" by simp
    then have "i mod 65536 = 0" by (simp add: uint_word_of_int)
    with that show False by simp
  qed
  then show ?thesis using assms by (auto simp: ReadPort_def obind_eq_Ok split: if_splits)
qed

lemma Load_eq_Ok:
  "Load Y inet_pton path = Ok c \<Longrightarrow> Validate inet_pton c = Ok ()"
  by (auto simp: Load_def Let_def obind_eq_Ok)

lemma Load_parts:
  assumes "Load Y inet_pton path = Ok c"
  shows "\<exists>n. LoadSitl Y n default_sitl = Ok (sitl c)"
    and "\<exists>n. LoadMavlink Y n default_mavlink = Ok (mavlink c)"
    and "\<exists>n. LoadMotors Y n default_motors = Ok (motors c)"
  using assms by (auto simp: Load_def Let_def obind_eq_Ok default_config_def)

lemma LoadSitl_ports:
  assumes "LoadSitl Y n default_sitl = Ok c"
  shows "sitl_motorPort c \<noteq> 0" "sitl_fdmPort c \<noteq> 0" "sitl_rcPort c \<noteq> 0"
  using assms by (auto simp: LoadSitl_def obind_eq_Ok default_sitl_def dest: ReadPort_range)

lemma LoadMavlink_ids:
  assumes "LoadMavlink Y n default_mavlink = Ok c"
  shows "mav_port c \<noteq> 0" "mav_systemId c \<noteq> 0" "mav_componentId c \<noteq> 0"
proof -
  have w: "word_of_int i \<noteq> (0 :: u8)" if "1 \<le> i" "i \<le> 255" for i :: int
  proof
    assume "word_of_int i = (0 :: u8)"
    then have "uint (word_of_int i :: u8) = 0" by simp
    then have "i mod 256 = 0" by (simp add: uint_word_of_int)
    with that show False by simp
  qed
  show "mav_port c \<noteq> 0"
    using assms by (auto simp: LoadMavlink_def obind_eq_Ok default_mavlink_def dest: ReadPort_range)
  show "mav_systemId c \<noteq> 0" "mav_componentId c \<noteq> 0"
    using assms w by (auto simp: LoadMavlink_def obind_eq_Ok)
qed

text \<open>yaml-cpp reports every failure with an exception.\<close>

definition yaml_throws :: "'n yaml \<Rightarrow> bool" where
  "yaml_throws Y \<longleftrightarrow> (\<forall>p. y_load Y p \<noteq> Undefined) \<and> (\<forall>n k. y_get Y n k \<noteq> Undefined) \<and>
     (\<forall>n. y_string Y n \<noteq> Undefined \<and> y_int Y n \<noteq> Undefined \<and> y_double Y n \<noteq> Undefined \<and>
          y_bool Y n \<noteq> Undefined)"

lemma yaml_throwsD [no_ub]:
  assumes "yaml_throws Y"
  shows "y_load Y p \<noteq> Undefined" "y_get Y n k \<noteq> Undefined" "y_string Y n \<noteq> Undefined"
    "y_int Y n \<noteq> Undefined" "y_double Y n \<noteq> Undefined" "y_bool Y n \<noteq> Undefined"
  using assms by (simp_all add: yaml_throws_def)

lemma Read_no_ub [no_ub]:
  "yaml_throws Y \<Longrightarrow> (\<And>n. as_T n \<noteq> Undefined) \<Longrightarrow> ReadScalar Y as_T n k v \<noteq> Undefined"
  "yaml_throws Y \<Longrightarrow> ReadPort Y n k d \<noteq> Undefined"
  unfolding ReadScalar_def ReadPort_def by (intro no_ub; assumption?)+

lemma Load_sections_no_ub [no_ub]:
  assumes "yaml_throws Y"
  shows "LoadSitl Y n c1 \<noteq> Undefined" "LoadGazebo Y n c2 \<noteq> Undefined" "LoadFdm Y n c3 \<noteq> Undefined"
    "LoadMotors Y n c4 \<noteq> Undefined" "LoadLogging Y n c5 \<noteq> Undefined" "LoadMavlink Y n c6 \<noteq> Undefined"
    "LoadOdometry Y n c7 \<noteq> Undefined" "LoadRangefinder Y n \<noteq> Undefined"
  unfolding LoadSitl_def LoadGazebo_def LoadFdm_def LoadMotors_def LoadMotorMap_def LoadLogging_def
    LoadMavlink_def LoadOdometry_def LoadRangefinder_def LoadSensorId_def
  by (intro no_ub assms)+

lemma LoadRangefinders_no_ub [no_ub]: "yaml_throws Y \<Longrightarrow> LoadRangefinders Y ns \<noteq> Undefined"
proof (induction ns)
  case Nil
  then show ?case by simp
next
  case (Cons n ns)
  then show ?case unfolding LoadRangefinders.simps by (intro no_ub)
qed

lemma ValidateMap_no_ub [no_ub]: "ValidateMap seen is \<noteq> Undefined"
  by (induction "is" arbitrary: seen) simp_all

lemma ValidateRangefinders_no_ub [no_ub]: "ValidateRangefinders N T E I ob rs \<noteq> Undefined"
  by (induction rs arbitrary: N T E I ob) (simp_all add: Let_def split: option.split)

lemma Validate_no_ub [no_ub]: "Validate inet_pton c \<noteq> Undefined"
  unfolding Validate_def by (intro no_ub)

lemma Load_no_ub: "yaml_throws Y \<Longrightarrow> Load Y inet_pton path \<noteq> Undefined"
  unfolding Load_def by (intro no_ub; assumption?)+

section \<open>Properties\<close>

text \<open>
  A concrete reader for the witnesses: documents as trees, with yaml-cpp's behaviour on them (a key
  that is absent gives an undefined node, indexing a scalar throws, a conversion of the wrong kind
  throws).  \<open>bridge_yaml\<close> is the repository's \<^verbatim>\<open>config/bridge.yaml\<close>.
\<close>

datatype ynode = YUndef | YStr string | YInt int | YNum rat | YBool bool | YSeq "ynode list"
  | YMap "(string \<times> ynode) list"

fun node_get :: "ynode \<Rightarrow> string \<Rightarrow> ynode outcome" where
  "node_get (YMap kvs) k = Ok (case map_of kvs k of None \<Rightarrow> YUndef | Some v \<Rightarrow> v)"
| "node_get YUndef k = Throw ''invalid node''"
| "node_get _ k = Throw ''operator[] call on a scalar''"

fun node_str :: "ynode \<Rightarrow> string outcome" where
  "node_str (YStr s) = Ok s"
| "node_str _ = Throw ''bad conversion''"

fun node_int :: "ynode \<Rightarrow> int outcome" where
  "node_int (YInt i) = Ok i"
| "node_int _ = Throw ''bad conversion''"

fun node_double :: "ynode \<Rightarrow> double outcome" where
  "node_double (YInt i) = Ok (lit (of_int i))"
| "node_double (YNum q) = Ok (lit q)"
| "node_double _ = Throw ''bad conversion''"

fun node_bool :: "ynode \<Rightarrow> bool outcome" where
  "node_bool (YBool b) = Ok b"
| "node_bool _ = Throw ''bad conversion''"

fun node_items :: "ynode \<Rightarrow> ynode list" where
  "node_items (YSeq ns) = ns"
| "node_items _ = []"

fun node_is_seq :: "ynode \<Rightarrow> bool" where
  "node_is_seq (YSeq ns) = True"
| "node_is_seq _ = False"

definition tree_yaml :: "ynode \<Rightarrow> ynode yaml" where
  "tree_yaml doc = \<lparr>y_load = (\<lambda>_. Ok doc), y_get = node_get, y_defined = (\<lambda>n. n \<noteq> YUndef),
     y_is_seq = node_is_seq, y_items = node_items, y_string = node_str, y_int = node_int,
     y_double = node_double, y_bool = node_bool\<rparr>"

definition loopback_only :: "string \<Rightarrow> u32 option" where
  "loopback_only s = (if s = ''127.0.0.1'' then Some 0x7F000001 else None)"

definition bridge_yaml :: ynode where
  "bridge_yaml = YMap [
     (''sitl'', YMap [(''address'', YStr ''127.0.0.1''), (''motor_port'', YInt 9002),
        (''fdm_port'', YInt 9003), (''rc_port'', YInt 9004)]),
     (''gazebo'', YMap [(''imu_topic'', YStr ''/imu''), (''altimeter_topic'', YStr ''/altimeter''),
        (''navsat_topic'', YStr ''/navsat''),
        (''actuator_topic'', YStr ''/X3/gazebo/command/motor_speed'')]),
     (''fdm'', YMap [(''rate_hz'', YInt 500), (''frame_mode'', YStr ''gazebo_bridge''),
        (''pressure_mode'', YStr ''from_altitude''), (''altitude_source'', YStr ''altimeter''),
        (''sea_level_pressure_pa'', YInt 101325)]),
     (''motors'', YMap [(''input'', YStr ''normalized_9002''),
        (''map'', YSeq [YInt 1, YInt 2, YInt 3, YInt 0]),
        (''min_rotor_velocity_rad_s'', YInt 0), (''max_rotor_velocity_rad_s'', YInt 1000),
        (''timeout_seconds'', YNum (1/10)), (''publish_zero_on_timeout'', YBool True)]),
     (''mavlink'', YMap [(''address'', YStr ''127.0.0.1''), (''port'', YInt 14550),
        (''system_id'', YInt 1), (''component_id'', YInt 158)]),
     (''odometry'', YMap [(''enable'', YBool True), (''gazebo_topic'', YStr ''/model/X3/odometry'')]),
     (''rangefinders'', YSeq [
        YMap [(''name'', YStr ''down''), (''enable'', YBool True),
          (''gazebo_topic'', YStr ''/X3/down_range/scan''), (''output'', YStr ''tfmini''),
          (''sitl_address'', YStr ''127.0.0.1''), (''sitl_port'', YInt 5762)],
        YMap [(''name'', YStr ''front''), (''enable'', YBool True),
          (''gazebo_topic'', YStr ''/X3/front_range/scan''), (''output'', YStr ''mavlink''),
          (''mavlink_message'', YStr ''distance_sensor''), (''orientation'', YStr ''forward''),
          (''sensor_id'', YInt 0)]]),
     (''logging'', YMap [(''level'', YStr ''info''), (''status_period_seconds'', YInt 1),
        (''log_first_packets'', YBool True)])]"

definition bridge_config :: BridgeConfig where
  "bridge_config = default_config\<lparr>
     gazebo := default_gazebo\<lparr>gz_navsatTopic := Some ''/navsat''\<rparr>,
     motors := default_motors\<lparr>mot_map := Arr4 1 2 3 0, mot_maxRotorVelocityRadS := Fin 1000\<rparr>,
     odometry := \<lparr>odo_enabled = True, odo_gazeboTopic = ''/model/X3/odometry''\<rparr>,
     rangefinders :=
       [default_rangefinder\<lparr>rf_name := ''down'', rf_gazeboTopic := ''/X3/down_range/scan'',
          rf_output := ''tfmini'', rf_sitlAddress := ''127.0.0.1'', rf_sitlPort := 5762\<rparr>,
        default_rangefinder\<lparr>rf_name := ''front'', rf_gazeboTopic := ''/X3/front_range/scan'',
          rf_output := ''mavlink'', rf_mavlinkMessage := ''distance_sensor'',
          rf_orientation := ''forward'', rf_sensorId := Some 0\<rparr>]\<rparr>"

lemma lit_config [fp_eval]:
  "lit 0 = Fin 0" "lit 1 = Fin 1" "lit 500 = Fin 500" "lit 800 = Fin 800" "lit 1000 = Fin 1000"
  "lit 101325 = Fin 101325"
  by (simp_all add: lit_def fp_eval)

lemma lit_tenth [fp_eval]: "lit (1/10) = Fin (3602879701896397 / 36028797018963968)"
  using rnd_eval(1) [of 10 1 56 7205759403792794] by (simp add: lit_def)

lemma yaml_throws_tree: "yaml_throws (tree_yaml doc)"
proof -
  have "node_get n k \<noteq> Undefined" for n k by (cases n) simp_all
  moreover have "node_str n \<noteq> Undefined" "node_int n \<noteq> Undefined" "node_double n \<noteq> Undefined"
    "node_bool n \<noteq> Undefined" for n by (cases n; simp)+
  ultimately show ?thesis by (simp add: yaml_throws_def tree_yaml_def)
qed

lemma bridge_config_valid: "valid_config loopback_only bridge_config"
  unfolding valid_config_def
  by (simp add: bridge_config_def default_config_def default_gazebo_def default_fdm_def
      default_motors_def default_mavlink_def default_rangefinder_def loopback_only_def valid_map_def
      valid_rangefinders_def valid_rangefinder_def is_tfmini_def is_distance_sensor_def
      is_obstacle_def fp_eval zero_fp_def)

lemmas config_defaults = default_config_def default_sitl_def default_gazebo_def default_fdm_def
  default_motors_def default_mavlink_def default_rangefinder_def default_logging_def
  default_odometry_def

lemmas load_sections = LoadSitl_def LoadGazebo_def LoadFdm_def LoadMotors_def LoadMotorMap_def
  LoadLogging_def LoadMavlink_def LoadOdometry_def LoadRangefinder_def LoadSensorId_def
  ReadScalar_def ReadPort_def

lemma bridge_yaml_loads: "Load (tree_yaml bridge_yaml) loopback_only path = Ok bridge_config"
proof -
  have v: "Validate loopback_only bridge_config = Ok ()"
    by (simp add: Validate_iff bridge_config_valid)
  show ?thesis
    unfolding Load_def Let_def
    by (simp add: tree_yaml_def bridge_yaml_def, simp add: load_sections Let_def fp_eval config_defaults)
      (use v in \<open>simp add: bridge_config_def config_defaults fp_eval one_fp_def zero_fp_def\<close>)
qed

lemma default_config_valid:
  "inet_pton ''127.0.0.1'' \<noteq> None \<Longrightarrow> valid_config inet_pton default_config"
  by (simp add: valid_config_def config_defaults valid_map_def valid_rangefinders_def fp_eval zero_fp_def)

text \<open>C10: \<^verbatim>\<open>ConfigLoader::Validate\<close>, with its loops over the motor map and the rangefinders and its sets
  of names, topics, endpoint strings and sensor identifiers, returns normally exactly on the
  configurations that satisfy the declarative specification (a permutation as motor map, unique
  names, topics, TCP endpoints and sensor identifiers, at most one obstacle-distance mapping, the
  allowed mode words, ranges that no comparison rejects) and throws on every other one.\<close>

theorem validate_exact:
  "case Validate inet_pton c of
     Ok _ \<Rightarrow> valid_config inet_pton c
   | Throw _ \<Rightarrow> \<not> valid_config inet_pton c
   | Undefined \<Rightarrow> False"
  using Validate_iff [of inet_pton c] Validate_no_ub [of inet_pton c]
  by (cases "Validate inet_pton c") auto

text \<open>C9: \<^verbatim>\<open>ConfigLoader::Load\<close> has no undefined behaviour as long as yaml-cpp reports its failures
  with exceptions, and a configuration it returns is valid, its UDP ports are non-zero and its
  MAVLink identifiers are in 1..255.\<close>

theorem load_sound:
  assumes "yaml_throws Y"
  shows "case Load Y inet_pton path of
      Ok c \<Rightarrow> valid_config inet_pton c \<and> sitl_motorPort (sitl c) \<noteq> 0 \<and> sitl_fdmPort (sitl c) \<noteq> 0 \<and>
        sitl_rcPort (sitl c) \<noteq> 0 \<and> mav_port (mavlink c) \<noteq> 0 \<and>
        mav_systemId (mavlink c) \<noteq> 0 \<and> mav_componentId (mavlink c) \<noteq> 0
    | Throw _ \<Rightarrow> True
    | Undefined \<Rightarrow> False"
proof (cases "Load Y inet_pton path")
  case (Ok c)
  from Load_parts [OF Ok] Load_eq_Ok [OF Ok] show ?thesis
    by (auto simp: Ok Validate_iff dest: LoadSitl_ports LoadMavlink_ids)
qed (use Load_no_ub [OF assms] in auto)

theorem load_sound_witness:
  "valid_config loopback_only bridge_config \<and> mav_componentId (mavlink bridge_config) \<noteq> 0"
  using load_sound [OF yaml_throws_tree [of bridge_yaml], of loopback_only "''bridge.yaml''"]
  by (simp add: bridge_yaml_loads)

text \<open>A document without any of the sections gives the member initialisers of \<^verbatim>\<open>Config.hh\<close>, and
  these pass validation.\<close>

lemma load_defaults:
  assumes "y_load Y path = Ok doc" "\<And>k. y_get Y doc k = Ok u" "\<not> y_defined Y u"
    and "inet_pton ''127.0.0.1'' \<noteq> None"
  shows "Load Y inet_pton path = Ok default_config"
proof -
  have "Validate inet_pton default_config = Ok ()" using default_config_valid [of inet_pton] assms(4) by (simp add: Validate_iff)
  with assms(1,2,3) show ?thesis
    by (simp add: Load_def Let_def load_sections config_defaults)
qed

text \<open>The range checks of \<^verbatim>\<open>Validate\<close> are written as rejections (\<^verbatim>\<open>x <= 0.0\<close> throws), so NaN, which
  YAML can express, passes every one of them: an accepted configuration stays accepted when its
  rate, pressure, timeout and velocity bounds are replaced by NaN.\<close>

lemma validate_accepts_nan:
  assumes "Validate inet_pton c = Ok ()"
  shows "Validate inet_pton (c\<lparr>fdm := (fdm c)\<lparr>fdm_rateHz := NaN, fdm_seaLevelPressurePa := NaN\<rparr>,
      motors := (motors c)\<lparr>mot_timeoutSeconds := NaN, mot_minRotorVelocityRadS := NaN,
        mot_maxRotorVelocityRadS := NaN\<rparr>\<rparr>) = Ok ()"
  using assms by (simp add: Validate_iff valid_config_def)

end
