(* ===== verification/MotorMapper.thy ===== *)
theory MotorMapper
  imports Config "HOL-Library.Multiset"
begin

text \<open>
  \<^verbatim>\<open>MotorMapper.hh\<close> and \<^verbatim>\<open>MotorMapper.cc\<close>: the path of a motor command from the order of SITL's
  packet to the logical Betaflight order, through \<^verbatim>\<open>motors.map\<close> to the Gazebo actuators, and the
  conversion of a normalised command to a rotor velocity in \<^verbatim>\<open>double\<close> arithmetic.
\<close>

section \<open>The operations\<close>

fun SitlPacketToBetaflightMotorOrder :: "'a arr4 \<Rightarrow> 'a arr4" where
  "SitlPacketToBetaflightMotorOrder (Arr4 p0 p1 p2 p3) = Arr4 p3 p0 p1 p2"

text \<open>\<^verbatim>\<open>MotorMapper::Apply\<close>; the map entry indexes without a check, so an entry outside 0..3 is
  undefined.\<close>

definition Apply :: "int arr4 \<Rightarrow> 'a arr4 \<Rightarrow> 'a arr4 outcome" where
  "Apply m betaflightMotors = arr4_mapM (\<lambda>i. defined (arr4_at betaflightMotors i)) m"

record MotorVelocityConverter =
  minVelocityRadS :: double
  maxVelocityRadS :: double

definition new_converter :: "double \<Rightarrow> double \<Rightarrow> MotorVelocityConverter outcome" where
  "new_converter lo hi =
     throw_if (lo < 0 \<or> hi \<le> lo) ''Invalid motor velocity conversion range''
       (Ok \<lparr>minVelocityRadS = lo, maxVelocityRadS = hi\<rparr>)"

definition Convert :: "MotorVelocityConverter \<Rightarrow> double \<Rightarrow> double outcome" where
  "Convert cv normalizedCommand =
     throw_if (\<not> isfinite normalizedCommand) ''Motor command is not finite''
       (let clamped = std_clamp normalizedCommand 0 1 in
        Ok (minVelocityRadS cv + clamped * (maxVelocityRadS cv - minVelocityRadS cv)))"

section \<open>Stages that only rearrange\<close>

text \<open>What the bridge relies on in both reordering steps: under the stage's condition nothing is lost,
  duplicated or changed, so a fact about all four commands carries over.\<close>

locale motor_stage =
  fixes ok :: "'m \<Rightarrow> bool" and run :: "'m \<Rightarrow> 'a arr4 \<Rightarrow> 'a arr4 outcome"
  assumes rearranges: "ok m \<Longrightarrow> \<exists>w. run m v = Ok w \<and> mset (arr4_list w) = mset (arr4_list v)"
begin

lemma run_defined: "ok m \<Longrightarrow> \<exists>w. run m v = Ok w"
  using rearranges by blast

lemma run_mset: "ok m \<Longrightarrow> run m v = Ok w \<Longrightarrow> mset (arr4_list w) = mset (arr4_list v)"
  using rearranges [of m v] by auto

lemma run_all: "ok m \<Longrightarrow> run m v = Ok w \<Longrightarrow> arr4_all P w \<longleftrightarrow> arr4_all P v"
  using run_mset [of m v w] unfolding arr4_all_iff by (metis set_mset_mset)

end

lemma Apply_simps:
  "Apply (Arr4 i j k l) v =
     obind (defined (arr4_at v i)) (\<lambda>a. obind (defined (arr4_at v j)) (\<lambda>b.
     obind (defined (arr4_at v k)) (\<lambda>c. obind (defined (arr4_at v l)) (\<lambda>d. Ok (Arr4 a b c d)))))"
  by (simp add: Apply_def)

lemma Apply_in_range:
  assumes "set (arr4_list m) \<subseteq> {0..3}"
  shows "Apply m v = Ok (map_arr4 (\<lambda>i. arr4_list v ! nat i) m)"
  unfolding Apply_def
  by (rule arr4_mapM_Ok) (use assms in \<open>auto simp: arr4_at_def\<close>)

lemma arr4_list_map [simp]: "arr4_list (map_arr4 f v) = map f (arr4_list v)"
  by (cases v) simp

lemma Apply_mset:
  assumes "valid_map m"
  shows "mset (map (\<lambda>i. arr4_list v ! nat i) (arr4_list m)) = mset (arr4_list v)"
proof -
  have "mset (arr4_list m) = mset [0, 1, 2, 3]"
    using assms valid_map_perm [OF assms] by (intro set_eq_iff_mset_eq_distinct [THEN iffD1])
      (auto simp: valid_map_def)
  then have "image_mset (\<lambda>i. arr4_list v ! nat i) (mset (arr4_list m)) =
      image_mset (\<lambda>i. arr4_list v ! nat i) (mset [0, 1, 2, 3])" by simp
  then show ?thesis by (cases v) (simp add: numeral_2_eq_2 numeral_3_eq_3)
qed

interpretation sitl_order: motor_stage "\<lambda>_::unit. True" "\<lambda>_ v. Ok (SitlPacketToBetaflightMotorOrder v)"
proof
  show "\<exists>w. Ok (SitlPacketToBetaflightMotorOrder v) = Ok w \<and> mset (arr4_list w) = mset (arr4_list v)"
    for v :: "'a arr4"
    by (cases v) simp
qed

interpretation gazebo_map: motor_stage valid_map Apply
proof
  fix m and v :: "'a arr4"
  assume "valid_map m"
  then show "\<exists>w. Apply m v = Ok w \<and> mset (arr4_list w) = mset (arr4_list v)"
    using Apply_mset [of m v] by (simp add: Apply_in_range valid_map_def)
qed

section \<open>The velocity conversion\<close>

text \<open>The bounds a converter has when its constructor accepted finite \<^verbatim>\<open>double\<close>s.\<close>

definition proper_range :: "double \<Rightarrow> double \<Rightarrow> bool" where
  "proper_range lo hi \<longleftrightarrow> isfinite lo \<and> isfinite hi \<and> representable b64 lo \<and> representable b64 hi \<and>
     0 \<le> val lo \<and> val lo < val hi"

lemma clamp_finite:
  assumes "isfinite c"
  shows "isfinite (std_clamp c 0 1)" and "val (std_clamp c 0 1) = max 0 (min 1 (val c))"
  using clamp_val [OF assms, of 0 1] by (simp_all add: zero_fp_def one_fp_def)

lemma range_width:
  assumes "proper_range lo hi"
  shows "isfinite (hi - lo)" and "representable b64 (hi - lo)" and "0 \<le> val (hi - lo)"
    and "hi - lo = rnd b64 (val hi - val lo)"
proof -
  have f: "isfinite lo" "isfinite hi" and r: "representable b64 hi" and b: "0 \<le> val lo" "val lo < val hi"
    using assms by (auto simp: proper_range_def)
  show d: "hi - lo = rnd b64 (val hi - val lo)"
    using f b by (cases hi; cases lo) (auto simp: minus_fp_def)
  have le: "hi - lo \<le> hi"
    unfolding d rnd_def using f(2) r b by (intro rnd_signed_le_exact) simp_all
  have ge: "Fin 0 \<le> hi - lo"
    unfolding d rnd_def using b by (intro rnd_signed_ge_exact) simp_all
  show fin: "isfinite (hi - lo)"
    by (rule finite_between [OF _ f(2) ge le]) simp
  from ge show "0 \<le> val (hi - lo)" by (simp add: le_fp_finite fin)
  show "representable b64 (hi - lo)" by (simp only: d representable_rnd)
qed

definition velocity :: "double \<Rightarrow> double \<Rightarrow> double \<Rightarrow> double" where
  "velocity lo hi c = lo + std_clamp c 0 1 * (hi - lo)"

lemma Convert_finite:
  "isfinite c \<Longrightarrow> Convert \<lparr>minVelocityRadS = lo, maxVelocityRadS = hi\<rparr> c = Ok (velocity lo hi c)"
  by (simp add: Convert_def velocity_def Let_def)

lemma velocity_mono:
  assumes "proper_range lo hi" "isfinite c" "isfinite c'" "val c \<le> val c'"
  shows "velocity lo hi c \<le> velocity lo hi c'"
proof -
  have "val (std_clamp c 0 1) \<le> val (std_clamp c' 0 1)"
    using assms(2-4) by (simp add: clamp_finite)
  then have "val (std_clamp c 0 1) * val (hi - lo) \<le> val (std_clamp c' 0 1) * val (hi - lo)"
    using range_width(3) [OF assms(1)] by (rule mult_right_mono)
  then have "std_clamp c 0 1 * (hi - lo) \<le> std_clamp c' 0 1 * (hi - lo)"
    using assms(2,3) range_width(1) [OF assms(1)]
    by (simp add: fp_mul_finite clamp_finite rnd_signed_le_mono)
  then show ?thesis
    unfolding velocity_def using assms(1) by (intro fp_add_le_mono) (simp_all add: proper_range_def)
qed

lemma velocity_ends:
  assumes "proper_range lo hi" "isfinite c"
  shows "val c \<le> 0 \<Longrightarrow> velocity lo hi c \<le> lo \<and> lo \<le> velocity lo hi c"
    and "1 \<le> val c \<Longrightarrow> velocity lo hi c = lo + (hi - lo)"
proof -
  have lo: "isfinite lo" "representable b64 lo" using assms(1) by (auto simp: proper_range_def)
  have zero: "lo + z \<le> lo \<and> lo \<le> lo + z" if "isfinite z" "val z = 0" for z
  proof -
    have "rnd b64 (val lo) \<le> lo \<and> lo \<le> rnd b64 (val lo)"
      using lo by (simp add: rnd_def rnd_signed_le_exact rnd_signed_ge_exact)
    then show ?thesis
      using lo that by (auto simp: plus_fp_def fp_add_finite le_fp_refl)
  qed
  show "val c \<le> 0 \<Longrightarrow> velocity lo hi c \<le> lo \<and> lo \<le> velocity lo hi c"
  proof -
    assume "val c \<le> 0"
    then have "val (std_clamp c 0 1) = 0" using assms(2) by (simp add: clamp_finite)
    then have "std_clamp c 0 1 * (hi - lo) = rnd_signed b64 (signbit (std_clamp c 0 1) \<noteq> signbit (hi - lo)) 0"
      using assms(2) range_width(1) [OF assms(1)] by (simp add: fp_mul_finite clamp_finite)
    then have "isfinite (std_clamp c 0 1 * (hi - lo))" "val (std_clamp c 0 1 * (hi - lo)) = 0"
      by (simp_all add: rnd_signed_def Let_def)
    then show ?thesis unfolding velocity_def by (rule zero)
  qed
  show "1 \<le> val c \<Longrightarrow> velocity lo hi c = lo + (hi - lo)"
  proof -
    assume "1 \<le> val c"
    then have c1: "std_clamp c 0 1 = 1 \<or> std_clamp c 0 1 = Fin 1"
      using assms(2) by (cases c) (auto simp: std_clamp_def zero_fp_def one_fp_def)
    have "Fin 1 * (hi - lo) = hi - lo" if "val (hi - lo) \<noteq> 0"
    proof (cases "hi - lo")
      case (Fin q)
      with range_width(2,3) [OF assms(1)] show ?thesis
        by (simp add: fp_mul_finite rnd_signed_def Let_def d.rd_fix)
    qed (use that range_width(1) [OF assms(1)] in simp_all)
    moreover have "Fin 1 * (hi - lo) = hi - lo" if "val (hi - lo) = 0"
      using that range_width(1) [OF assms(1)]
      by (cases "hi - lo") (simp_all add: fp_mul_finite rnd_signed_def Let_def)
    ultimately have "Fin 1 * (hi - lo) = hi - lo" by blast
    then show ?thesis using c1 by (auto simp: velocity_def one_fp_def)
  qed
qed

lemma velocity_bounds:
  assumes "proper_range lo hi" "isfinite c"
  shows "lo \<le> velocity lo hi c" and "velocity lo hi c \<le> lo + (hi - lo)"
proof -
  have v: "velocity lo hi (std_clamp c 0 1) = velocity lo hi c"
    using assms(2) by (cases c) (auto simp: velocity_def std_clamp_def zero_fp_def one_fp_def)
  have m: "0 \<le> val (std_clamp c 0 1)" "val (std_clamp c 0 1) \<le> 1" "isfinite (std_clamp c 0 1)"
    using assms(2) by (simp_all add: clamp_finite)
  have "velocity lo hi (Fin 0) \<le> velocity lo hi c" "velocity lo hi c \<le> velocity lo hi (Fin 1)"
    using velocity_mono [OF assms(1) _ m(3), of "Fin 0"] velocity_mono [OF assms(1) m(3), of "Fin 1"] m v
    by simp_all
  moreover have "lo \<le> velocity lo hi (Fin 0)" "velocity lo hi (Fin 1) = lo + (hi - lo)"
    using velocity_ends [OF assms(1), of "Fin 0"] velocity_ends [OF assms(1), of "Fin 1"] by simp_all
  ultimately show "lo \<le> velocity lo hi c" "velocity lo hi c \<le> lo + (hi - lo)"
    by (auto intro: le_fp_trans)
qed

lemma width_from_zero:
  assumes "proper_range lo hi" "val lo = 0"
  shows "lo + (hi - lo) = hi"
proof -
  have h: "isfinite hi" "representable b64 hi" "0 < val hi" and l: "isfinite lo"
    using assms by (auto simp: proper_range_def)
  then obtain q where q: "hi = Fin q" "0 < q" by (cases hi) simp_all
  then have "rnd b64 q = Fin q" using h(2) by (simp add: rnd_exact)
  with range_width(4) [OF assms(1)] have "hi - lo = hi" by (simp add: q assms(2))
  with \<open>rnd b64 q = Fin q\<close> l assms(2) q show ?thesis
    by (simp add: plus_fp_def fp_add_finite)
qed

text \<open>Both roundings of the full-throttle velocity err by at most one part in \<open>2 ^ 53\<close>: it exceeds the
  configured maximum by at most one part in \<open>2 ^ 51\<close>.\<close>

lemma grid_multiple: "on_grid b64 q \<Longrightarrow> \<exists>n. q = of_int n * 2 powi qmin b64"
proof -
  assume "on_grid b64 q"
  then obtain m e where q: "q = of_int m * 2 powi e" and e: "qmin b64 \<le> e" by (auto simp: on_grid_def)
  have "(2::rat) powi e = 2 powi (int (nat (e - qmin b64)) + qmin b64)" using e by simp
  also have "\<dots> = 2 ^ nat (e - qmin b64) * 2 powi qmin b64" by (subst power_int_add) (simp_all add: power_int_def)
  finally have "q = of_int (m * 2 ^ nat (e - qmin b64)) * 2 powi qmin b64" by (simp add: q)
  then show ?thesis by blast
qed

lemma round_relative:
  assumes "q = of_int n * 2 powi qmin b64" "0 \<le> q"
  shows "round_rat b64 q \<le> q * (1 + 1 / 2 ^ 53)"
proof (cases "q = 0")
  case False
  with assms(2) have pos: "0 < q" by simp
  let ?e = "ulp_exp b64 q"
  show ?thesis
  proof (cases "?e = qmin b64")
    case True
    then have "round_rat b64 q = q" using False by (simp add: round_rat_def assms(1))
    with pos show ?thesis by simp
  next
    case e: False
    then have E: "?e = ilog2 q - 52" by (simp add: ulp_exp_def max_def split: if_splits)
    have "of_int (rhe (q / 2 powi ?e)) \<le> q / 2 powi ?e + 1/2" using rhe_half [of "q / 2 powi ?e"] by linarith
    then have "round_rat b64 q \<le> (q / 2 powi ?e + 1/2) * 2 powi ?e"
      using False by (simp add: round_rat_def mult_right_mono)
    also have "\<dots> = q + 2 powi ilog2 q / 2 ^ 53" by (simp add: E distrib_right power_int_diff)
    also have "\<dots> \<le> q + q / 2 ^ 53"
      using ilog2_bounds(1) [OF False] pos by (simp add: divide_right_mono)
    finally show ?thesis by (simp add: distrib_left)
  qed
qed simp

lemma rnd_at_most:
  assumes "round_rat b64 q \<le> b" "b < 2 powi 1024" "0 \<le> q"
  shows "rnd b64 q \<le> Fin b"
proof -
  have "0 \<le> round_rat b64 q" using round_sign(1) [of q] assms(3) by force
  then show ?thesis
    using assms by (auto simp: rnd_def rnd_signed_def Let_def less_eq_fp_def fp_le_def fp_eq_def)
qed

lemma full_throttle_near:
  assumes "proper_range lo hi" "val hi < 2 ^ 1023"
  shows "lo + (hi - lo) \<le> Fin (val hi * (1 + 1 / 2 ^ 51))"
proof -
  have b: "isfinite lo" "isfinite hi" "0 \<le> val lo" "val lo < val hi" "on_grid b64 (val lo)" "on_grid b64 (val hi)"
    using assms(1) by (cases lo; cases hi; auto simp: proper_range_def)+
  obtain k l where k: "val lo = of_int k * 2 powi qmin b64" and l: "val hi = of_int l * 2 powi qmin b64"
    using b(5,6) grid_multiple by blast
  let ?w = "val (hi - lo)"
  note w = range_width [OF assms(1)]
  have W: "?w = round_rat b64 (val hi - val lo)"
    using w(1) by (auto simp: w(4) rnd_def rnd_signed_def Let_def split: if_splits)
  have "?w \<le> (val hi - val lo) * (1 + 1 / 2 ^ 53)"
    unfolding W using b(4) by (intro round_relative [of _ "l - k"]) (simp_all add: k l left_diff_distrib)
  also have "\<dots> \<le> val hi - val lo + val hi / 2 ^ 53" using b(3) by (simp add: field_simps)
  finally have s: "val lo + ?w \<le> val hi * (1 + 1 / 2 ^ 53)" by (simp add: distrib_left)
  obtain m where m: "?w = of_int m * 2 powi qmin b64"
    using grid_multiple [of ?w] w(1,2) by (cases "hi - lo") auto
  have "round_rat b64 (val lo + ?w) \<le> (val lo + ?w) * (1 + 1 / 2 ^ 53)"
    using b(3) w(3) by (intro round_relative [of _ "k + m"]) (simp_all add: k m distrib_right)
  also have "\<dots> \<le> val hi * (1 + 1 / 2 ^ 53) * (1 + 1 / 2 ^ 53)" using s by (intro mult_right_mono) simp_all
  also have "\<dots> \<le> val hi * (1 + 1 / 2 ^ 51)" using b(3,4) by simp
  finally have r: "round_rat b64 (val lo + ?w) \<le> val hi * (1 + 1 / 2 ^ 51)" .
  have "val hi * (1 + 1 / 2 ^ 51) < 2 ^ 1023 * 2" using assms(2) b(3,4) by (intro mult_strict_mono) simp_all
  then have o: "val hi * (1 + 1 / 2 ^ 51) < 2 powi 1024" by simp
  show ?thesis
    using rnd_at_most [OF r o] b w(1,3) by (auto simp: plus_fp_def fp_add_finite less_eq_fp_def fp_le_def fp_eq_def)
qed

lemma new_converter_proper:
  "proper_range lo hi \<Longrightarrow> new_converter lo hi = Ok \<lparr>minVelocityRadS = lo, maxVelocityRadS = hi\<rparr>"
  by (auto simp: new_converter_def proper_range_def less_fp_finite le_fp_finite zero_fp_def)

lemma Convert_Throw: "\<not> isfinite c \<Longrightarrow> Convert cv c = Throw ''Motor command is not finite''"
  by (simp add: Convert_def)

lemma Convert_no_ub [no_ub]: "Convert cv c \<noteq> Undefined"
  by (simp add: Convert_def Let_def no_ub)

lemma proper_range_nonneg: "proper_range lo hi \<Longrightarrow> 0 \<le> lo \<and> lo < hi"
  by (simp add: proper_range_def le_fp_finite less_fp_finite zero_fp_def)

section \<open>Properties\<close>

text \<open>C6: with a map that \<^verbatim>\<open>Config::Validate\<close> accepts, \<^verbatim>\<open>MotorMapper::Apply\<close> is defined, gives actuator
  \<open>i\<close> the command of the Betaflight motor \<open>map[i]\<close>, and loses or duplicates no command.\<close>

theorem map_delivers:
  assumes "valid_map m"
  shows "\<exists>w. Apply m v = Ok w \<and> mset (arr4_list w) = mset (arr4_list v) \<and>
    map Some (arr4_list w) = map (arr4_at v) (arr4_list m)"
proof -
  have r: "set (arr4_list m) \<subseteq> {0..3}" using assms by (simp add: valid_map_def)
  let ?w = "map_arr4 (\<lambda>i. arr4_list v ! nat i) m"
  have w: "Apply m v = Ok ?w" by (rule Apply_in_range [OF r])
  moreover have "mset (arr4_list ?w) = mset (arr4_list v)" by (rule gazebo_map.run_mset [OF assms w])
  moreover have "map Some (arr4_list ?w) = map (arr4_at v) (arr4_list m)"
    using r by (auto simp: arr4_at_def)
  ultimately show ?thesis by blast
qed

theorem map_delivers_witness:
  "\<exists>w. Apply (Arr4 1 2 3 0) (Arr4 (10::nat) 20 30 40) = Ok w \<and>
     mset (arr4_list w) = mset (arr4_list (Arr4 10 20 30 40)) \<and>
     map Some (arr4_list w) = map (arr4_at (Arr4 10 20 30 40)) (arr4_list (Arr4 1 2 3 0))"
  by (rule map_delivers) (auto simp: valid_map_def)

text \<open>The index check of \<^verbatim>\<open>Config::Validate\<close> is exactly what \<^verbatim>\<open>MotorMapper::Apply\<close> needs: it reads
  outside the array if and only if an entry of the map is outside 0..3, and never throws.\<close>

lemma map_undefined_iff:
  "(Apply m v = Undefined \<longleftrightarrow> \<not> set (arr4_list m) \<subseteq> {0..3}) \<and> (\<forall>e. Apply m v \<noteq> Throw e)"
proof (cases "set (arr4_list m) \<subseteq> {0..3}")
  case True
  then show ?thesis by (simp add: Apply_in_range)
next
  case False
  then have "Apply m v = Undefined"
    by (cases m) (auto simp: Apply_simps defined_def split: option.split dest: arr4_at_range)
  with False show ?thesis by simp
qed

text \<open>SITL's packet order followed by the motor map gives every Gazebo actuator the packet entry of
  its own index for the shipped map \<^verbatim>\<open>[1, 2, 3, 0]\<close>, and for no other map.\<close>

lemma shipped_map_undoes_sitl_order:
  "(\<forall>v::nat arr4. Apply m (SitlPacketToBetaflightMotorOrder v) = Ok v) \<longleftrightarrow> m = Arr4 1 2 3 0"
proof
  assume all: "\<forall>v::nat arr4. Apply m (SitlPacketToBetaflightMotorOrder v) = Ok v"
  obtain i j k l where m: "m = Arr4 i j k l" by (cases m)
  from all have "Apply m (SitlPacketToBetaflightMotorOrder (Arr4 10 20 30 40)) = Ok (Arr4 (10::nat) 20 30 40)"
    by blast
  then show "m = Arr4 1 2 3 0"
    by (auto simp: m Apply_simps obind_eq_Ok arr4_at_eq_Some)
next
  assume m: "m = Arr4 1 2 3 0"
  show "\<forall>v::nat arr4. Apply m (SitlPacketToBetaflightMotorOrder v) = Ok v"
  proof
    fix v :: "nat arr4"
    show "Apply m (SitlPacketToBetaflightMotorOrder v) = Ok v"
      by (cases v) (simp add: m Apply_simps)
  qed
qed

text \<open>C15: with finite bounds \<open>0 \<le> lo < hi\<close> the constructor accepts the converter and
  \<^verbatim>\<open>MotorVelocityConverter::Convert\<close> is a total, monotone function on finite commands whose result
  lies between \<open>lo\<close> and the rounded sum \<open>lo + (hi - lo)\<close>, is \<open>lo\<close> (up to the sign of a zero) for commands
  \<open>\<le> 0\<close> and the upper end for commands \<open>\<ge> 1\<close>; every other command throws.\<close>

theorem convert_contract:
  assumes "proper_range lo hi"
  shows "\<exists>cv. new_converter lo hi = Ok cv \<and>
    (\<forall>c. isfinite c \<longrightarrow> (\<exists>y. Convert cv c = Ok y \<and> lo \<le> y \<and> y \<le> lo + (hi - lo) \<and>
        (val c \<le> 0 \<longrightarrow> y \<le> lo) \<and> (1 \<le> val c \<longrightarrow> y = lo + (hi - lo)) \<and>
        (\<forall>c' y'. val c \<le> val c' \<longrightarrow> Convert cv c' = Ok y' \<longrightarrow> y \<le> y'))) \<and>
    (\<forall>c. \<not> isfinite c \<longrightarrow> Convert cv c = Throw ''Motor command is not finite'')"
proof (intro exI conjI)
  let ?cv = "\<lparr>minVelocityRadS = lo, maxVelocityRadS = hi\<rparr>"
  show "new_converter lo hi = Ok ?cv" by (rule new_converter_proper [OF assms])
  show "\<forall>c. isfinite c \<longrightarrow> (\<exists>y. Convert ?cv c = Ok y \<and> lo \<le> y \<and> y \<le> lo + (hi - lo) \<and>
        (val c \<le> 0 \<longrightarrow> y \<le> lo) \<and> (1 \<le> val c \<longrightarrow> y = lo + (hi - lo)) \<and>
        (\<forall>c' y'. val c \<le> val c' \<longrightarrow> Convert ?cv c' = Ok y' \<longrightarrow> y \<le> y'))"
  proof (intro allI impI)
    fix c assume c: "isfinite c"
    have "velocity lo hi c \<le> y'" if "val c \<le> val c'" "Convert ?cv c' = Ok y'" for c' y'
    proof -
      from that(2) have c': "isfinite c'" by (simp add: Convert_def)
      then show ?thesis using velocity_mono [OF assms c c' that(1)] that(2) by (simp add: Convert_finite)
    qed
    then show "\<exists>y. Convert ?cv c = Ok y \<and> lo \<le> y \<and> y \<le> lo + (hi - lo) \<and>
        (val c \<le> 0 \<longrightarrow> y \<le> lo) \<and> (1 \<le> val c \<longrightarrow> y = lo + (hi - lo)) \<and>
        (\<forall>c' y'. val c \<le> val c' \<longrightarrow> Convert ?cv c' = Ok y' \<longrightarrow> y \<le> y')"
      using c velocity_bounds [OF assms c] velocity_ends [OF assms c] by (simp add: Convert_finite)
  qed
  show "\<forall>c. \<not> isfinite c \<longrightarrow> Convert ?cv c = Throw ''Motor command is not finite''"
    by (simp add: Convert_Throw)
qed

lemma proper_0_100: "proper_range (Fin 0) (Fin 100)"
  by (simp add: proper_range_def on_grid_eval)

theorem convert_contract_witness:
  "\<exists>cv. new_converter (Fin 0) (Fin 100) = Ok cv \<and> (\<exists>y. Convert cv (Fin (1/2)) = Ok y \<and> Fin 0 \<le> y \<and> y \<le> Fin 0 + (Fin 100 - Fin 0))"
  using convert_contract [OF proper_0_100] by (metis isfinite.simps(1))

text \<open>With the shipped lower bound 0 the velocity never leaves the configured range and full
  throttle gives exactly \<^verbatim>\<open>max_rotor_velocity\<close>.\<close>

lemma convert_full_scale:
  assumes "proper_range lo hi" "val lo = 0" "isfinite c"
  shows "\<exists>y. obind (new_converter lo hi) (\<lambda>cv. Convert cv c) = Ok y \<and> lo \<le> y \<and> y \<le> hi \<and>
    (1 \<le> val c \<longrightarrow> y = hi)"
  using velocity_bounds [OF assms(1,3)] velocity_ends(2) [OF assms(1,3)] width_from_zero [OF assms(1,2)]
  by (simp add: new_converter_proper assms Convert_finite)

text \<open>In the binade of \<open>2 ^ 52\<close> the grid is that of the integers, so a half is a tie.\<close>

lemma rnd_integer_binade:
  assumes "4503599627370496 \<le> q" "q < 9007199254740991"
  shows "rnd b64 q = Fin (of_int (rhe q))" and "rnd_signed b64 s q = Fin (of_int (rhe q))"
proof -
  have "ilog2 q = 52" using assms by (intro ilog2_unique) simp_all
  then have r: "round_rat b64 q = of_int (rhe q)" using assms by (simp add: round_rat_def ulp_exp_def)
  have "\<bar>of_int (rhe q) - q\<bar> \<le> 1/2" by (rule rhe_half)
  then have "0 < rat_of_int (rhe q)" "rat_of_int (rhe q) < 9007199254740992" using assms by linarith+
  then show "rnd b64 q = Fin (of_int (rhe q))" "rnd_signed b64 s q = Fin (of_int (rhe q))"
    by (simp_all add: rnd_def rnd_signed_def Let_def r)
qed

lemma rhe_tie: "even n \<Longrightarrow> rhe (of_int n - 1/2) = n" "even n \<Longrightarrow> rhe (of_int n + 1/2) = n"
proof -
  have "\<lfloor>of_int n - 1/2 :: rat\<rfloor> = n - 1" "\<lfloor>of_int n + 1/2 :: rat\<rfloor> = n" by (simp_all add: floor_eq_iff)
  then show "even n \<Longrightarrow> rhe (of_int n - 1/2) = n" "even n \<Longrightarrow> rhe (of_int n + 1/2) = n"
    by (simp_all add: rhe_def Let_def)
qed

text \<open>With a lower bound above 0 the two roundings of \<open>lo + (hi - lo)\<close> can add up: there is a
  configuration that passes the constructor and whose full throttle exceeds \<^verbatim>\<open>max_rotor_velocity\<close>.\<close>

lemma convert_can_exceed_maximum:
  "proper_range (Fin (3/2)) (Fin 4503599627370499) \<and>
   obind (new_converter (Fin (3/2)) (Fin 4503599627370499)) (\<lambda>cv. Convert cv (Fin 1)) = Ok (Fin 4503599627370500) \<and>
   Fin 4503599627370499 < Fin 4503599627370500"
proof (intro conjI)
  show p: "proper_range (Fin (3/2)) (Fin 4503599627370499)"
    by (simp add: proper_range_def on_grid_eval)
  show "obind (new_converter (Fin (3/2)) (Fin 4503599627370499)) (\<lambda>cv. Convert cv (Fin 1)) = Ok (Fin 4503599627370500)"
  proof -
    have "std_clamp (Fin 1) 0 1 = Fin 1" by (simp add: std_clamp_def zero_fp_def one_fp_def)
    moreover have "Fin 4503599627370499 - Fin (3/2) = Fin 4503599627370498"
      by (simp add: minus_fp_def rnd_integer_binade rhe_tie(1) [of 4503599627370498, simplified])
    moreover have "Fin 1 * Fin 4503599627370498 = Fin 4503599627370498"
      by (simp add: fp_mul_finite fp_eval)
    moreover have "Fin (3/2) + Fin 4503599627370498 = Fin 4503599627370500"
      by (simp add: plus_fp_def rnd_integer_binade rhe_tie(1) [of 4503599627370500, simplified])
    ultimately show ?thesis
      by (simp add: new_converter_proper [OF p] Convert_finite velocity_def)
  qed
qed simp

text \<open>The constructor lets NaN bounds through, and then every finite command converts to NaN.\<close>

lemma converter_accepts_nan:
  "isfinite c \<Longrightarrow> obind (new_converter NaN NaN) (\<lambda>cv. Convert cv c) = Ok NaN"
  by (simp add: new_converter_def le_fp_NaN Convert_finite velocity_def plus_fp_def)

end
