(* ===== verification/Ieee_Bits.thy ===== *)
theory Ieee_Bits
  imports Ieee
begin

text \<open>
  The interchange encoding of \<^verbatim>\<open>float\<close> and \<^verbatim>\<open>double\<close> and its little-endian byte image, which is
  what \<^verbatim>\<open>std::memcpy\<close> and \<^verbatim>\<open>sendto\<close> see of the packet structs on the x86-64 and AArch64 hosts the
  project targets.  \<open>fixed_codec\<close> is the contract of a fixed-width field; arrays of such fields
  round-trip because of it.
\<close>

section \<open>Bit patterns\<close>

text \<open>\<open>sig F\<close>: weight of the lowest exponent bit; \<open>eall F\<close>: the all-ones exponent field.\<close>

definition sig :: "fmt \<Rightarrow> nat" where
  "sig F = 2 ^ (prec F - 1)"

definition eall :: "fmt \<Rightarrow> nat" where
  "eall F = nat (emax F - qmin F - int (prec F) + 3)"

definition mag_bits :: "fmt \<Rightarrow> rat \<Rightarrow> nat" where
  "mag_bits F q = (if q = 0 then 0
     else nat (ulp_exp F q - qmin F) * sig F + nat \<lfloor>\<bar>q\<bar> / 2 powi ulp_exp F q\<rfloor>)"

fun fp_bits :: "fmt \<Rightarrow> fp \<Rightarrow> nat" where
  "fp_bits F NaN = eall F * sig F + sig F div 2"
| "fp_bits F PInf = eall F * sig F"
| "fp_bits F NInf = (eall F + 1) * sig F + eall F * sig F"
| "fp_bits F NZero = (eall F + 1) * sig F"
| "fp_bits F (Fin q) = (if q < 0 then (eall F + 1) * sig F else 0) + mag_bits F q"

definition of_bits :: "fmt \<Rightarrow> nat \<Rightarrow> fp" where
  "of_bits F n = (let s = odd (n div ((eall F + 1) * sig F));
       be = (n div sig F) mod (eall F + 1); m = n mod sig F;
       mag = (if be = 0 then of_nat m * 2 powi qmin F
              else of_nat (sig F + m) * 2 powi (qmin F + int be - 1)) in
     if be = eall F then (if m = 0 then fp_inf s else NaN)
     else if mag = 0 then fp_zero s
     else Fin (if s then - mag else mag))"

lemma sig_eall_simps [simp]:
  "sig b64 = 4503599627370496" "eall b64 = 2047"
  "sig b32 = 8388608" "eall b32 = 255"
  by (simp_all add: sig_def eall_def)

text \<open>A non-zero grid point is an integer multiple of its own ulp, with a full significand unless it
  is subnormal.\<close>

lemma grid_point:
  assumes "0 < prec F" "on_grid F q" "q \<noteq> 0"
  obtains m where "\<bar>q\<bar> = of_nat m * 2 powi ulp_exp F q" "0 < m" "m < 2 * sig F"
    and "m < sig F \<Longrightarrow> ulp_exp F q = qmin F"
proof -
  let ?e = "ulp_exp F q"
  have "round_rat F q = q"
    using round_rat_nearest [OF assms(1,2), of q] by simp
  then have "q = of_int (rhe (q / 2 powi ?e)) * 2 powi ?e"
    using assms(3) by (simp add: round_rat_def)
  then have "\<bar>q\<bar> = of_int \<bar>rhe (q / 2 powi ?e)\<bar> * 2 powi ?e"
    by (metis abs_mult of_int_abs abs_of_pos powi_pos)
  then obtain m where m: "\<bar>q\<bar> = of_nat m * 2 powi ?e"
    by (metis of_int_of_nat_eq abs_ge_zero nonneg_int_cases)
  have p: "2 * sig F = 2 ^ prec F" using assms(1) by (cases "prec F") (simp_all add: sig_def)
  have "of_nat m = \<bar>q / 2 powi ?e\<bar>" by (simp add: abs_divide m)
  then have "rat_of_nat m < of_nat (2 ^ prec F)"
    using scaled_bound [OF assms(3,1)] by simp
  then have "m < 2 * sig F" unfolding p by (simp only: of_nat_less_iff)
  moreover have "0 < m" using assms(3) m by (cases m) simp_all
  moreover have "?e = qmin F" if "m < sig F"
  proof (rule ccontr)
    assume "?e \<noteq> qmin F"
    then have e: "?e = ilog2 q - (int (prec F) - 1)" by (auto simp: ulp_exp_def max_def split: if_splits)
    have "ilog2 q = int (prec F - 1) + ?e" using e assms(1) by simp
    then have "2 powi ilog2 q = of_nat (sig F) * (2::rat) powi ?e"
      by (simp add: power_int_add sig_def)
    then have "of_nat (sig F) * 2 powi ?e \<le> of_nat m * (2::rat) powi ?e"
      using ilog2_bounds(1) [OF assms(3)] m by simp
    then have "sig F \<le> m" by (simp add: mult_le_cancel_right not_less [symmetric])
    with that show False by simp
  qed
  ultimately show ?thesis using that m by blast
qed

lemma of_bits_split:
  assumes "be \<le> eall F" "m < sig F"
  shows "of_bits F ((if s then (eall F + 1) * sig F else 0) + (be * sig F + m)) =
    (let mag = (if be = 0 then of_nat m * 2 powi qmin F
              else of_nat (sig F + m) * 2 powi (qmin F + int be - 1)) in
     if be = eall F then (if m = 0 then fp_inf s else NaN)
     else if mag = 0 then fp_zero s
     else Fin (if s then - mag else mag))"
proof -
  let ?w = "eall F + 1" and ?S = "sig F"
  let ?n = "(if s then ?w * ?S else 0) + (be * ?S + m)"
  let ?t = "(if s then 1 else 0) :: nat"
  have S: "0 < ?S" by (simp add: sig_def)
  have n: "?n = (?t * ?w + be) * ?S + m" by (simp add: algebra_simps)
  have a: "?n div ?S = ?t * ?w + be" and b: "?n mod ?S = m"
    using assms(2) S by (simp_all only: n) simp_all
  have "(?t * ?w + be) mod ?w = be mod ?w" by (rule mod_mult_self3)
  then have "(?t * ?w + be) mod ?w = be" using assms(1) by simp
  moreover have "?n div (?w * ?S) = ?t"
  proof -
    have "?n div (?w * ?S) = (?n div ?S) div ?w" by (metis div_mult2_eq mult.commute)
    also have "\<dots> = ?t + be div ?w" unfolding a by (simp only: add.commute [of _ be] div_mult_self1 [OF Suc_not_Zero [of "eall F"], unfolded Suc_eq_plus1])
    also have "\<dots> = ?t" using assms(1) by simp
    finally show ?thesis .
  qed
  ultimately show ?thesis by (simp only: of_bits_def a b Let_def) simp
qed

lemma of_bits_fp_bits_Fin:
  assumes "0 < prec F" "representable F (Fin q)" "q \<noteq> 0" "qmin F + int (prec F) \<le> emax F + 1"
  shows "of_bits F (fp_bits F (Fin q)) = Fin q"
proof -
  have g: "on_grid F q" and b: "\<bar>q\<bar> < 2 powi (emax F + 1)" using assms(2) by auto
  obtain m where q: "\<bar>q\<bar> = of_nat m * 2 powi ulp_exp F q" and m: "0 < m" "m < 2 * sig F"
    and sub: "m < sig F \<Longrightarrow> ulp_exp F q = qmin F"
    using grid_point [OF assms(1) g assms(3)] by metis
  let ?e = "ulp_exp F q"
  define k where "k = nat (?e - qmin F)"
  have e: "?e = qmin F + int k" by (simp add: k_def ulp_exp_def)
  have bits: "fp_bits F (Fin q) = (if q < 0 then (eall F + 1) * sig F else 0) + (k * sig F + m)"
    using assms(3) by (simp add: mag_bits_def k_def q)
  show ?thesis
  proof (cases "m < sig F")
    case True
    then have k: "k = 0" using sub by (simp add: k_def)
    have E: "eall F \<noteq> 0" using assms(4) by (simp add: eall_def)
    have "of_nat m * 2 powi qmin F = \<bar>q\<bar>" using q e k by simp
    with True m E of_bits_split [of 0 F m "q < 0"] k assms(3) show ?thesis
      unfolding bits by (simp add: Let_def)
  next
    case False
    have "of_nat (sig F) * 2 powi ?e \<le> \<bar>q\<bar>"
      unfolding q using False by (intro mult_right_mono) simp_all
    then have "(2::rat) powi (int (prec F - 1) + ?e) < 2 powi (emax F + 1)"
      using b by (simp add: sig_def power_int_add)
    then have "int (prec F - 1) + ?e < emax F + 1" by simp
    then have k: "k + 1 < eall F" using e assms(1) by (simp add: eall_def)
    have "k * sig F + m = (k + 1) * sig F + (m - sig F)" using False by simp
    moreover have "of_nat (sig F + (m - sig F)) * 2 powi (qmin F + int (k + 1) - 1) = \<bar>q\<bar>"
      using q e False by simp
    moreover have "m - sig F < sig F" using m by linarith
    ultimately show ?thesis
      using of_bits_split [of "k + 1" F "m - sig F" "q < 0"] k assms(3)
      unfolding bits by (simp only: Let_def) simp
  qed
qed

lemma of_bits_fp_bits:
  assumes "1 < prec F" "representable F x" "qmin F + int (prec F) \<le> emax F + 1"
  shows "of_bits F (fp_bits F x) = x"
proof -
  have S: "0 < sig F div 2" "sig F div 2 < sig F"
    using assms(1) by (simp_all add: sig_def div_greater_zero_iff self_le_power)
  have E: "0 < eall F" using assms(1,3) by (simp add: eall_def)
  show ?thesis
  proof (cases x)
    case (Fin q)
    show ?thesis
    proof (cases "q = 0")
      case True
      with Fin S E of_bits_split [of 0 F 0 False] show ?thesis
        by (simp add: mag_bits_def Let_def fp_zero_def)
    next
      case False
      with assms show ?thesis unfolding Fin by (intro of_bits_fp_bits_Fin) simp_all
    qed
  next
    case NaN
    with S E of_bits_split [of "eall F" F "sig F div 2" False] show ?thesis by (simp add: Let_def)
  next
    case PInf
    with S E of_bits_split [of "eall F" F 0 False] show ?thesis by (simp add: Let_def fp_inf_def)
  next
    case NInf
    with S E of_bits_split [of "eall F" F 0 True] show ?thesis by (simp add: Let_def fp_inf_def)
  next
    case NZero
    with S E of_bits_split [of 0 F 0 True] show ?thesis by (simp add: Let_def fp_zero_def)
  qed
qed


section \<open>Fixed-width fields\<close>

definition enc32 :: "float32 \<Rightarrow> u8 list" where
  "enc32 x = le_enc 4 (fp_bits b32 x)"

definition dec32 :: "u8 list \<Rightarrow> float32" where
  "dec32 bs = of_bits b32 (le_dec bs)"

definition enc64 :: "double \<Rightarrow> u8 list" where
  "enc64 x = le_enc 8 (fp_bits b64 x)"

definition dec64 :: "u8 list \<Rightarrow> double" where
  "dec64 bs = of_bits b64 (le_dec bs)"

text \<open>Consecutive fields of one type, without padding.\<close>

fun unpack :: "(u8 list \<Rightarrow> 'a) \<Rightarrow> nat \<Rightarrow> nat \<Rightarrow> u8 list \<Rightarrow> 'a list" where
  "unpack dec w 0 bs = []"
| "unpack dec w (Suc n) bs = dec (take w bs) # unpack dec w n (drop w bs)"

definition pack :: "('a \<Rightarrow> u8 list) \<Rightarrow> 'a list \<Rightarrow> u8 list" where
  "pack enc xs = concat (map enc xs)"

locale fixed_codec =
  fixes enc :: "'a \<Rightarrow> u8 list" and dec :: "u8 list \<Rightarrow> 'a" and width :: nat and ok :: "'a \<Rightarrow> bool"
  assumes length_enc: "length (enc x) = width"
    and dec_enc: "ok x \<Longrightarrow> dec (enc x) = x"
    and ok_dec: "ok (dec bs)"
begin

lemma length_pack: "length (pack enc xs) = length xs * width"
  by (induction xs) (simp_all add: pack_def length_enc)

lemma unpack_pack: "list_all ok xs \<Longrightarrow> unpack dec width (length xs) (pack enc xs) = xs"
  by (induction xs) (simp_all add: pack_def length_enc dec_enc)

lemma unpack_ok: "list_all ok (unpack dec width n bs)"
  by (induction n arbitrary: bs) (simp_all add: ok_dec)

lemma pack_inj: "list_all ok xs \<Longrightarrow> list_all ok ys \<Longrightarrow> length xs = length ys \<Longrightarrow>
    pack enc xs = pack enc ys \<Longrightarrow> xs = ys"
  by (metis unpack_pack)

end

lemma length_unpack [simp]: "length (unpack dec w n bs) = n"
  by (induction n arbitrary: bs) simp_all

lemma representable_of_bits:
  assumes "0 < prec F" "qmin F + int (prec F) \<le> emax F + 1"
  shows "representable F (of_bits F n)"
proof -
  let ?be = "(n div sig F) mod (eall F + 1)" and ?m = "n mod sig F"
  have S: "0 < sig F" "2 * sig F = 2 ^ prec F"
    using assms(1) by (cases "prec F"; simp add: sig_def)+
  have m: "?m < sig F" using S by simp
  have i: "\<bar>int k\<bar> < 2 ^ prec F" if "k < 2 * sig F" for k
    using that by (simp add: S(2))
  have G: "on_grid F (of_nat ?m * 2 powi qmin F)"
    using i [of ?m] m by (intro on_gridI [of _ "int ?m" "qmin F"]) simp_all
  have G': "on_grid F (of_nat (sig F + ?m) * 2 powi (qmin F + int ?be - 1))" if "?be \<noteq> 0"
    using i [of "sig F + ?m"] m that
    by (intro on_gridI [of _ "int (sig F + ?m)" "qmin F + int ?be - 1"]) auto
  have B: "of_nat k * 2 powi j < (2::rat) powi (emax F + 1)"
    if "k < 2 * sig F" "j + int (prec F) \<le> emax F + 1" for k j
  proof -
    have "rat_of_nat k < of_nat (2 ^ prec F)" using that(1) by (simp only: S(2) of_nat_less_iff)
    then have "of_nat k * 2 powi j < 2 ^ prec F * (2::rat) powi j" by simp
    also have "\<dots> = 2 powi (j + int (prec F))" by (simp add: power_int_add)
    also have "\<dots> \<le> 2 powi (emax F + 1)" by (rule powi_mono [OF that(2)])
    finally show ?thesis .
  qed
  have b: "of_nat ?m * 2 powi qmin F < (2::rat) powi (emax F + 1)"
    using m assms(2) by (intro B) simp_all
  have b': "of_nat (sig F + ?m) * 2 powi (qmin F + int ?be - 1) < (2::rat) powi (emax F + 1)"
    if "?be \<noteq> eall F"
  proof (rule B)
    have "?be < eall F" using that mod_less_divisor [of "eall F + 1" "n div sig F"] by linarith
    then show "qmin F + int ?be - 1 + int (prec F) \<le> emax F + 1"
      using assms(2) by (simp add: eall_def)
  qed (use m in simp)
  show ?thesis
    using G G' b b' by (auto simp: of_bits_def Let_def fp_inf_def fp_zero_def)
qed

lemma mag_bits_less:
  assumes "representable F (Fin q)" "0 < prec F" "qmin F + int (prec F) \<le> emax F + 1"
  shows "mag_bits F q < eall F * sig F"
proof (cases "q = 0")
  case True
  then show ?thesis using assms by (simp add: mag_bits_def sig_def eall_def)
next
  case False
  obtain m where q: "\<bar>q\<bar> = of_nat m * 2 powi ulp_exp F q" and m: "m < 2 * sig F"
    using grid_point [OF assms(2) _ False] assms(1) by (metis representable.simps(1))
  have "\<bar>q\<bar> < 2 powi (emax F + 1)" using assms(1) by simp
  with ilog2_bounds(1) [OF False] have "(2::rat) powi ilog2 q < 2 powi (emax F + 1)"
    by (rule le_less_trans)
  then have "ilog2 q < emax F + 1" by (simp only: powi_less_iff)
  then have "ulp_exp F q - qmin F \<le> int (eall F) - 2"
    using assms(3) by (simp add: ulp_exp_def eall_def)
  moreover have "2 \<le> eall F" using assms(2,3) by (simp add: eall_def)
  ultimately obtain k where k: "nat (ulp_exp F q - qmin F) = k" "k + 2 \<le> eall F" by auto
  have "mag_bits F q = k * sig F + m" using False k(1) by (simp add: mag_bits_def q)
  also have "\<dots> < (k + 2) * sig F" using m by simp
  also have "\<dots> \<le> eall F * sig F" using k(2) by (rule mult_right_mono) simp
  finally show ?thesis .
qed

lemma fp_bits_less:
  assumes "representable F x" "1 < prec F" "qmin F + int (prec F) \<le> emax F + 1"
  shows "fp_bits F x < 2 * ((eall F + 1) * sig F)"
proof -
  have S: "sig F div 2 < sig F" by (simp add: sig_def)
  then show ?thesis
  proof (cases x)
    case (Fin q)
    then show ?thesis using mag_bits_less [of F q] assms S by auto
  qed (use S in auto)
qed

interpretation float_field: fixed_codec enc32 dec32 4 "representable b32"
proof
  fix x show "length (enc32 x) = 4" by (simp add: enc32_def)
next
  fix x assume r: "representable b32 x"
  then have "fp_bits b32 x < 256 ^ 4" using fp_bits_less [of b32 x] by simp
  then show "dec32 (enc32 x) = x"
    using r by (simp add: enc32_def dec32_def le_dec_enc of_bits_fp_bits)
next
  fix bs show "representable b32 (dec32 bs)" by (simp add: dec32_def representable_of_bits)
qed

interpretation double_field: fixed_codec enc64 dec64 8 "representable b64"
proof
  fix x show "length (enc64 x) = 8" by (simp add: enc64_def)
next
  fix x assume r: "representable b64 x"
  then have "fp_bits b64 x < 256 ^ 8" using fp_bits_less [of b64 x] by simp
  then show "dec64 (enc64 x) = x"
    using r by (simp add: enc64_def dec64_def le_dec_enc of_bits_fp_bits)
next
  fix bs show "representable b64 (dec64 bs)" by (simp add: dec64_def representable_of_bits)
qed

text \<open>A \<^verbatim>\<open>float\<close> converts to \<^verbatim>\<open>double\<close> without change of value.\<close>

lemma float_is_double: "representable b32 x \<Longrightarrow> representable b64 x"
proof (cases x)
  case (Fin q)
  assume "representable b32 x"
  then obtain m e where q: "q = of_int m * 2 powi e" "\<bar>m\<bar> < 2 ^ 24" "-149 \<le> e" "\<bar>q\<bar> < 2 powi 128"
    by (auto simp: Fin on_grid_def)
  then have "on_grid b64 q" by (intro on_gridI [of q m e]) auto
  moreover have "\<bar>q\<bar> < 2 powi 1024" by (rule less_le_trans [OF q(4) powi_mono]) simp
  ultimately show ?thesis by (simp add: Fin)
qed simp_all

end
