(* ===== verification/Packets.thy ===== *)
theory Packets
  imports Ieee_Bits
begin

text \<open>
  \<^verbatim>\<open>include/betaflight_gazebo_bridge/Packets.hh\<close>: the UDP packets exchanged with Betaflight SITL.  The
  structs are standard layout without padding (the header's static assertions), so their bytes are
  the bytes of their members in order, little-endian as on the hosts SITL runs on; the bridge sends
  \<^verbatim>\<open>&packet\<close> and reads a packet with \<^verbatim>\<open>memcpy\<close>.
\<close>

record FdmPacket =
  timestamp :: double
  imuAngularVelocityRpy :: "double arr3"
  imuLinearAccelerationXyz :: "double arr3"
  imuOrientationQuat :: "double arr4"
  velocityXyz :: "double arr3"
  positionXyz :: "double arr3"
  pressure :: double

record ServoPacket =
  motorSpeed :: "float32 arr4"

section \<open>Bytes\<close>

definition FdmPacket_fields :: "FdmPacket \<Rightarrow> double list" where
  "FdmPacket_fields p = [timestamp p] @ arr3_list (imuAngularVelocityRpy p) @
     arr3_list (imuLinearAccelerationXyz p) @ arr4_list (imuOrientationQuat p) @
     arr3_list (velocityXyz p) @ arr3_list (positionXyz p) @ [pressure p]"

definition FdmPacket_bytes :: "FdmPacket \<Rightarrow> u8 list" where
  "FdmPacket_bytes p = pack enc64 (FdmPacket_fields p)"

text \<open>What Betaflight, the receiver of the packet, reads back, and below what it sends: the other end of
  the wire, by which the properties say what a datagram means.  No code of the bridge.\<close>

definition FdmPacket_of_fields :: "double list \<Rightarrow> FdmPacket" where
  "FdmPacket_of_fields f = \<lparr>timestamp = f ! 0,
     imuAngularVelocityRpy = Arr3 (f ! 1) (f ! 2) (f ! 3),
     imuLinearAccelerationXyz = Arr3 (f ! 4) (f ! 5) (f ! 6),
     imuOrientationQuat = Arr4 (f ! 7) (f ! 8) (f ! 9) (f ! 10),
     velocityXyz = Arr3 (f ! 11) (f ! 12) (f ! 13),
     positionXyz = Arr3 (f ! 14) (f ! 15) (f ! 16), pressure = f ! 17\<rparr>"

definition FdmPacket_of_bytes :: "u8 list \<Rightarrow> FdmPacket" where
  "FdmPacket_of_bytes bs = FdmPacket_of_fields (unpack dec64 8 18 bs)"

definition ServoPacket_size :: nat where
  "ServoPacket_size = 16"

definition ServoPacket_bytes :: "ServoPacket \<Rightarrow> u8 list" where
  "ServoPacket_bytes p = pack enc32 (arr4_list (motorSpeed p))"

definition ServoPacket_of_bytes :: "u8 list \<Rightarrow> ServoPacket" where
  "ServoPacket_of_bytes bs = (let f = unpack dec32 4 4 bs in
     \<lparr>motorSpeed = Arr4 (f ! 0) (f ! 1) (f ! 2) (f ! 3)\<rparr>)"

section \<open>Layout\<close>

lemma length_FdmPacket_fields [simp]: "length (FdmPacket_fields p) = 18"
  by (simp add: FdmPacket_fields_def)

lemma FdmPacket_of_to_fields: "FdmPacket_of_fields (FdmPacket_fields p) = p"
proof (cases p)
  case (fields t w a q v x pr)
  show ?thesis
    by (cases w; cases a; cases q; cases v; cases x)
      (simp add: fields FdmPacket_fields_def FdmPacket_of_fields_def numeral_eq_Suc)
qed

lemma length_FdmPacket_bytes [simp]: "length (FdmPacket_bytes p) = 144"
  by (simp add: FdmPacket_bytes_def double_field.length_pack)

definition fdm_ok :: "FdmPacket \<Rightarrow> bool" where
  "fdm_ok p \<longleftrightarrow> list_all (representable b64) (FdmPacket_fields p)"

lemma FdmPacket_roundtrip: "fdm_ok p \<Longrightarrow> FdmPacket_of_bytes (FdmPacket_bytes p) = p"
  using double_field.unpack_pack [of "FdmPacket_fields p"]
  by (simp add: FdmPacket_bytes_def FdmPacket_of_bytes_def fdm_ok_def FdmPacket_of_to_fields)

lemma list4_nth: "length xs = 4 \<Longrightarrow> [xs ! 0, xs ! 1, xs ! 2, xs ! 3] = xs"
  by (auto simp: numeral_eq_Suc length_Suc_conv)

lemma ServoPacket_of_bytes_list:
  "arr4_list (motorSpeed (ServoPacket_of_bytes bs)) = unpack dec32 4 4 bs"
  using list4_nth [of "unpack dec32 4 4 bs"] by (simp add: ServoPacket_of_bytes_def Let_def)

lemma ServoPacket_of_bytes_ok: "arr4_all (representable b32) (motorSpeed (ServoPacket_of_bytes bs))"
  using float_field.unpack_ok [of 4 bs]
  by (simp add: arr4_all_iff ServoPacket_of_bytes_list list_all_iff)

lemma ServoPacket_roundtrip:
  "arr4_all (representable b32) (motorSpeed p) \<Longrightarrow> ServoPacket_of_bytes (ServoPacket_bytes p) = p"
proof -
  assume "arr4_all (representable b32) (motorSpeed p)"
  then have "unpack dec32 4 4 (pack enc32 (arr4_list (motorSpeed p))) = arr4_list (motorSpeed p)"
    using float_field.unpack_pack [of "arr4_list (motorSpeed p)"] by (simp add: arr4_all_iff list_all_iff)
  then show ?thesis
    by (cases p; cases "motorSpeed p")
      (simp add: ServoPacket_of_bytes_def ServoPacket_bytes_def numeral_2_eq_2 numeral_3_eq_3)
qed

lemma length_ServoPacket_bytes [simp]: "length (ServoPacket_bytes p) = ServoPacket_size"
  by (simp add: ServoPacket_bytes_def ServoPacket_size_def float_field.length_pack)

lemma pack_at:
  "i < length xs \<Longrightarrow> take 8 (drop (8 * i) (pack enc64 xs)) = enc64 (xs ! i)"
proof (induction xs arbitrary: i)
  case (Cons x xs)
  then show ?case
    by (cases i) (simp_all add: pack_def double_field.length_enc)
qed simp

lemma FdmPacket_at:
  "i < 18 \<Longrightarrow> take 8 (drop (8 * i) (FdmPacket_bytes p)) = enc64 (FdmPacket_fields p ! i)"
  by (simp add: FdmPacket_bytes_def pack_at)

lemma unpack_4: "unpack dec w 4 bs =
    [dec (take w bs), dec (take w (drop w bs)), dec (take w (drop (w + w) bs)), dec (take w (drop (w + w + w) bs))]"
proof -
  have "(4::nat) = Suc (Suc (Suc (Suc 0)))" by simp
  then show ?thesis by (simp only: unpack.simps drop_drop) (simp add: add.assoc)
qed

section \<open>Properties\<close>

text \<open>C14: the layout of the datagrams.  An FDM datagram has the 144 bytes of the static assertion, and
  every member is the little-endian IEEE double at its offset, in the order of
  \<^verbatim>\<open>docs/packet_protocol.md\<close>: the time at 0, the angular velocity at 8, the acceleration at 32, the
  quaternion at 56, the velocity at 88, the position at 112 and the pressure at 136.  Of a servo datagram
  the speed of motor \<open>i\<close> is the IEEE float in the bytes from \<open>4 * i\<close>, whatever the bytes are.\<close>

theorem packet_layout:
  "length (FdmPacket_bytes p) = 18 * 8 \<and>
   (let member = (\<lambda>offset. take 8 (drop offset (FdmPacket_bytes p))) in
     member 0 = enc64 (timestamp p) \<and>
     [member 8, member 16, member 24] = map enc64 (arr3_list (imuAngularVelocityRpy p)) \<and>
     [member 32, member 40, member 48] = map enc64 (arr3_list (imuLinearAccelerationXyz p)) \<and>
     [member 56, member 64, member 72, member 80] = map enc64 (arr4_list (imuOrientationQuat p)) \<and>
     [member 88, member 96, member 104] = map enc64 (arr3_list (velocityXyz p)) \<and>
     [member 112, member 120, member 128] = map enc64 (arr3_list (positionXyz p)) \<and>
     member 136 = enc64 (pressure p)) \<and>
   ServoPacket_size = 4 * 4 \<and>
   arr4_list (motorSpeed (ServoPacket_of_bytes bs)) =
     [dec32 (take 4 bs), dec32 (take 4 (drop 4 bs)), dec32 (take 4 (drop 8 bs)), dec32 (take 4 (drop 12 bs))]"
proof -
  obtain w1 w2 w3 a1 a2 a3 where w: "imuAngularVelocityRpy p = Arr3 w1 w2 w3"
    "imuLinearAccelerationXyz p = Arr3 a1 a2 a3"
    by (metis arr3.exhaust)
  obtain q1 q2 q3 q4 where q: "imuOrientationQuat p = Arr4 q1 q2 q3 q4" by (metis arr4.exhaust)
  obtain v1 v2 v3 x1 x2 x3 where v: "velocityXyz p = Arr3 v1 v2 v3" "positionXyz p = Arr3 x1 x2 x3"
    by (metis arr3.exhaust)
  have f: "FdmPacket_fields p = [timestamp p, w1, w2, w3, a1, a2, a3, q1, q2, q3, q4, v1, v2, v3, x1, x2, x3, pressure p]"
    by (simp add: FdmPacket_fields_def w q v)
  note at = FdmPacket_at [of _ p, unfolded f]
  show ?thesis
    using at [of 0] at [of 1] at [of 2] at [of 3] at [of 4] at [of 5] at [of 6] at [of 7] at [of 8] at [of 9]
      at [of 10] at [of 11] at [of 12] at [of 13] at [of 14] at [of 15] at [of 16] at [of 17]
    by (simp add: ServoPacket_size_def ServoPacket_of_bytes_list unpack_4 w q v double_field.length_enc)
qed

end
