(* ===== verification/Quaternion.thy ===== *)
theory Quaternion
  imports Prelude
begin

text \<open>
  Quaternions \<open>(w, x, y, z)\<close> and vectors over any commutative ring: the mathematics the frame
  conversions of the bridge are specified with.  \<open>qrot q v\<close> is the vector part of
  \<open>q * v * conj q\<close>, the rotation by \<open>q\<close> scaled by the squared norm of \<open>q\<close>.
\<close>

fun qmul :: "'a::comm_ring_1 arr4 \<Rightarrow> 'a arr4 \<Rightarrow> 'a arr4" where
  "qmul (Arr4 a b c d) (Arr4 w x y z) = Arr4
     (a * w - b * x - c * y - d * z) (a * x + b * w + c * z - d * y)
     (a * y - b * z + c * w + d * x) (a * z + b * y - c * x + d * w)"

fun qconj :: "'a::comm_ring_1 arr4 \<Rightarrow> 'a arr4" where
  "qconj (Arr4 w x y z) = Arr4 w (- x) (- y) (- z)"

fun qneg :: "'a::comm_ring_1 arr4 \<Rightarrow> 'a arr4" where
  "qneg (Arr4 w x y z) = Arr4 (- w) (- x) (- y) (- z)"

fun qnorm2 :: "'a::comm_ring_1 arr4 \<Rightarrow> 'a" where
  "qnorm2 (Arr4 w x y z) = w * w + x * x + y * y + z * z"

fun qvec :: "'a::comm_ring_1 arr3 \<Rightarrow> 'a arr4" where
  "qvec (Arr3 x y z) = Arr4 0 x y z"

fun vector_part :: "'a arr4 \<Rightarrow> 'a arr3" where
  "vector_part (Arr4 w x y z) = Arr3 x y z"

definition qrot :: "'a::comm_ring_1 arr4 \<Rightarrow> 'a arr3 \<Rightarrow> 'a arr3" where
  "qrot q v = vector_part (qmul (qmul q (qvec v)) (qconj q))"

text \<open>Vectors of the two body conventions: forward-left-up and forward-right-down.\<close>

fun flip_yz :: "'a::comm_ring_1 arr3 \<Rightarrow> 'a arr3" where
  "flip_yz (Arr3 x y z) = Arr3 x (- y) (- z)"

text \<open>World vectors: east-north-up and north-east-down.\<close>

fun swap_enu_ned :: "'a::comm_ring_1 arr3 \<Rightarrow> 'a arr3" where
  "swap_enu_ned (Arr3 e n u) = Arr3 n e (- u)"

section \<open>Laws\<close>

lemma qmul_assoc: "qmul (qmul p q) r = qmul p (qmul q r)"
  by (cases p; cases q; cases r) (simp add: algebra_simps)

lemma qconj_mul: "qconj (qmul p q) = qmul (qconj q) (qconj p)"
  by (cases p; cases q) (simp add: algebra_simps)

lemma qnorm2_mul: "qnorm2 (qmul p q) = qnorm2 p * qnorm2 q"
  by (cases p; cases q) (simp add: algebra_simps)

lemma qmul_neg [simp]: "qmul (qneg p) q = qneg (qmul p q)" "qmul p (qneg q) = qneg (qmul p q)"
  by (cases p; cases q; simp add: algebra_simps)+

lemma qneg_neg [simp]: "qneg (qneg q) = q" "qconj (qneg q) = qneg (qconj q)" "qnorm2 (qneg q) = qnorm2 q"
  by (cases q; simp)+

lemma qrot_neg [simp]: "qrot (qneg q) v = qrot q v"
  by (simp add: qrot_def)

lemma qrot_entries:
  "qrot (Arr4 w x y z) (Arr3 a b c) = Arr3
     ((w * w + x * x - y * y - z * z) * a + (2 * (x * y - w * z)) * b + (2 * (x * z + w * y)) * c)
     ((2 * (x * y + w * z)) * a + (w * w - x * x + y * y - z * z) * b + (2 * (y * z - w * x)) * c)
     ((2 * (x * z - w * y)) * a + (2 * (y * z + w * x)) * b + (w * w - x * x - y * y + z * z) * c)"
  by (simp add: qrot_def algebra_simps)

lemma scalar_part_qrot: "qmul (qmul q (qvec v)) (qconj q) = qvec (qrot q v)"
  by (cases q; cases v) (simp add: qrot_def algebra_simps)

lemma qrot_mul: "qrot (qmul p q) v = qrot p (qrot q v)"
proof -
  have "qmul (qmul (qmul p q) (qvec v)) (qconj (qmul p q)) =
      qmul (qmul p (qmul (qmul q (qvec v)) (qconj q))) (qconj p)"
    by (simp add: qconj_mul qmul_assoc)
  then show ?thesis unfolding qrot_def [of "qmul p q"] qrot_def [of p] by (simp add: scalar_part_qrot)
qed

lemma flip_yz_flip [simp]: "flip_yz (flip_yz v) = v"
  by (cases v) simp

lemma swap_swap [simp]: "swap_enu_ned (swap_enu_ned v) = v"
  by (cases v) simp

text \<open>Half a turn about the x axis is the change between the body conventions.\<close>

lemma half_turn_x: "qrot (Arr4 0 1 0 0) v = flip_yz v"
  by (cases v) (simp add: qrot_entries)

lemma conjugate_flip: "qmul (qmul (Arr4 0 1 0 0) q) (Arr4 0 1 0 0) = qneg (case q of Arr4 w x y z \<Rightarrow> Arr4 w x (- y) (- z))"
  by (cases q) simp

lemma qrot_flip: "qrot (case q of Arr4 w x y z \<Rightarrow> Arr4 w x (- y) (- z)) (flip_yz v) = flip_yz (qrot q v)"
  by (cases q; cases v) (simp add: qrot_entries algebra_simps)

end
