(* ===== verification/GazeboTransport.thy ===== *)
theory GazeboTransport
  imports Config Packets Quaternion
begin

text \<open>
  \<^verbatim>\<open>GazeboTransport.hh\<close> and \<^verbatim>\<open>GazeboTransport.cc\<close>: the subscriber that collects the sensor messages,
  the actuator publisher and the construction of the FDM packet.  gz-transport is not part of the
  repository: its results (\<^verbatim>\<open>Subscribe\<close>, \<^verbatim>\<open>Advertise\<close>) are arguments.  \<^verbatim>\<open>std::pow\<close>, whose rounding the
  C++ standard leaves open, is the argument \<open>pow\<close>.  Every callback and every reader holds the
  subscriber's mutex for its whole body, so each is one step on the state.
\<close>

section \<open>Messages and state\<close>

text \<open>The members of the protobuf messages the bridge reads; a submessage that is absent is \<open>None\<close>.\<close>

record IMU =
  angular_velocity :: "double arr3 option"
  linear_acceleration :: "double arr3 option"
  orientation :: "double arr4 option"

record Altimeter =
  vertical_position :: double
  vertical_velocity :: double

record NavSat =
  longitude_deg :: double
  latitude_deg :: double
  nav_altitude :: double
  velocity_east :: double
  velocity_north :: double
  velocity_up :: double

record SensorSnapshot =
  altitude :: double
  verticalVelocity :: double
  angularVelocity :: "double arr3"
  linearAcceleration :: "double arr3"
  orientationQuat :: "double arr4"
  longitudeDeg :: double
  latitudeDeg :: double
  gpsAltitude :: double
  velocityEast :: double
  velocityNorth :: double
  velocityUp :: double
  hasNavSat :: bool

definition new_SensorSnapshot :: SensorSnapshot where
  "new_SensorSnapshot = \<lparr>altitude = 0, verticalVelocity = 0, angularVelocity = Arr3 0 0 0,
     linearAcceleration = Arr3 0 0 (- lit (980665 / 100000)), orientationQuat = Arr4 1 0 0 0,
     longitudeDeg = 0, latitudeDeg = 0, gpsAltitude = 0, velocityEast = 0, velocityNorth = 0,
     velocityUp = 0, hasNavSat = False\<rparr>"

record GazeboStateSubscriber =
  sub_snapshot :: SensorSnapshot
  hasImu :: bool
  hasAltimeter :: bool
  navsatRequired :: bool

definition new_GazeboStateSubscriber :: "(string \<Rightarrow> bool) \<Rightarrow> GazeboConfig \<Rightarrow> GazeboStateSubscriber outcome" where
  "new_GazeboStateSubscriber subscribe config =
     throw_if (\<not> subscribe (gz_imuTopic config)) (''Failed to subscribe to IMU topic: '' @ gz_imuTopic config)
     (throw_if (\<not> subscribe (gz_altimeterTopic config))
        (''Failed to subscribe to altimeter topic: '' @ gz_altimeterTopic config)
     (let st = \<lparr>sub_snapshot = new_SensorSnapshot, hasImu = False, hasAltimeter = False,
          navsatRequired = (gz_navsatTopic config \<noteq> None)\<rparr> in
      case gz_navsatTopic config of
        None \<Rightarrow> Ok st
      | Some topic \<Rightarrow> throw_if (\<not> subscribe topic) (''Failed to subscribe to NavSat topic: '' @ topic) (Ok st)))"

section \<open>Operations\<close>

definition Snapshot :: "GazeboStateSubscriber \<Rightarrow> SensorSnapshot option" where
  "Snapshot st = (if \<not> hasImu st \<or> \<not> hasAltimeter st \<or> navsatRequired st \<and> \<not> hasNavSat (sub_snapshot st)
     then None else Some (sub_snapshot st))"

definition HasImu :: "GazeboStateSubscriber \<Rightarrow> bool" where "HasImu st = hasImu st"
definition HasAltimeter :: "GazeboStateSubscriber \<Rightarrow> bool" where "HasAltimeter st = hasAltimeter st"
definition HasNavSat :: "GazeboStateSubscriber \<Rightarrow> bool" where "HasNavSat st = hasNavSat (sub_snapshot st)"

definition OnImu :: "IMU \<Rightarrow> GazeboStateSubscriber \<Rightarrow> GazeboStateSubscriber" where
  "OnImu msg st = (let
     s = sub_snapshot st;
     s = (case angular_velocity msg of None \<Rightarrow> s | Some v \<Rightarrow> s\<lparr>angularVelocity := v\<rparr>);
     s = (case linear_acceleration msg of None \<Rightarrow> s | Some v \<Rightarrow> s\<lparr>linearAcceleration := v\<rparr>);
     s = (case orientation msg of None \<Rightarrow> s | Some q \<Rightarrow> s\<lparr>orientationQuat := q\<rparr>)
     in st\<lparr>sub_snapshot := s, hasImu := True\<rparr>)"

definition OnAltimeter :: "Altimeter \<Rightarrow> GazeboStateSubscriber \<Rightarrow> GazeboStateSubscriber" where
  "OnAltimeter msg st = st\<lparr>sub_snapshot := (sub_snapshot st)\<lparr>altitude := vertical_position msg,
     verticalVelocity := vertical_velocity msg\<rparr>, hasAltimeter := True\<rparr>"

definition OnNavSat :: "NavSat \<Rightarrow> GazeboStateSubscriber \<Rightarrow> GazeboStateSubscriber" where
  "OnNavSat msg st = st\<lparr>sub_snapshot := (sub_snapshot st)\<lparr>longitudeDeg := longitude_deg msg,
     latitudeDeg := latitude_deg msg, gpsAltitude := nav_altitude msg, velocityEast := velocity_east msg,
     velocityNorth := velocity_north msg, velocityUp := velocity_up msg, hasNavSat := True\<rparr>\<rparr>"

text \<open>The callbacks in the order gz-transport delivers the messages.\<close>

datatype sensor_msg = ImuMsg IMU | AltimeterMsg Altimeter | NavSatMsg NavSat

fun deliver :: "sensor_msg \<Rightarrow> GazeboStateSubscriber \<Rightarrow> GazeboStateSubscriber" where
  "deliver (ImuMsg m) st = OnImu m st"
| "deliver (AltimeterMsg m) st = OnAltimeter m st"
| "deliver (NavSatMsg m) st = OnNavSat m st"

section \<open>Actuators\<close>

definition new_ActuatorPublisher :: "(string \<Rightarrow> bool) \<Rightarrow> GazeboConfig \<Rightarrow> unit outcome" where
  "new_ActuatorPublisher advertise config =
     throw_if (\<not> advertise (gz_actuatorTopic config))
       (''Failed to advertise actuator topic: '' @ gz_actuatorTopic config) (Ok ())"

record Actuators =
  act_velocity :: "double list"

definition Publish :: "double arr4 \<Rightarrow> Actuators" where
  "Publish velocities = \<lparr>act_velocity = arr4_list velocities\<rparr>"

section \<open>The FDM packet\<close>

definition barometric_exponent :: double where
  "barometric_exponent = lit (525588 / 100000)"

definition PressureFromAltitude :: "(double \<Rightarrow> double \<Rightarrow> double) \<Rightarrow> double \<Rightarrow> double \<Rightarrow> double" where
  "PressureFromAltitude pow altitudeMeters seaLevelPressurePa = (let
     altitudeMeters = (if isfinite altitudeMeters then altitudeMeters else 0);
     altitudeMeters = std_clamp altitudeMeters (- lit 1000) (lit 44000);
     base = std_max (lit (1 / 100)) (1 - lit (225577 / 10000000000) * altitudeMeters)
     in seaLevelPressurePa * pow base barometric_exponent)"

fun FluVectorToFrdSensor :: "double arr3 \<Rightarrow> double arr3" where
  "FluVectorToFrdSensor (Arr3 x y z) = Arr3 x (- y) (- z)"

fun FluBodyToEnuWorldQuatToGazeboBridgeQuat :: "double arr4 \<Rightarrow> double arr4" where
  "FluBodyToEnuWorldQuatToGazeboBridgeQuat (Arr4 w x y z) = Arr4 w x (- y) (- z)"

definition Build :: "(double \<Rightarrow> double \<Rightarrow> double) \<Rightarrow> FdmConfig \<Rightarrow> SensorSnapshot \<Rightarrow> double \<Rightarrow> FdmPacket" where
  "Build pow config s timestampSeconds = (let
     gazeboBridgeFrame = (fdm_frameMode config = ''gazebo_bridge'');
     gpsAlt = (fdm_altitudeSource config = ''gps'' \<and> hasNavSat s);
     z = (if gpsAlt then gpsAltitude s else altitude s);
     vz = (if gpsAlt then velocityUp s else verticalVelocity s)
     in \<lparr>timestamp = timestampSeconds,
       imuAngularVelocityRpy = (if gazeboBridgeFrame then FluVectorToFrdSensor (angularVelocity s) else angularVelocity s),
       imuLinearAccelerationXyz =
         (if gazeboBridgeFrame then FluVectorToFrdSensor (linearAcceleration s) else linearAcceleration s),
       imuOrientationQuat =
         (if gazeboBridgeFrame then FluBodyToEnuWorldQuatToGazeboBridgeQuat (orientationQuat s) else orientationQuat s),
       velocityXyz = (if hasNavSat s then Arr3 (velocityEast s) (velocityNorth s) vz else Arr3 0 0 vz),
       positionXyz = (if hasNavSat s then Arr3 (longitudeDeg s) (latitudeDeg s) z else Arr3 0 0 z),
       pressure = (if fdm_pressureMode config = ''zero'' then 0
         else PressureFromAltitude pow (altitude s) (fdm_seaLevelPressurePa config))\<rparr>)"

section \<open>The pressure model\<close>

definition pressure_base :: "double \<Rightarrow> double" where
  "pressure_base h = std_max (lit (1 / 100))
     (1 - lit (225577 / 10000000000) * std_clamp h (- lit 1000) (lit 44000))"

text \<open>What the model needs of \<^verbatim>\<open>std::pow\<close> at the fixed positive exponent: on positive bases up to 2 it
  gives a finite non-negative number and is monotone.  glibc documents both (the relative error is
  below one ulp, \<^verbatim>\<open>pow\<close> is exact at 1 and monotone to within that error on this range).\<close>

definition pow_laws :: "(double \<Rightarrow> double \<Rightarrow> double) \<Rightarrow> bool" where
  "pow_laws pow \<longleftrightarrow> (\<forall>x y. lit (1 / 100) \<le> x \<longrightarrow> x \<le> y \<longrightarrow> y \<le> Fin 2 \<longrightarrow>
     isfinite (pow x barometric_exponent) \<and> 0 \<le> pow x barometric_exponent \<and>
     pow x barometric_exponent \<le> pow y barometric_exponent)"

lemma PressureFromAltitude_base:
  "PressureFromAltitude pow h p = p * pow (pressure_base (if isfinite h then h else 0)) barometric_exponent"
  by (simp add: PressureFromAltitude_def pressure_base_def Let_def)

lemma lapse_rate:
  "isfinite (lit (225577 / 10000000000))" "0 \<le> val (lit (225577 / 10000000000))"
  "val (lit (225577 / 10000000000)) \<le> 1 / 1024"
  using lit_between [of 0 "1 / 1024" "225577 / 10000000000"] by (simp_all add: on_grid_eval)

lemma height_limits: "lit 1000 = Fin 1000" "lit 44000 = Fin 44000" "- Fin 1000 = Fin (- 1000)"
  by (simp_all add: lit_def fp_eval uminus_fp_def)

lemma clamped_height:
  assumes "isfinite h"
  shows "isfinite (std_clamp h (- lit 1000) (lit 44000))"
    and "val (std_clamp h (- lit 1000) (lit 44000)) = max (- 1000) (min 44000 (val h))"
  using clamp_val [OF assms, of "- lit 1000" "lit 44000"] by (simp_all add: height_limits)

lemma lapse_bounds:
  assumes "isfinite h"
  defines "t \<equiv> lit (225577 / 10000000000) * std_clamp h (- lit 1000) (lit 44000)"
  shows "isfinite t" and "- 1 \<le> val t" and "val t \<le> 64"
proof -
  let ?c = "lit (225577 / 10000000000)" and ?h = "std_clamp h (- lit 1000) (lit 44000)"
  have h: "isfinite ?h" "- 1000 \<le> val ?h" "val ?h \<le> 44000" using clamped_height [OF assms(1)] by simp_all
  have "val ?c * val ?h \<le> val ?c * 44000" "val ?c * (- 1000) \<le> val ?c * val ?h"
    using h lapse_rate(2) by (intro mult_left_mono; simp)+
  then have b: "- 1 \<le> val ?c * val ?h" "val ?c * val ?h \<le> 64" using lapse_rate(3) by linarith+
  have t: "t = rnd_signed b64 (signbit ?c \<noteq> signbit ?h) (val ?c * val ?h)"
    unfolding t_def by (rule fp_mul_finite [OF lapse_rate(1) h(1)])
  have "Fin (- 1) \<le> t"
    unfolding t by (rule rnd_signed_ge_exact) (use b on_grid_of_int [of "-1" b64] in simp_all)
  moreover have "t \<le> Fin 64"
    unfolding t by (rule rnd_signed_le_exact) (use b in \<open>simp_all add: on_grid_eval\<close>)
  ultimately show f: "isfinite t" by (rule finite_between [of "Fin (- 1)" "Fin 64", rotated 2]) simp_all
  with \<open>Fin (- 1) \<le> t\<close> \<open>t \<le> Fin 64\<close> show "- 1 \<le> val t" "val t \<le> 64" by (simp_all add: le_fp_finite)
qed

lemma one_minus_bounds:
  assumes "isfinite t" "- 1 \<le> val t" "val t \<le> 64"
  shows "isfinite (1 - t)" and "1 - t \<le> Fin 2"
proof -
  have e: "1 - t = rnd b64 (1 - val t)"
    using assms(1) by (cases t) (simp_all add: minus_fp_def one_fp_def)
  have "Fin (- 63) \<le> 1 - t"
    unfolding e rnd_def by (rule rnd_signed_ge_exact) (use assms on_grid_of_int [of "-63" b64] in simp_all)
  moreover have "1 - t \<le> Fin 2"
    unfolding e rnd_def by (rule rnd_signed_le_exact) (use assms in \<open>simp_all add: on_grid_eval\<close>)
  ultimately show "isfinite (1 - t)" "1 - t \<le> Fin 2"
    using finite_between [of "Fin (- 63)" "Fin 2"] by simp_all
qed

lemma hundredth: "isfinite (lit (1 / 100))" "0 < val (lit (1 / 100))" "val (lit (1 / 100)) \<le> 2"
  using lit_between [of "1 / 128" 2 "1 / 100"] by (simp_all add: on_grid_eval)

lemma pressure_base_bounds:
  assumes "isfinite h"
  shows "isfinite (pressure_base h)" and "lit (1 / 100) \<le> pressure_base h" and "pressure_base h \<le> Fin 2"
proof -
  note d = one_minus_bounds [OF lapse_bounds [OF assms]]
  show f: "isfinite (pressure_base h)"
    unfolding pressure_base_def by (rule std_max_val(1) [OF hundredth(1) d(1)])
  have v: "val (pressure_base h) = max (val (lit (1 / 100)))
      (val (1 - lit (225577 / 10000000000) * std_clamp h (- lit 1000) (lit 44000)))"
    unfolding pressure_base_def by (rule std_max_val(2) [OF hundredth(1) d(1)])
  show "lit (1 / 100) \<le> pressure_base h" by (simp add: le_fp_finite f hundredth v)
  have "val (1 - lit (225577 / 10000000000) * std_clamp h (- lit 1000) (lit 44000)) \<le> 2"
    using d by (simp add: le_fp_finite)
  then show "pressure_base h \<le> Fin 2" using hundredth(3) by (simp add: le_fp_finite f v)
qed

lemma pressure_base_anti:
  assumes "isfinite h" "isfinite h'" "val h \<le> val h'"
  shows "pressure_base h' \<le> pressure_base h"
proof -
  let ?t = "\<lambda>h. lit (225577 / 10000000000) * std_clamp h (- lit 1000) (lit 44000)"
  have "?t h \<le> ?t h'"
    using assms lapse_rate by (intro fp_mul_le_mono) (auto simp: clamped_height)
  then have "val (?t h) \<le> val (?t h')" using lapse_bounds(1) assms by (simp add: le_fp_finite)
  then have "1 - ?t h' \<le> 1 - ?t h"
    using lapse_bounds(1) assms by (intro fp_sub_le_anti) (simp_all add: one_fp_def)
  then have "val (1 - ?t h') \<le> val (1 - ?t h)"
    using one_minus_bounds(1) [OF lapse_bounds] assms by (simp add: le_fp_finite)
  then show ?thesis
    using assms pressure_base_bounds(1) one_minus_bounds(1) [OF lapse_bounds]
    by (simp add: le_fp_finite) (auto simp: pressure_base_def std_max_val hundredth)
qed

lemma pressure_zero_height: "pressure_base 0 = 1"
proof -
  have "std_clamp 0 (- lit 1000) (lit 44000) = Fin 0"
    by (simp add: std_clamp_def height_limits zero_fp_def)
  moreover have "lit (225577 / 10000000000) * Fin 0 = Fin 0 \<or> lit (225577 / 10000000000) * Fin 0 = NZero"
    using lapse_rate(1) by (simp add: fp_mul_finite rnd_signed_def)
  then have "1 - lit (225577 / 10000000000) * Fin 0 = Fin 1"
    by (auto simp: minus_fp_def one_fp_def rnd_exact on_grid_eval)
  moreover have "val (lit (1 / 100)) < 1" using lit_between [of 0 "1 / 2" "1 / 100"] by (simp add: on_grid_eval)
  then have "std_max (lit (1 / 100)) (Fin 1) = Fin 1" by (simp add: std_max_def less_fp_finite hundredth)
  ultimately show ?thesis by (simp add: pressure_base_def one_fp_def)
qed

section \<open>What the snapshot holds\<close>

text \<open>The messages of each kind, in order of delivery.\<close>

fun imus :: "sensor_msg list \<Rightarrow> IMU list" where
  "imus [] = []"
| "imus (ImuMsg m # ms) = m # imus ms"
| "imus (_ # ms) = imus ms"

fun altimeters :: "sensor_msg list \<Rightarrow> Altimeter list" where
  "altimeters [] = []"
| "altimeters (AltimeterMsg m # ms) = m # altimeters ms"
| "altimeters (_ # ms) = altimeters ms"

fun navsats :: "sensor_msg list \<Rightarrow> NavSat list" where
  "navsats [] = []"
| "navsats (NavSatMsg m # ms) = m # navsats ms"
| "navsats (_ # ms) = navsats ms"

text \<open>The value a field has after a list of updates of which some may be absent.\<close>

definition latest :: "'a \<Rightarrow> ('b \<Rightarrow> 'a option) \<Rightarrow> 'b list \<Rightarrow> 'a" where
  "latest d f ms = last (d # List.map_filter f ms)"

lemma latest_Nil [simp]: "latest d f [] = d"
  by (simp add: latest_def List.map_filter_def)

lemma latest_Cons [simp]: "latest d f (m # ms) = latest (case f m of None \<Rightarrow> d | Some v \<Rightarrow> v) f ms"
  by (cases "f m") (simp_all add: latest_def List.map_filter_def)

lemma latest_Some: "latest d (\<lambda>m. Some (f m)) ms = (if ms = [] then d else f (last ms))"
  by (induction ms arbitrary: d) simp_all

definition after :: "sensor_msg list \<Rightarrow> GazeboStateSubscriber \<Rightarrow> GazeboStateSubscriber" where
  "after ms st = fold deliver ms st"

text \<open>The state after any sequence of callbacks, field by field.\<close>

definition summary :: "sensor_msg list \<Rightarrow> GazeboStateSubscriber \<Rightarrow> GazeboStateSubscriber" where
  "summary ms st = (let s = sub_snapshot st in \<lparr>sub_snapshot =
     \<lparr>altitude = latest (altitude s) (\<lambda>m. Some (vertical_position m)) (altimeters ms),
      verticalVelocity = latest (verticalVelocity s) (\<lambda>m. Some (vertical_velocity m)) (altimeters ms),
      angularVelocity = latest (angularVelocity s) angular_velocity (imus ms),
      linearAcceleration = latest (linearAcceleration s) linear_acceleration (imus ms),
      orientationQuat = latest (orientationQuat s) orientation (imus ms),
      longitudeDeg = latest (longitudeDeg s) (\<lambda>m. Some (longitude_deg m)) (navsats ms),
      latitudeDeg = latest (latitudeDeg s) (\<lambda>m. Some (latitude_deg m)) (navsats ms),
      gpsAltitude = latest (gpsAltitude s) (\<lambda>m. Some (nav_altitude m)) (navsats ms),
      velocityEast = latest (velocityEast s) (\<lambda>m. Some (velocity_east m)) (navsats ms),
      velocityNorth = latest (velocityNorth s) (\<lambda>m. Some (velocity_north m)) (navsats ms),
      velocityUp = latest (velocityUp s) (\<lambda>m. Some (velocity_up m)) (navsats ms),
      hasNavSat = (hasNavSat s \<or> navsats ms \<noteq> [])\<rparr>,
     hasImu = (hasImu st \<or> imus ms \<noteq> []), hasAltimeter = (hasAltimeter st \<or> altimeters ms \<noteq> []),
     navsatRequired = navsatRequired st\<rparr>)"

lemma after_summary: "after ms st = summary ms st"
proof (induction ms arbitrary: st)
  case Nil
  then show ?case by (simp add: after_def summary_def Let_def)
next
  case (Cons m ms)
  have "summary (m # ms) st = summary ms (deliver m st)"
    by (cases m) (simp_all add: summary_def Let_def OnImu_def OnAltimeter_def OnNavSat_def split: option.splits)
  with Cons show ?case by (simp add: after_def)
qed

lemma new_subscriber_state:
  "new_GazeboStateSubscriber subscribe config = Ok st \<Longrightarrow>
     st = \<lparr>sub_snapshot = new_SensorSnapshot, hasImu = False, hasAltimeter = False,
          navsatRequired = (gz_navsatTopic config \<noteq> None)\<rparr>"
  by (auto simp: new_GazeboStateSubscriber_def Let_def split: option.splits)

section \<open>The frame of the FDM packet\<close>

fun vals3 :: "double arr3 \<Rightarrow> rat arr3" where
  "vals3 (Arr3 x y z) = Arr3 (val x) (val y) (val z)"

fun vals4 :: "double arr4 \<Rightarrow> rat arr4" where
  "vals4 (Arr4 w x y z) = Arr4 (val w) (val x) (val y) (val z)"

lemma vals_FluVector: "vals3 (FluVectorToFrdSensor v) = flip_yz (vals3 v)"
  by (cases v) simp

lemma vals_FluBody:
  "vals4 (FluBodyToEnuWorldQuatToGazeboBridgeQuat q) = (case vals4 q of Arr4 w x y z \<Rightarrow> Arr4 w x (- y) (- z))"
  by (cases q) simp

section \<open>Properties\<close>

text \<open>A snapshot is available exactly when an IMU and an altimeter message have arrived, and a
  NavSat message too if its topic is configured, in any order and number.\<close>

lemma snapshot_ready_iff:
  assumes "new_GazeboStateSubscriber subscribe config = Ok st"
  shows "Snapshot (after ms st) \<noteq> None \<longleftrightarrow>
    (\<exists>m. ImuMsg m \<in> set ms) \<and> (\<exists>m. AltimeterMsg m \<in> set ms) \<and>
    (gz_navsatTopic config \<noteq> None \<longrightarrow> (\<exists>m. NavSatMsg m \<in> set ms))"
proof -
  have "imus ms \<noteq> [] \<longleftrightarrow> (\<exists>m. ImuMsg m \<in> set ms)" by (induction ms rule: imus.induct) auto
  moreover have "altimeters ms \<noteq> [] \<longleftrightarrow> (\<exists>m. AltimeterMsg m \<in> set ms)" by (induction ms rule: altimeters.induct) auto
  moreover have "navsats ms \<noteq> [] \<longleftrightarrow> (\<exists>m. NavSatMsg m \<in> set ms)" by (induction ms rule: navsats.induct) auto
  moreover have "Snapshot (after ms st) \<noteq> None \<longleftrightarrow> imus ms \<noteq> [] \<and> altimeters ms \<noteq> [] \<and>
      (gz_navsatTopic config \<noteq> None \<longrightarrow> navsats ms \<noteq> [])"
    unfolding new_subscriber_state [OF assms] after_summary
    by (auto simp: Snapshot_def summary_def new_SensorSnapshot_def Let_def)
  ultimately show ?thesis by simp
qed

definition sample_imu :: IMU where
  "sample_imu = \<lparr>angular_velocity = Some (Arr3 1 0 0), linear_acceleration = None, orientation = None\<rparr>"

definition sample_altimeter :: Altimeter where
  "sample_altimeter = \<lparr>vertical_position = Fin 12, vertical_velocity = 0\<rparr>"

lemma default_subscriber:
  "new_GazeboStateSubscriber (\<lambda>_. True) default_gazebo = Ok \<lparr>sub_snapshot = new_SensorSnapshot,
     hasImu = False, hasAltimeter = False, navsatRequired = False\<rparr>"
  by (simp add: new_GazeboStateSubscriber_def default_gazebo_def Let_def)

text \<open>C17: a snapshot holds the latest altimeter reading, for every IMU quantity the latest value
  some IMU message carried, or its initial value (a message without a submessage overwrites nothing), and,
  once a NavSat message has arrived, the position, altitude and velocity of the latest one.\<close>

theorem snapshot_is_latest:
  assumes "new_GazeboStateSubscriber subscribe config = Ok st" "Snapshot (after ms st) = Some s"
  shows "altitude s = vertical_position (last (altimeters ms)) \<and>
    verticalVelocity s = vertical_velocity (last (altimeters ms)) \<and>
    orientationQuat s = latest (Arr4 1 0 0 0) orientation (imus ms) \<and>
    angularVelocity s = latest (Arr3 0 0 0) angular_velocity (imus ms) \<and>
    linearAcceleration s = latest (Arr3 0 0 (- lit (980665 / 100000))) linear_acceleration (imus ms) \<and>
    (hasNavSat s \<longleftrightarrow> navsats ms \<noteq> []) \<and>
    (hasNavSat s \<longrightarrow> longitudeDeg s = longitude_deg (last (navsats ms)) \<and>
       latitudeDeg s = latitude_deg (last (navsats ms)) \<and> gpsAltitude s = nav_altitude (last (navsats ms)) \<and>
       velocityEast s = velocity_east (last (navsats ms)) \<and> velocityNorth s = velocity_north (last (navsats ms)) \<and>
       velocityUp s = velocity_up (last (navsats ms)))"
proof -
  have "s = sub_snapshot (summary ms st)" "altimeters ms \<noteq> []"
    using assms(2) unfolding new_subscriber_state [OF assms(1)] after_summary
    by (auto simp: Snapshot_def summary_def Let_def split: if_splits)
  then show ?thesis
    unfolding new_subscriber_state [OF assms(1)]
    by (simp add: summary_def Let_def new_SensorSnapshot_def latest_Some)
qed

theorem snapshot_is_latest_witness:
  "\<exists>s. Snapshot (after [AltimeterMsg sample_altimeter, ImuMsg sample_imu] \<lparr>sub_snapshot = new_SensorSnapshot,
      hasImu = False, hasAltimeter = False, navsatRequired = False\<rparr>) = Some s \<and>
    altitude s = Fin 12 \<and> angularVelocity s = Arr3 1 0 0 \<and> orientationQuat s = Arr4 1 0 0 0"
proof -
  obtain s where s: "Snapshot (after [AltimeterMsg sample_altimeter, ImuMsg sample_imu]
      \<lparr>sub_snapshot = new_SensorSnapshot, hasImu = False, hasAltimeter = False, navsatRequired = False\<rparr>) = Some s"
    by (simp add: after_def Snapshot_def OnImu_def OnAltimeter_def sample_imu_def Let_def)
  from snapshot_is_latest [OF default_subscriber s] s show ?thesis
    by (simp add: sample_imu_def sample_altimeter_def)
qed

text \<open>C16: in the \<^verbatim>\<open>gazebo_bridge\<close> frame the packet's sensor vectors and orientation are the snapshot's
  seen from a body turned half a turn about its x axis: the vectors are turned, the quaternion is
  \<open>Rx(pi) * q * Rx(pi)\<close> up to its sign, and turning a body vector by the packet's orientation gives the
  converted world vector.\<close>

theorem fdm_frame_consistent:
  assumes "fdm_frameMode config = ''gazebo_bridge''"
  shows "let p = Build pow config s t; half_turn = Arr4 0 1 0 0 in
    vals3 (imuAngularVelocityRpy p) = qrot half_turn (vals3 (angularVelocity s)) \<and>
    vals3 (imuLinearAccelerationXyz p) = qrot half_turn (vals3 (linearAcceleration s)) \<and>
    qneg (vals4 (imuOrientationQuat p)) = qmul (qmul half_turn (vals4 (orientationQuat s))) half_turn \<and>
    (\<forall>v. qrot (vals4 (imuOrientationQuat p)) (qrot half_turn v) =
       qrot half_turn (qrot (vals4 (orientationQuat s)) v))"
  using assms
  by (simp add: Build_def Let_def vals_FluVector vals_FluBody half_turn_x conjugate_flip qrot_flip)

theorem fdm_frame_consistent_witness:
  "vals3 (imuLinearAccelerationXyz (Build (\<lambda>b _. b) default_fdm
      (new_SensorSnapshot\<lparr>linearAcceleration := Arr3 (Fin 1) (Fin 2) (Fin 3)\<rparr>) 0)) = Arr3 1 (- 2) (- 3)"
proof -
  have "fdm_frameMode default_fdm = ''gazebo_bridge''" by (simp add: default_fdm_def)
  from fdm_frame_consistent [OF this, of "\<lambda>b _. b" "new_SensorSnapshot\<lparr>linearAcceleration := Arr3 (Fin 1) (Fin 2) (Fin 3)\<rparr>" 0]
  show ?thesis by (simp add: Let_def half_turn_x)
qed

text \<open>C33: the pressure is a number and not negative for every altitude Gazebo can report, non-finite
  ones included (they count as sea level), never grows with the altitude, and at sea level is the
  configured pressure times \<^verbatim>\<open>pow(1, 5.25588)\<close>.\<close>

theorem pressure_model:
  assumes "pow_laws pow" "isfinite p" "0 \<le> val p"
  shows "0 \<le> PressureFromAltitude pow h p \<and>
    (\<forall>h'. isfinite h \<longrightarrow> isfinite h' \<longrightarrow> h \<le> h' \<longrightarrow> PressureFromAltitude pow h' p \<le> PressureFromAltitude pow h p) \<and>
    (\<not> isfinite h \<longrightarrow> PressureFromAltitude pow h p = p * pow 1 barometric_exponent)"
proof (intro conjI allI impI)
  let ?e = barometric_exponent
  have P: "isfinite (pow x ?e) \<and> 0 \<le> val (pow x ?e)" "pow x ?e \<le> pow y ?e"
    if "lit (1 / 100) \<le> x" "x \<le> y" "y \<le> Fin 2" for x y
  proof -
    have "isfinite (pow x ?e)" "0 \<le> pow x ?e" "pow x ?e \<le> pow y ?e"
      using assms(1) that by (auto simp: pow_laws_def)
    then show "isfinite (pow x ?e) \<and> 0 \<le> val (pow x ?e)" "pow x ?e \<le> pow y ?e"
      by (simp_all add: le_fp_finite zero_fp_def)
  qed
  show "0 \<le> PressureFromAltitude pow h p"
  proof -
    let ?b = "pressure_base (if isfinite h then h else 0)"
    have "isfinite (if isfinite h then h else 0)" by (simp add: zero_fp_def)
    note b = pressure_base_bounds [OF this]
    have "?b \<le> ?b" using b(1) by (simp only: le_fp_finite)
    from P(1) [OF b(2) this b(3)] have f: "isfinite (pow ?b ?e) \<and> 0 \<le> val (pow ?b ?e)" .
    have "Fin 0 \<le> p * pow ?b ?e"
      using f assms(2,3) by (simp only: fp_mul_finite) (rule rnd_signed_ge_exact; simp)
    then show ?thesis by (simp add: PressureFromAltitude_base zero_fp_def)
  qed
  show "PressureFromAltitude pow h' p \<le> PressureFromAltitude pow h p"
    if "isfinite h" "isfinite h'" "h \<le> h'" for h'
  proof -
    note b = pressure_base_bounds [OF that(1)] and b' = pressure_base_bounds [OF that(2)]
    have m: "pressure_base h' \<le> pressure_base h"
      using that by (intro pressure_base_anti) (simp_all add: le_fp_finite)
    have "isfinite (pow (pressure_base h) ?e)" "isfinite (pow (pressure_base h') ?e)"
      using P(1) [OF b(2) _ b(3)] P(1) [OF b'(2) m b(3)] b(1) by (simp_all add: le_fp_finite)
    moreover from this P(2) [OF b'(2) m b(3)] have "val (pow (pressure_base h') ?e) \<le> val (pow (pressure_base h) ?e)"
      by (simp add: le_fp_finite)
    ultimately show ?thesis
      using that assms(2,3) by (simp add: PressureFromAltitude_base fp_mul_le_mono)
  qed
  show "\<not> isfinite h \<Longrightarrow> PressureFromAltitude pow h p = p * pow 1 ?e"
    by (simp add: PressureFromAltitude_base pressure_zero_height)
qed

theorem pressure_model_witness:
  "pow_laws (\<lambda>b _. b) \<and> 0 \<le> PressureFromAltitude (\<lambda>b _. b) NaN (Fin 101325) \<and>
   PressureFromAltitude (\<lambda>b _. b) (Fin 9000) (Fin 101325) \<le> PressureFromAltitude (\<lambda>b _. b) (Fin 100) (Fin 101325)"
proof -
  have "isfinite x \<and> 0 \<le> x" if "lit (1 / 100) \<le> x" "x \<le> y" "y \<le> Fin 2" for x y
  proof -
    have f: "isfinite x"
      by (rule finite_between [OF hundredth(1) _ that(1) le_fp_trans [OF that(2,3)]]) simp
    moreover from this that(1) hundredth have "0 \<le> val x" by (simp add: le_fp_finite)
    ultimately show ?thesis by (simp add: le_fp_finite zero_fp_def)
  qed
  then have "pow_laws (\<lambda>b _. b)" by (auto simp: pow_laws_def)
  moreover from this have "0 \<le> PressureFromAltitude (\<lambda>b _. b) NaN (Fin 101325)"
    using pressure_model [of "\<lambda>b _. b" "Fin 101325" NaN, THEN conjunct1] by simp
  moreover from calculation(1) have
    "PressureFromAltitude (\<lambda>b _. b) (Fin 9000) (Fin 101325) \<le> PressureFromAltitude (\<lambda>b _. b) (Fin 100) (Fin 101325)"
    using pressure_model [of "\<lambda>b _. b" "Fin 101325" "Fin 100"] by simp
  ultimately show ?thesis by blast
qed

end
