(* ===== verification/Descriptors.thy ===== *)
theory Descriptors
  imports Prelude
begin

text \<open>
  The file descriptors of the process and the discipline every class that holds one has to follow.
  The operating system is not part of the repository; the model keeps which descriptors the classes
  have open, and whether \<^verbatim>\<open>close\<close> was ever called on one that was not.
\<close>

record kernel =
  open_fds :: "int set"
  bad_close :: bool

definition sys_open :: "int \<Rightarrow> kernel \<Rightarrow> kernel" where
  "sys_open d k = k\<lparr>open_fds := insert d (open_fds k)\<rparr>"

definition sys_close :: "int \<Rightarrow> kernel \<Rightarrow> kernel" where
  "sys_close d k = k\<lparr>open_fds := open_fds k - {d}, bad_close := bad_close k \<or> d \<notin> open_fds k\<rparr>"

text \<open>\<open>h\<close> gives the descriptor each object of the process holds, negative for none.\<close>

definition owned_once :: "(nat \<Rightarrow> int) \<Rightarrow> kernel \<Rightarrow> bool" where
  "owned_once h k \<longleftrightarrow> \<not> bad_close k \<and> open_fds k = {d. 0 \<le> d \<and> (\<exists>a. h a = d)} \<and>
     (\<forall>a b. 0 \<le> h a \<longrightarrow> h a = h b \<longrightarrow> a = b)"

named_theorems owned \<open>steps that keep descriptors owned once\<close>

lemma owned_onceD:
  assumes "owned_once h k"
  shows "\<not> bad_close k" and "d \<in> open_fds k \<longleftrightarrow> 0 \<le> d \<and> (\<exists>a. h a = d)"
    and "0 \<le> h a \<Longrightarrow> h a = h b \<Longrightarrow> a = b"
  using assms by (auto simp: owned_once_def)

lemma owned_onceI:
  assumes "\<not> bad_close k" "\<And>d. d \<in> open_fds k \<longleftrightarrow> 0 \<le> d \<and> (\<exists>a. h a = d)"
    and "\<And>a b. 0 \<le> h a \<Longrightarrow> h a = h b \<Longrightarrow> a = b"
  shows "owned_once h k"
  using assms unfolding owned_once_def by blast

text \<open>Renaming the objects keeps ownership.\<close>

lemma owned_rename:
  assumes "owned_once h k" "\<And>x. p (p x) = x" "\<And>x e. 0 \<le> e \<Longrightarrow> g x = e \<longleftrightarrow> h (p x) = e"
  shows "owned_once g k"
proof (rule owned_onceI)
  note D = owned_onceD [OF assms(1)]
  show "\<not> bad_close k" by (rule D(1))
  show "e \<in> open_fds k \<longleftrightarrow> 0 \<le> e \<and> (\<exists>x. g x = e)" for e
    unfolding D(2) using assms(2,3) by metis
  show "x = y" if "0 \<le> g x" "g x = g y" for x y
  proof -
    have "h (p x) = g x" "h (p y) = g x" using assms(3) [OF that(1), of x] assms(3) [OF that(1), of y] that(2) by simp_all
    then have "p x = p y" using D(3) [of "p x" "p y"] that(1) by simp
    then have "p (p x) = p (p y)" by simp
    then show ?thesis by (simp only: assms(2))
  qed
qed

lemma owned_none [owned]:
  assumes "owned_once (h(a := c)) k" "c < 0" "c' < 0"
  shows "owned_once (h(a := c')) k"
  by (rule owned_rename [OF assms(1), of "\<lambda>x. x"]) (use assms(2,3) in auto)

lemma owned_open [owned]:
  assumes "owned_once (h(a := c)) k" "c < 0" "0 \<le> d" "d \<notin> open_fds k"
  shows "owned_once (h(a := d)) (sys_open d k)"
proof (rule owned_onceI)
  note D = owned_onceD [OF assms(1)]
  have only: "(h(a := d)) b = d \<longleftrightarrow> b = a" for b
  proof (cases "b = a")
    case False
    have "(h(a := c)) b \<noteq> d" using D(2) [of d] assms(3,4) by blast
    with False show ?thesis by simp
  qed simp
  have other: "(h(a := d)) b = e \<longleftrightarrow> (h(a := c)) b = e" if "0 \<le> e" "e \<noteq> d" for b e
    using that assms(2) by auto
  show "\<not> bad_close (sys_open d k)" using D(1) by (simp add: sys_open_def)
  show "e \<in> open_fds (sys_open d k) \<longleftrightarrow> 0 \<le> e \<and> (\<exists>b. (h(a := d)) b = e)" for e
  proof (cases "e = d")
    case True
    then show ?thesis using only assms(3) by (auto simp: sys_open_def)
  next
    case False
    then have "e \<in> open_fds (sys_open d k) \<longleftrightarrow> e \<in> open_fds k" by (simp add: sys_open_def)
    also have "\<dots> \<longleftrightarrow> 0 \<le> e \<and> (\<exists>b. (h(a := d)) b = e)" unfolding D(2) using other False by blast
    finally show ?thesis .
  qed
  show "b = b'" if "0 \<le> (h(a := d)) b" "(h(a := d)) b = (h(a := d)) b'" for b b'
  proof (cases "(h(a := d)) b = d")
    case True
    then show ?thesis using only [of b] only [of b'] that(2) by simp
  next
    case False
    have "(h(a := c)) b = (h(a := d)) b" "(h(a := c)) b' = (h(a := d)) b"
      using other [OF that(1) False, of b] other [OF that(1) False, of b'] that(2) by simp_all
    then show ?thesis using D(3) [of b b'] that(1) by simp
  qed
qed

lemma owned_close [owned]:
  assumes "owned_once (h(a := d)) k" "0 \<le> d" "c < 0"
  shows "owned_once (h(a := c)) (sys_close d k)"
proof (rule owned_onceI)
  note D = owned_onceD [OF assms(1)]
  have only: "b = a" if "(h(a := d)) b = d" for b
    by (rule sym, rule D(3)) (use assms(2) that in simp_all)
  have other: "(h(a := c)) b = e \<longleftrightarrow> (h(a := d)) b = e \<and> e \<noteq> d" if "0 \<le> e" for b e
  proof (cases "b = a")
    case True
    then show ?thesis using that assms(3) by auto
  next
    case False
    then have "(h(a := d)) b \<noteq> d" using only by blast
    with False show ?thesis by auto
  qed
  have "(h(a := d)) a = d" by simp
  then have "d \<in> open_fds k" unfolding D(2) using assms(2) by blast
  then show "\<not> bad_close (sys_close d k)" using D(1) by (simp add: sys_close_def)
  show "e \<in> open_fds (sys_close d k) \<longleftrightarrow> 0 \<le> e \<and> (\<exists>b. (h(a := c)) b = e)" for e
  proof -
    have "e \<in> open_fds (sys_close d k) \<longleftrightarrow> e \<in> open_fds k \<and> e \<noteq> d" by (simp add: sys_close_def)
    also have "\<dots> \<longleftrightarrow> 0 \<le> e \<and> (\<exists>b. (h(a := d)) b = e \<and> e \<noteq> d)" unfolding D(2) by blast
    also have "\<dots> \<longleftrightarrow> 0 \<le> e \<and> (\<exists>b. (h(a := c)) b = e)" using other [of e] by blast
    finally show ?thesis .
  qed
  show "b = b'" if "0 \<le> (h(a := c)) b" "(h(a := c)) b = (h(a := c)) b'" for b b'
  proof (rule D(3))
    have "(h(a := d)) b = (h(a := c)) b" "(h(a := d)) b' = (h(a := c)) b"
      using other [OF that(1), of b] other [OF that(1), of b'] that(2) by simp_all
    then show "0 \<le> (h(a := d)) b" "(h(a := d)) b = (h(a := d)) b'" using that(1) by simp_all
  qed
qed

lemma owned_move [owned]:
  assumes "owned_once (h(a := c, b := d)) k" "c < 0" "a \<noteq> b" "c' < 0"
  shows "owned_once (h(a := d, b := c')) k"
proof (rule owned_rename [OF assms(1), of "\<lambda>x. if x = a then b else if x = b then a else x"])
  show "(h(a := d, b := c')) x = e \<longleftrightarrow> (h(a := c, b := d)) (if x = a then b else if x = b then a else x) = e"
    if "0 \<le> e" for x e
    using that assms(2-4) by auto
qed (use assms(3) in simp)

section \<open>Operations of one object\<close>

text \<open>An operation is disciplined when, whatever the other objects hold, it keeps the object good and
  leaves every open descriptor with exactly one owner.  The laws compose, so a class is disciplined
  when its operations are.\<close>

definition disciplined :: "('o \<Rightarrow> bool) \<Rightarrow> ('o \<Rightarrow> int) \<Rightarrow> ('o \<times> kernel \<Rightarrow> 'o \<times> kernel) \<Rightarrow> bool" where
  "disciplined good fd_of f \<longleftrightarrow> (\<forall>h a x k. good x \<longrightarrow> owned_once (h(a := fd_of x)) k \<longrightarrow>
     good (fst (f (x, k))) \<and> owned_once (h(a := fd_of (fst (f (x, k))))) (snd (f (x, k))))"

lemma disciplinedI:
  assumes "\<And>h a x k x' k'. good x \<Longrightarrow> owned_once (h(a := fd_of x)) k \<Longrightarrow> f (x, k) = (x', k') \<Longrightarrow>
     good x' \<and> owned_once (h(a := fd_of x')) k'"
  shows "disciplined good fd_of f"
  unfolding disciplined_def
proof (intro allI impI)
  fix h a x k
  assume "good x" "owned_once (h(a := fd_of x)) k"
  from assms [OF this, of "fst (f (x, k))" "snd (f (x, k))"]
  show "good (fst (f (x, k))) \<and> owned_once (h(a := fd_of (fst (f (x, k))))) (snd (f (x, k)))" by simp
qed

lemma disciplinedD:
  assumes "disciplined good fd_of f" "good x" "owned_once (h(a := fd_of x)) k" "f (x, k) = (x', k')"
  shows "good x' \<and> owned_once (h(a := fd_of x')) k'"
  using assms(1) [unfolded disciplined_def, rule_format, OF assms(2,3)] assms(4) by simp

lemma disciplined_comp:
  assumes "disciplined good fd_of f" "disciplined good fd_of g"
  shows "disciplined good fd_of (\<lambda>x. g (f x))"
proof (rule disciplinedI)
  fix h a x k x' k'
  assume o: "good x" "owned_once (h(a := fd_of x)) k" and g: "g (f (x, k)) = (x', k')"
  obtain y l where f: "f (x, k) = (y, l)" by force
  from disciplinedD [OF assms(1) o f] disciplinedD [OF assms(2), of y h a l x' k'] g f
  show "good x' \<and> owned_once (h(a := fd_of x')) k'" by simp
qed

lemma disciplined_if:
  assumes "disciplined good fd_of f" "disciplined good fd_of g"
  shows "disciplined good fd_of (\<lambda>x. if c x then f x else g x)"
proof (rule disciplinedI)
  fix h a x k x' k'
  assume o: "good x" "owned_once (h(a := fd_of x)) k" and g: "(if c (x, k) then f (x, k) else g (x, k)) = (x', k')"
  show "good x' \<and> owned_once (h(a := fd_of x')) k'"
    using disciplinedD [OF assms(1) o] disciplinedD [OF assms(2) o] g by (cases "c (x, k)") simp_all
qed

lemma disciplined_id: "disciplined good fd_of (\<lambda>x. x)"
  by (rule disciplinedI) simp

text \<open>The contract of a class that owns a descriptor: all its operations, under the conditions \<open>ok\<close> on
  what the operating system returns.\<close>

locale descriptor_owner =
  fixes good :: "'o \<Rightarrow> bool" and fd_of :: "'o \<Rightarrow> int" and ok :: "'e \<Rightarrow> bool"
    and operate :: "'e \<Rightarrow> 'o \<times> kernel \<Rightarrow> 'o \<times> kernel"
  assumes operate_disciplined: "ok e \<Longrightarrow> disciplined good fd_of (operate e)"
begin

lemma operate_owned:
  "ok e \<Longrightarrow> good x \<Longrightarrow> owned_once (h(a := fd_of x)) k \<Longrightarrow> operate e (x, k) = (x', k') \<Longrightarrow>
     good x' \<and> owned_once (h(a := fd_of x')) k'"
  using disciplinedD [OF operate_disciplined] by blast

lemma fold_disciplined: "list_all ok es \<Longrightarrow> disciplined good fd_of (\<lambda>s. fold operate es s)"
proof (induction es)
  case Nil
  show ?case by (rule disciplinedI) simp
next
  case (Cons e es)
  then have "disciplined good fd_of (operate e)" "disciplined good fd_of (\<lambda>s. fold operate es s)"
    by (simp_all add: operate_disciplined)
  from disciplined_comp [OF this] show ?case by simp
qed

end

end
