(* ===== verification/UdpSocket.thy ===== *)
theory UdpSocket
  imports Config Descriptors
begin

text \<open>
  \<^verbatim>\<open>UdpSocket.hh\<close> and \<^verbatim>\<open>UdpSocket.cc\<close>: the owner of a UDP descriptor.  The operating system is not
  part of the repository: the results of its calls are the fields of the record \<open>os\<close> or arguments of
  the operation; the model keeps the set of descriptors the process has open, and whether \<^verbatim>\<open>close\<close> was
  ever called on a descriptor that was not.
\<close>

section \<open>State\<close>

record sockaddr_in =
  sin_family :: int
  sin_port :: u16
  sin_addr :: u32

definition AF_INET :: int where "AF_INET = 2"

definition no_address :: sockaddr_in where
  "no_address = \<lparr>sin_family = 0, sin_port = 0, sin_addr = 0\<rparr>"

record UdpSocket =
  fd :: int
  destination :: sockaddr_in
  hasDestination :: bool

definition new_UdpSocket :: UdpSocket where
  "new_UdpSocket = \<lparr>fd = -1, destination = no_address, hasDestination = False\<rparr>"

text \<open>\<^verbatim>\<open>socket\<close>, the two \<^verbatim>\<open>fcntl\<close> calls, \<^verbatim>\<open>bind\<close>, \<^verbatim>\<open>inet_pton\<close> and \<^verbatim>\<open>std::strerror(errno)\<close>.\<close>

record os =
  os_socket :: "int set \<Rightarrow> int"
  os_getfl :: "int \<Rightarrow> int"
  os_setfl :: "int \<Rightarrow> int"
  os_bind :: "int \<Rightarrow> u16 \<Rightarrow> int"
  os_pton :: "string \<Rightarrow> u32 option"
  os_strerror :: string

text \<open>\<^verbatim>\<open>recvfrom\<close>: the bytes written to the buffer, or \<^verbatim>\<open>errno\<close>.\<close>

datatype recvfrom = Received "u8 list" | Failed int

definition EAGAIN :: int where "EAGAIN = 11"
definition EWOULDBLOCK :: int where "EWOULDBLOCK = 11"

section \<open>Operations\<close>

text \<open>A member function works on its object and on the kernel's descriptors.\<close>

type_synonym sock_state = "UdpSocket \<times> kernel"

definition CreateSocket :: "os \<Rightarrow> (kernel, int) action" where
  "CreateSocket env k = (let d = os_socket env (open_fds k) in
     if d < 0 then (Throw (''socket failed: '' @ os_strerror env), k)
     else let k = sys_open d k in
       if os_getfl env d < 0 \<or> os_setfl env d < 0
       then (Throw (''fcntl O_NONBLOCK failed: '' @ os_strerror env), sys_close d k)
       else (Ok d, k))"

text \<open>The first statement of \<^verbatim>\<open>Bind\<close> and of \<^verbatim>\<open>SetDestination\<close>: \<^verbatim>\<open>if (fd_ < 0) fd_ = CreateSocket();\<close>\<close>

definition ensure_socket :: "os \<Rightarrow> (sock_state, unit) action" where
  "ensure_socket env sk = (if fd (fst sk) < 0
     then (case CreateSocket env (snd sk) of
         (Ok d, k) \<Rightarrow> (Ok (), (fst sk)\<lparr>fd := d\<rparr>, k)
       | (Throw e, k) \<Rightarrow> (Throw e, fst sk, k)
       | (Undefined, k) \<Rightarrow> (Undefined, fst sk, k))
     else (Ok (), sk))"

definition Bind :: "os \<Rightarrow> u16 \<Rightarrow> (sock_state, unit) action" where
  "Bind env port = act_bind (ensure_socket env) (\<lambda>_ sk.
     if os_bind env (fd (fst sk)) port < 0
     then (Throw (''bind UDP port '' @ to_dec (unat port) @ '' failed: '' @ os_strerror env), sk)
     else (Ok (), sk))"

definition SetDestination :: "os \<Rightarrow> string \<Rightarrow> u16 \<Rightarrow> (sock_state, unit) action" where
  "SetDestination env address port = act_bind (ensure_socket env) (\<lambda>_ (s, k).
     let s = s\<lparr>destination := \<lparr>sin_family = AF_INET, sin_port = port, sin_addr = 0\<rparr>\<rparr> in
     case os_pton env address of
       None \<Rightarrow> (Throw (''Invalid IPv4 address: '' @ address), s, k)
     | Some a \<Rightarrow> (Ok (), s\<lparr>destination := (destination s)\<lparr>sin_addr := a\<rparr>, hasDestination := True\<rparr>, k))"

text \<open>\<^verbatim>\<open>Receive\<close> gives the bytes it left in the caller's buffer, \<^verbatim>\<open>Send\<close> the datagram it handed to
  \<^verbatim>\<open>sendto\<close> (whose return value is an argument).\<close>

definition Receive :: "os \<Rightarrow> recvfrom \<Rightarrow> UdpSocket \<Rightarrow> u8 list option outcome" where
  "Receive env r s = throw_if (fd s < 0) ''Receive called on closed UDP socket''
     (case r of
       Received bs \<Rightarrow> Ok (Some bs)
     | Failed errno \<Rightarrow> if errno = EAGAIN \<or> errno = EWOULDBLOCK then Ok None
         else Throw (''recvfrom failed: '' @ os_strerror env))"

definition Send :: "os \<Rightarrow> int \<Rightarrow> u8 list \<Rightarrow> UdpSocket \<Rightarrow> (sockaddr_in \<times> u8 list) outcome" where
  "Send env sent bytes s = throw_if (fd s < 0 \<or> \<not> hasDestination s)
       ''Send called before UDP destination was configured''
     (throw_if (sent < 0 \<or> nat sent \<noteq> length bytes) (''sendto failed: '' @ os_strerror env)
       (Ok (destination s, bytes)))"

definition Close :: "sock_state \<Rightarrow> sock_state" where
  "Close sk = (let (s, k) = sk in
     if 0 \<le> fd s then (s\<lparr>fd := -1, hasDestination := False\<rparr>, sys_close (fd s) k)
     else (s\<lparr>hasDestination := False\<rparr>, k))"

text \<open>Move assignment between two objects; \<open>same\<close> is \<^verbatim>\<open>this == &other\<close>.\<close>

definition move_assign :: "bool \<Rightarrow> UdpSocket \<Rightarrow> UdpSocket \<Rightarrow> kernel \<Rightarrow> UdpSocket \<times> UdpSocket \<times> kernel" where
  "move_assign same this other k = (if same then (this, other, k)
     else let (this, k) = Close (this, k) in
       (this\<lparr>fd := fd other, destination := destination other, hasDestination := hasDestination other\<rparr>,
        other\<lparr>fd := -1, hasDestination := False\<rparr>, k))"

definition move_construct :: "UdpSocket \<Rightarrow> kernel \<Rightarrow> UdpSocket \<times> UdpSocket \<times> kernel" where
  "move_construct other k = move_assign False new_UdpSocket other k"

section \<open>A process that uses the class\<close>

text \<open>
  The objects of the process by name (\<open>None\<close>: not constructed), and every operation on them as a
  step.  Nothing is assumed about the order of the calls or about which of them fail.
\<close>

record process =
  objects :: "nat \<Rightarrow> UdpSocket option"
  kern :: kernel

inductive uses :: "os \<Rightarrow> process \<Rightarrow> process \<Rightarrow> bool" for env where
  construct: "objects p a = None \<Longrightarrow> uses env p (p\<lparr>objects := (objects p)(a \<mapsto> new_UdpSocket)\<rparr>)"
| move_new: "objects p a = None \<Longrightarrow> objects p b = Some o_b \<Longrightarrow> move_construct o_b (kern p) = (s, s', k) \<Longrightarrow>
    uses env p \<lparr>objects = (objects p)(a \<mapsto> s, b \<mapsto> s'), kern = k\<rparr>"
| move_to: "objects p a = Some o_a \<Longrightarrow> objects p b = Some o_b \<Longrightarrow> a \<noteq> b \<Longrightarrow>
    move_assign False o_a o_b (kern p) = (s, s', k) \<Longrightarrow>
    uses env p \<lparr>objects = (objects p)(a \<mapsto> s, b \<mapsto> s'), kern = k\<rparr>"
| bind: "objects p a = Some o_a \<Longrightarrow> Bind env port (o_a, kern p) = (r, s, k) \<Longrightarrow>
    uses env p \<lparr>objects = (objects p)(a \<mapsto> s), kern = k\<rparr>"
| set_destination: "objects p a = Some o_a \<Longrightarrow> SetDestination env ad port (o_a, kern p) = (r, s, k) \<Longrightarrow>
    uses env p \<lparr>objects = (objects p)(a \<mapsto> s), kern = k\<rparr>"
| close: "objects p a = Some o_a \<Longrightarrow> Close (o_a, kern p) = (s, k) \<Longrightarrow>
    uses env p \<lparr>objects = (objects p)(a \<mapsto> s), kern = k\<rparr>"
| destroy: "objects p a = Some o_a \<Longrightarrow> Close (o_a, kern p) = (s, k) \<Longrightarrow>
    uses env p \<lparr>objects = (objects p)(a := None), kern = k\<rparr>"

inductive_cases uses_cases: "uses env p p'"

definition start :: process where
  "start = \<lparr>objects = Map.empty, kern = \<lparr>open_fds = {}, bad_close = False\<rparr>\<rparr>"

definition held :: "process \<Rightarrow> nat \<Rightarrow> int" where
  "held p a = (case objects p a of None \<Rightarrow> - 1 | Some s \<Rightarrow> fd s)"

text \<open>The descriptors the kernel returns are not open already.\<close>

definition fresh_sockets :: "os \<Rightarrow> bool" where
  "fresh_sockets env \<longleftrightarrow> (\<forall>S. 0 \<le> os_socket env S \<longrightarrow> os_socket env S \<notin> S)"

section \<open>The operations are disciplined\<close>

lemma CreateSocket_owned:
  assumes "fresh_sockets env" "owned_once (h(a := c)) k" "c < 0" "CreateSocket env k = (r, k')"
  shows "case r of Ok d \<Rightarrow> 0 \<le> d \<and> owned_once (h(a := d)) k' | Throw e \<Rightarrow> owned_once (h(a := c)) k' | Undefined \<Rightarrow> False"
proof -
  let ?d = "os_socket env (open_fds k)"
  have "owned_once (h(a := ?d)) (sys_open ?d k)" if "0 \<le> ?d"
    using owned_open [OF assms(2,3) that] assms(1) that by (simp add: fresh_sockets_def)
  moreover from this have "owned_once (h(a := c)) (sys_close ?d (sys_open ?d k))" if "0 \<le> ?d"
    using owned_close [OF _ that assms(3)] that by blast
  ultimately show ?thesis
    using assms(2,4) by (auto simp: CreateSocket_def Let_def split: if_splits)
qed

lemma ensure_socket_owned:
  assumes "fresh_sockets env" "owned_once (h(a := fd s)) k" "ensure_socket env (s, k) = (r, s', k')"
  shows "owned_once (h(a := fd s')) k'"
  using assms(2,3) CreateSocket_owned [OF assms(1,2)]
  by (cases "CreateSocket env k") (auto simp: ensure_socket_def split: if_splits outcome.splits)

lemma Bind_disciplined:
  assumes "fresh_sockets env"
  shows "disciplined (\<lambda>_. True) fd (\<lambda>x. snd (Bind env port x))"
proof (rule disciplinedI)
  fix h :: "nat \<Rightarrow> int" and a and s s' :: UdpSocket and k k'
  assume o: "owned_once (h(a := fd s)) k" and b: "snd (Bind env port (s, k)) = (s', k')"
  obtain r s1 k1 where e: "ensure_socket env (s, k) = (r, s1, k1)" by (cases "ensure_socket env (s, k)") auto
  with b have "(s', k') = (s1, k1)" by (auto simp: Bind_def act_bind_def split: outcome.splits if_splits)
  with ensure_socket_owned [OF assms o e] show "True \<and> owned_once (h(a := fd s')) k'" by simp
qed

lemma SetDestination_disciplined:
  assumes "fresh_sockets env"
  shows "disciplined (\<lambda>_. True) fd (\<lambda>x. snd (SetDestination env ad port x))"
proof (rule disciplinedI)
  fix h :: "nat \<Rightarrow> int" and a and s s' :: UdpSocket and k k'
  assume o: "owned_once (h(a := fd s)) k" and b: "snd (SetDestination env ad port (s, k)) = (s', k')"
  obtain r s1 k1 where e: "ensure_socket env (s, k) = (r, s1, k1)" by (cases "ensure_socket env (s, k)") auto
  with b have "fd s' = fd s1" "k' = k1"
    by (auto simp: SetDestination_def act_bind_def Let_def split: outcome.splits option.splits)
  with ensure_socket_owned [OF assms o e] show "True \<and> owned_once (h(a := fd s')) k'" by simp
qed

lemma Close_disciplined: "disciplined (\<lambda>_. True) fd Close"
proof (rule disciplinedI)
  fix h :: "nat \<Rightarrow> int" and a and s s' :: UdpSocket and k k'
  assume o: "owned_once (h(a := fd s)) k" and c: "Close (s, k) = (s', k')"
  then show "True \<and> owned_once (h(a := fd s')) k'"
    using owned_close [OF o, of "- 1"] by (auto simp: Close_def split: if_splits)
qed

lemma Close_closed: "Close x = (s, k) \<Longrightarrow> fd s < 0"
  by (cases x) (auto simp: Close_def Let_def split: if_splits)

text \<open>The three operations that touch the descriptor, as one family.\<close>

datatype udp_op = DoBind u16 | DoSetDestination string u16 | DoClose

fun udp_operate :: "os \<times> udp_op \<Rightarrow> sock_state \<Rightarrow> sock_state" where
  "udp_operate (env, DoBind port) x = snd (Bind env port x)"
| "udp_operate (env, DoSetDestination ad port) x = snd (SetDestination env ad port x)"
| "udp_operate (env, DoClose) x = Close x"

lemma udp_operate_eqs:
  "udp_operate (env, DoBind port) = (\<lambda>x. snd (Bind env port x))"
  "udp_operate (env, DoSetDestination ad port) = (\<lambda>x. snd (SetDestination env ad port x))"
  "udp_operate (env, DoClose) = Close"
  by (rule ext; simp)+

interpretation udp_owner: descriptor_owner "\<lambda>_. True" fd "\<lambda>(env, _). fresh_sockets env" udp_operate
proof
  fix e :: "os \<times> udp_op"
  assume "case e of (env, _) \<Rightarrow> fresh_sockets env"
  moreover obtain env op where "e = (env, op)" by force
  ultimately show "disciplined (\<lambda>_. True) fd (udp_operate e)"
    by (cases op) (simp_all add: udp_operate_eqs Bind_disciplined SetDestination_disciplined Close_disciplined)
qed

section \<open>Ownership in a process\<close>

lemma held_update:
  "held \<lparr>objects = (objects p)(a \<mapsto> s), kern = k\<rparr> = (held p)(a := fd s)"
  "held (p\<lparr>objects := (objects p)(a \<mapsto> s)\<rparr>) = (held p)(a := fd s)"
  "held \<lparr>objects = (objects p)(a \<mapsto> s, b \<mapsto> t), kern = k\<rparr> = (held p)(a := fd s, b := fd t)"
  "held \<lparr>objects = (objects p)(a := None), kern = k\<rparr> = (held p)(a := - 1)"
  by (auto simp: held_def)

lemma held_object: "objects p a = Some s \<Longrightarrow> (held p)(a := fd s) = held p"
  "objects p a = None \<Longrightarrow> (held p)(a := - 1) = held p"
  by (auto simp: held_def)

lemma move_owned_once:
  assumes "owned_once (h(a := fd s, b := fd t)) k" "a \<noteq> b" "move_assign False s t k = (s', t', k')"
  shows "owned_once (h(a := fd s', b := fd t')) k'"
proof -
  obtain s1 k1 where c: "Close (s, k) = (s1, k1)" by force
  with assms(3) have e: "fd s' = fd t" "fd t' < 0" "k' = k1"
    by (auto simp: move_assign_def Let_def)
  have w: "(h(b := fd t))(a := x) = h(a := x, b := fd t)" for x by (rule fun_upd_twist) (use assms(2) in simp)
  have "owned_once ((h(b := fd t))(a := fd s)) k" unfolding w by (rule assms(1))
  from disciplinedD [OF Close_disciplined _ this c] have "owned_once (h(a := fd s1, b := fd t)) k1"
    unfolding w by simp
  from owned_move [OF this Close_closed [OF c] assms(2) e(2)] show ?thesis by (simp add: e)
qed

lemma operate_owned_once:
  assumes "fresh_sockets env" "owned_once (held p) (kern p)" "objects p a = Some s"
    and "udp_operate (env, op) (s, kern p) = (s', k')"
  shows "owned_once ((held p)(a := fd s')) k'"
proof -
  have "owned_once ((held p)(a := fd s)) (kern p)" using assms(2,3) by (simp add: held_object)
  then show ?thesis using udp_owner.operate_owned [of "(env, op)"] assms(1,4) by auto
qed

lemma uses_owned_once:
  assumes "fresh_sockets env" "uses env p p'" "owned_once (held p) (kern p)"
  shows "owned_once (held p') (kern p')"
  using assms(2)
proof cases
  case (construct a)
  then show ?thesis using assms(3) by (simp add: held_update new_UdpSocket_def held_object)
next
  case (move_new a b o_b s s' k)
  have n: "a \<noteq> b" using move_new by auto
  have "(held p)(a := fd new_UdpSocket, b := fd o_b) = held p"
    using move_new n by (auto simp: held_def new_UdpSocket_def)
  with move_owned_once [of "held p" a new_UdpSocket b o_b] show ?thesis
    using move_new n assms(3) by (auto simp: held_update move_construct_def)
next
  case (move_to a o_a b o_b s s' k)
  have "(held p)(a := fd o_a, b := fd o_b) = held p" using move_to by (auto simp: held_def)
  with move_owned_once [of "held p" a o_a b o_b] show ?thesis
    using move_to assms(3) by (auto simp: held_update)
next
  case (bind a o_a port r s k)
  with operate_owned_once [OF assms(1,3) bind(2), of "DoBind port" s k] show ?thesis by (simp add: held_update)
next
  case (set_destination a o_a ad port r s k)
  with operate_owned_once [OF assms(1,3) set_destination(2), of "DoSetDestination ad port" s k]
  show ?thesis by (simp add: held_update)
next
  case (close a o_a s k)
  with operate_owned_once [OF assms(1,3) close(2), of DoClose s k] show ?thesis by (simp add: held_update)
next
  case (destroy a o_a s k)
  with operate_owned_once [OF assms(1,3) destroy(2), of DoClose s k]
  show ?thesis by (auto simp: held_update intro: owned_none Close_closed)
qed

lemma reachable_owned_once:
  assumes "fresh_sockets env" "(uses env)\<^sup>*\<^sup>* start p"
  shows "owned_once (held p) (kern p)"
  using assms(2)
proof (induction rule: rtranclp_induct)
  case base
  then show ?case by (auto simp: start_def owned_once_def held_def)
next
  case (step p p')
  then show ?case using uses_owned_once [OF assms(1)] by blast
qed

section \<open>Sending and receiving\<close>

lemma SetDestination_Ok:
  assumes "SetDestination env ad port x = (Ok (), s, k)"
  shows "\<exists>a. os_pton env ad = Some a \<and> hasDestination s \<and>
    destination s = \<lparr>sin_family = AF_INET, sin_port = port, sin_addr = a\<rparr>"
  using assms unfolding SetDestination_def act_bind_eq_Ok
  by (auto simp: Let_def split: option.splits)

lemma ensure_socket_Ok:
  assumes "ensure_socket env x = (Ok u, s, k)"
  shows "0 \<le> fd s"
  using assms by (cases x; cases "CreateSocket env (snd x)")
    (auto simp: ensure_socket_def CreateSocket_def Let_def split: if_splits outcome.splits)

lemma SetDestination_Ok_fd:
  assumes "SetDestination env ad port x = (Ok (), s, k)"
  shows "0 \<le> fd s"
proof -
  obtain s0 where e: "ensure_socket env x = (Ok (), s0, k)" and "fd s = fd s0"
    using assms unfolding SetDestination_def act_bind_eq_Ok
    by (auto simp: Let_def split: option.splits)
  with ensure_socket_Ok [OF e] show ?thesis by simp
qed

lemma Bind_Ok_fd:
  assumes "Bind env port x = (Ok (), s, k)"
  shows "0 \<le> fd s"
  using assms unfolding Bind_def act_bind_eq_Ok by (auto split: if_splits dest: ensure_socket_Ok)

lemma Send_ready:
  "0 \<le> fd s \<Longrightarrow> hasDestination s \<Longrightarrow> Send env sent bs s =
     (if 0 \<le> sent \<and> nat sent = length bs then Ok (destination s, bs) else Throw (''sendto failed: '' @ os_strerror env))"
  by (auto simp: Send_def throw_if_def)

lemma Send_no_ub [no_ub]: "Send env sent bs s \<noteq> Undefined"
  by (simp add: Send_def no_ub)

lemma Receive_no_ub [no_ub]: "Receive env r s \<noteq> Undefined"
  by (auto simp: Receive_def no_ub split: recvfrom.splits)

section \<open>Properties\<close>

text \<open>C12: whatever sequence of constructions, binds, destinations, moves, closes and destructions a
  process performs, and whichever of them fail, no descriptor is closed twice, every open descriptor
  belongs to exactly one object and no other one is open: once all objects are gone nothing leaks.\<close>

theorem descriptors_owned_once:
  assumes "fresh_sockets env" "(uses env)\<^sup>*\<^sup>* start p"
  shows "\<not> bad_close (kern p) \<and>
    (\<forall>d. d \<in> open_fds (kern p) \<longleftrightarrow> 0 \<le> d \<and> (\<exists>!a. \<exists>s. objects p a = Some s \<and> fd s = d)) \<and>
    (objects p = Map.empty \<longrightarrow> open_fds (kern p) = {})"
proof -
  note D = owned_onceD [OF reachable_owned_once [OF assms]]
  have h: "(\<exists>s. objects p a = Some s \<and> fd s = d) \<longleftrightarrow> held p a = d" if "0 \<le> d" for a d
    using that by (auto simp: held_def split: option.splits)
  have "d \<in> open_fds (kern p) \<longleftrightarrow> 0 \<le> d \<and> (\<exists>!a. \<exists>s. objects p a = Some s \<and> fd s = d)" for d
    using D(2) [of d] D(3) h by (cases "0 \<le> d") auto
  moreover have "objects p = Map.empty \<longrightarrow> open_fds (kern p) = {}"
    using D(2) by (auto simp: held_def)
  ultimately show ?thesis using D(1) by blast
qed

definition sample_os :: os where
  "sample_os = \<lparr>os_socket = (\<lambda>S. if S \<subseteq> {3} then (if S = {} then 3 else 4) else -1), os_getfl = (\<lambda>_. 2),
     os_setfl = (\<lambda>_. 0), os_bind = (\<lambda>_ _. 0), os_pton = loopback_only, os_strerror = ''''\<rparr>"

theorem descriptors_owned_once_witness:
  "\<exists>p. (uses sample_os)\<^sup>*\<^sup>* start p \<and> open_fds (kern p) = {3} \<and> \<not> bad_close (kern p) \<and>
     (\<exists>!a. \<exists>s. objects p a = Some s \<and> fd s = 3)"
proof -
  define p1 where "p1 = start\<lparr>objects := (objects start)(0 \<mapsto> new_UdpSocket)\<rparr>"
  define p2 where "p2 = \<lparr>objects = (objects p1)(0 \<mapsto> new_UdpSocket\<lparr>fd := 3\<rparr>),
     kern = \<lparr>open_fds = {3}, bad_close = False\<rparr>\<rparr>"
  have "uses sample_os start p1" unfolding p1_def by (rule uses.construct) (simp add: start_def)
  moreover have "Bind sample_os 9002 (new_UdpSocket, kern p1) = (Ok (), new_UdpSocket\<lparr>fd := 3\<rparr>, kern p2)"
    by (simp add: p1_def p2_def start_def Bind_def act_bind_def ensure_socket_def CreateSocket_def sample_os_def
        new_UdpSocket_def sys_open_def)
  then have "uses sample_os p1 p2"
    using uses.bind [of p1 0 new_UdpSocket sample_os 9002] by (simp add: p1_def p2_def)
  ultimately have r: "(uses sample_os)\<^sup>*\<^sup>* start p2" by simp
  have f: "fresh_sockets sample_os" by (auto simp: fresh_sockets_def sample_os_def)
  have o: "open_fds (kern p2) = {3}" by (simp add: p2_def)
  have "\<not> bad_close (kern p2)" "\<exists>!a. \<exists>s. objects p2 a = Some s \<and> fd s = 3"
    using descriptors_owned_once [OF f r] o by blast+
  with r o show ?thesis by blast
qed

text \<open>After a successful \<^verbatim>\<open>SetDestination\<close> the socket holds an open descriptor and the parsed
  address, so \<^verbatim>\<open>Send\<close> fails only when \<^verbatim>\<open>sendto\<close> does, and otherwise hands over the whole datagram to
  that address; after \<^verbatim>\<open>Close\<close> it throws before any system call.\<close>

lemma send_after_destination:
  assumes "SetDestination env ad port x = (Ok (), s, k)"
  shows "\<exists>a. os_pton env ad = Some a \<and>
    (\<forall>sent bs. Send env sent bs s =
       (if 0 \<le> sent \<and> nat sent = length bs then Ok (\<lparr>sin_family = AF_INET, sin_port = port, sin_addr = a\<rparr>, bs)
        else Throw (''sendto failed: '' @ os_strerror env)) \<and>
      Send env sent bs (fst (Close (s, k))) = Throw ''Send called before UDP destination was configured'')"
proof -
  have "\<not> hasDestination (fst (Close (s, k)))" by (simp add: Close_def Let_def)
  then show ?thesis
    using SetDestination_Ok [OF assms] SetDestination_Ok_fd [OF assms]
    by (auto simp: Send_ready) (simp_all add: Send_def)
qed

text \<open>C39: \<^verbatim>\<open>SetDestination\<close> clears the address before it parses the new one and leaves
  \<^verbatim>\<open>hasDestination_\<close> as it was: a socket that had a destination and is given an invalid one throws, and
  afterwards still sends, to 0.0.0.0 at the new port.\<close>

theorem failed_destination_redirects:
  assumes "0 \<le> fd s" "hasDestination s" "os_pton env ad = None"
  shows "\<exists>s'. SetDestination env ad port (s, k) = (Throw (''Invalid IPv4 address: '' @ ad), s', k) \<and>
    Send env (int (length bs)) bs s' = Ok (\<lparr>sin_family = AF_INET, sin_port = port, sin_addr = 0\<rparr>, bs)"
  using assms by (simp add: SetDestination_def act_bind_def ensure_socket_def Let_def Send_ready)

theorem failed_destination_redirects_witness:
  "\<exists>s'. SetDestination sample_os ''localhost'' 9003
      (\<lparr>fd = 3, destination = no_address, hasDestination = True\<rparr>, kern start) =
      (Throw (''Invalid IPv4 address: '' @ ''localhost''), s', kern start) \<and>
    Send sample_os (int (length ([] :: u8 list))) [] s' = Ok (\<lparr>sin_family = AF_INET, sin_port = 9003, sin_addr = 0\<rparr>, [])"
  by (rule failed_destination_redirects) (simp_all add: sample_os_def loopback_only_def)

end
