(* ===== verification/Odometry.thy ===== *)
theory Odometry
  imports UdpSocket Quaternion
begin

text \<open>
  \<^verbatim>\<open>Odometry.hh\<close> and \<^verbatim>\<open>Odometry.cc\<close>: the conversion of Gazebo odometry (east-north-up world,
  forward-left-up body) to MAVLink's (north-east-down, forward-right-down), with its time-reset logic,
  and the manager that hands the latest sample from the Gazebo callback to the bridge loop.

  MAVLink's packing function is not part of the repository: it is an argument from the values of the
  message to the bytes that go to the socket.  Times are nanoseconds of \<^verbatim>\<open>steady_clock\<close>.
\<close>

section \<open>Samples\<close>

record OdometrySample =
  timeUsec :: u64
  position :: "double arr3"
  sample_orientation :: "double arr4"
  linearVelocity :: "double arr3"
  sample_angularVelocity :: "double arr3"

record ConvertedOdometry =
  out_timeUsec :: u64
  out_position :: "float32 arr3"
  out_orientation :: "float32 arr4"
  out_linearVelocity :: "float32 arr3"
  out_angularVelocity :: "float32 arr3"
  out_resetCounter :: u8

text \<open>\<^verbatim>\<open>std::inner_product\<close> accumulates from the left, starting at 0.\<close>

fun quaternionNorm :: "double arr4 \<Rightarrow> double" where
  "quaternionNorm (Arr4 w x y z) = std_sqrt ((((0 + w * w) + x * x) + y * y) + z * z)"

definition Finite :: "OdometrySample \<Rightarrow> bool" where
  "Finite s \<longleftrightarrow> arr3_all isfinite (position s) \<and> arr4_all isfinite (sample_orientation s) \<and>
     0 < quaternionNorm (sample_orientation s) \<and> arr3_all isfinite (linearVelocity s) \<and>
     arr3_all isfinite (sample_angularVelocity s)"

section \<open>The change of frame of an orientation\<close>

text \<open>
  The code is written once over the arithmetic it uses: literals, square root, the tests on the norm
  and the final \<^verbatim>\<open>static_cast<float>\<close>.  The program's function is the instance at \<^verbatim>\<open>double\<close>; the
  instance at the reals is what it computes when nothing is rounded.
\<close>

record ('a, 'b) arithmetic =
  num :: "rat \<Rightarrow> 'a"
  root :: "'a \<Rightarrow> 'a"
  finite_num :: "'a \<Rightarrow> bool"
  is_zero :: "'a \<Rightarrow> bool"
  as_float :: "'a \<Rightarrow> 'b"

datatype 'a mat3 = Mat3 (m00: 'a) (m01: 'a) (m02: 'a) (m10: 'a) (m11: 'a) (m12: 'a) (m20: 'a) (m21: 'a) (m22: 'a)

fun rotation_matrix :: "('a::{plus, minus, times}, 'b) arithmetic \<Rightarrow> 'a \<Rightarrow> 'a \<Rightarrow> 'a \<Rightarrow> 'a \<Rightarrow> 'a mat3" where
  "rotation_matrix A w x y z = (let one = num A 1; two = num A 2 in Mat3
     (one - two * (y * y + z * z)) (two * (x * y - z * w)) (two * (x * z + y * w))
     (two * (x * y + z * w)) (one - two * (x * x + z * z)) (two * (y * z - x * w))
     (two * (x * z - y * w)) (two * (y * z + x * w)) (one - two * (x * x + y * y)))"

fun change_frames :: "'a::uminus mat3 \<Rightarrow> 'a mat3" where
  "change_frames (Mat3 r00 r01 r02 r10 r11 r12 r20 r21 r22) = Mat3
     r10 (- r11) (- r12)
     r00 (- r01) (- r02)
     (- r20) r21 r22"

definition matrix_quaternion ::
  "('a::{plus, minus, times, inverse, ord, zero}, 'b) arithmetic \<Rightarrow> 'a mat3 \<Rightarrow> 'b arr4" where
  "matrix_quaternion A m = (let
     f = as_float A; one = num A 1; two = num A 2; quarter = num A (1 / 4);
     trace = m00 m + m11 m + m22 m in
     if 0 < trace then let s = root A (trace + one) * two in
       Arr4 (f (quarter * s)) (f ((m21 m - m12 m) / s)) (f ((m02 m - m20 m) / s)) (f ((m10 m - m01 m) / s))
     else if m11 m < m00 m \<and> m22 m < m00 m then let s = root A (one + m00 m - m11 m - m22 m) * two in
       Arr4 (f ((m21 m - m12 m) / s)) (f (quarter * s)) (f ((m01 m + m10 m) / s)) (f ((m02 m + m20 m) / s))
     else if m22 m < m11 m then let s = root A (one + m11 m - m00 m - m22 m) * two in
       Arr4 (f ((m02 m - m20 m) / s)) (f ((m01 m + m10 m) / s)) (f (quarter * s)) (f ((m12 m + m21 m) / s))
     else let s = root A (one + m22 m - m00 m - m11 m) * two in
       Arr4 (f ((m10 m - m01 m) / s)) (f ((m02 m + m20 m) / s)) (f ((m12 m + m21 m) / s)) (f (quarter * s)))"

fun enu_flu_to_ned_frd ::
  "('a::{plus, minus, times, inverse, ord, zero, uminus}, 'b::zero) arithmetic \<Rightarrow> 'a arr4 \<Rightarrow> 'b arr4" where
  "enu_flu_to_ned_frd A (Arr4 q0 q1 q2 q3) = (let
     norm = root A (q0 * q0 + q1 * q1 + q2 * q2 + q3 * q3) in
     if \<not> finite_num A norm \<or> is_zero A norm then Arr4 0 0 0 0
     else matrix_quaternion A (change_frames (rotation_matrix A (q0 / norm) (q1 / norm) (q2 / norm) (q3 / norm))))"

definition double_arithmetic :: "(double, float32) arithmetic" where
  "double_arithmetic = \<lparr>num = lit, root = std_sqrt, finite_num = isfinite, is_zero = (\<lambda>x. fp_eq x 0), as_float = to_float\<rparr>"

definition EnuFluToNedFrdQuaternion :: "double arr4 \<Rightarrow> float32 arr4" where
  "EnuFluToNedFrdQuaternion q = enu_flu_to_ned_frd double_arithmetic q"

definition real_arithmetic :: "(real, real) arithmetic" where
  "real_arithmetic = \<lparr>num = of_rat, root = sqrt, finite_num = (\<lambda>_. True), is_zero = (\<lambda>x. x = 0), as_float = (\<lambda>x. x)\<rparr>"

section \<open>The converter\<close>

record OdometryConverter =
  origin :: "double arr3 option"
  lastTimeUsec :: "u64 option"
  resetCounter :: u8

definition new_OdometryConverter :: OdometryConverter where
  "new_OdometryConverter = \<lparr>origin = None, lastTimeUsec = None, resetCounter = 0\<rparr>"

fun relative_position :: "double arr3 \<Rightarrow> double arr3 \<Rightarrow> float32 arr3" where
  "relative_position (Arr3 p0 p1 p2) (Arr3 o0 o1 o2) =
     Arr3 (to_float (p1 - o1)) (to_float (p0 - o0)) (to_float (- (p2 - o2)))"

fun frd_floats :: "double arr3 \<Rightarrow> float32 arr3" where
  "frd_floats (Arr3 x y z) = Arr3 (to_float x) (to_float (- y)) (to_float (- z))"

definition Convert_sample ::
  "OdometrySample \<Rightarrow> OdometryConverter \<Rightarrow> ConvertedOdometry option \<times> OdometryConverter" where
  "Convert_sample sample c = (if \<not> Finite sample then (None, c) else
     let c = (case lastTimeUsec c of
           Some t \<Rightarrow> if timeUsec sample < t then c\<lparr>resetCounter := resetCounter c + 1, origin := None\<rparr> else c
         | None \<Rightarrow> c);
       c = c\<lparr>lastTimeUsec := Some (timeUsec sample)\<rparr>;
       o_pos = (case origin c of None \<Rightarrow> position sample | Some p \<Rightarrow> p);
       c = c\<lparr>origin := Some o_pos\<rparr>
     in (Some \<lparr>out_timeUsec = timeUsec sample, out_position = relative_position (position sample) o_pos,
          out_orientation = EnuFluToNedFrdQuaternion (sample_orientation sample),
          out_linearVelocity = frd_floats (linearVelocity sample),
          out_angularVelocity = frd_floats (sample_angularVelocity sample),
          out_resetCounter = resetCounter c\<rparr>, c))"

section \<open>The manager\<close>

text \<open>The Gazebo message, as the accessors of its protobuf type return it: \<open>None\<close> is an absent
  submessage, \<open>sec\<close> is an \<^verbatim>\<open>int64\<close> and \<open>nsec\<close> an \<^verbatim>\<open>int32\<close>.\<close>

record Time = sec :: int  nsec :: int

record Odometry_msg =
  msg_stamp :: "Time option option"
  msg_pose :: "(double arr3 \<times> double arr4) option"
  msg_twist :: "(double arr3 \<times> double arr3) option"

datatype mav_frame = MAV_FRAME_LOCAL_NED | MAV_FRAME_BODY_FRD
datatype mav_estimator = MAV_ESTIMATOR_TYPE_NAIVE

text \<open>The arguments of \<^verbatim>\<open>mavlink_msg_odometry_pack\<close> after the system and component identifiers.\<close>

record odometry_args =
  oa_sample :: ConvertedOdometry
  oa_frame :: mav_frame
  oa_child_frame :: mav_frame
  oa_poseCovariance :: "float32 list"
  oa_velocityCovariance :: "float32 list"
  oa_estimator :: mav_estimator
  oa_quality :: int

text \<open>What the manager uses of its surroundings: MAVLink's packing and the results of \<^verbatim>\<open>sendto\<close>.\<close>

record odometry_env =
  oe_os :: os
  oe_pack :: "u8 \<Rightarrow> u8 \<Rightarrow> odometry_args \<Rightarrow> u8 list"
  oe_sendto :: "u8 list \<Rightarrow> int"

record OdometryManager =
  enabled :: bool
  odo_mavlink :: MavlinkConfig
  sample :: "OdometrySample option"
  sampleReceived :: int
  generation :: u64
  sentGeneration :: u64
  messages :: u64
  invalid :: u64
  converter :: OdometryConverter
  udp :: UdpSocket

definition kStaleAfter :: int where
  "kStaleAfter = 250000000"

definition new_OdometryManager ::
  "os \<Rightarrow> (string \<Rightarrow> bool) \<Rightarrow> OdometryConfig \<Rightarrow> MavlinkConfig \<Rightarrow> kernel \<Rightarrow> OdometryManager outcome \<times> kernel" where
  "new_OdometryManager env subscribe config mav k = (let
     st = \<lparr>enabled = odo_enabled config, odo_mavlink = mav, sample = None, sampleReceived = 0, generation = 0,
       sentGeneration = 0, messages = 0, invalid = 0, converter = new_OdometryConverter, udp = new_UdpSocket\<rparr> in
     if \<not> enabled st then (Ok st, k)
     else case SetDestination env (mav_address mav) (mav_port mav) (new_UdpSocket, k) of
         (Ok _, u, k) \<Rightarrow> if subscribe (odo_gazeboTopic config) then (Ok (st\<lparr>udp := u\<rparr>), k)
            else (Throw (''Failed to subscribe to odometry topic: '' @ odo_gazeboTopic config), snd (Close (u, k)))
       | (Throw e, u, k) \<Rightarrow> (Throw e, snd (Close (u, k)))
       | (Undefined, u, k) \<Rightarrow> (Undefined, k))"

definition stamp_usec :: "Time \<Rightarrow> u64" where
  "stamp_usec t = word_of_int (sec t) * 1000000 + word_of_int (nsec t) div 1000"

definition OnOdometry :: "int \<Rightarrow> Odometry_msg \<Rightarrow> OdometryManager \<Rightarrow> OdometryManager" where
  "OnOdometry now msg st = (case (msg_stamp msg, msg_pose msg, msg_twist msg) of
       (Some (Some stamp), Some (pos, quat), Some (lin, ang)) \<Rightarrow>
         if sec stamp < 0 \<or> nsec stamp < 0 \<or> 1000000000 \<le> nsec stamp then st
         else let next = \<lparr>timeUsec = stamp_usec stamp, position = pos, sample_orientation = quat,
             linearVelocity = lin, sample_angularVelocity = ang\<rparr> in
           st\<lparr>sample := Some next, sampleReceived := now, generation := generation st + 1\<rparr>
     | _ \<Rightarrow> st)"

definition covariance_unknown :: "float32 list" where
  "covariance_unknown = NaN # replicate 20 (Fin 0)"

definition odometry_message :: "ConvertedOdometry \<Rightarrow> odometry_args" where
  "odometry_message converted = \<lparr>oa_sample = converted, oa_frame = MAV_FRAME_LOCAL_NED,
     oa_child_frame = MAV_FRAME_BODY_FRD, oa_poseCovariance = covariance_unknown,
     oa_velocityCovariance = covariance_unknown, oa_estimator = MAV_ESTIMATOR_TYPE_NAIVE, oa_quality = 0\<rparr>"

text \<open>\<^verbatim>\<open>Update\<close> returns the datagram it sent, if any.\<close>

definition odometry_Update :: "odometry_env \<Rightarrow> int \<Rightarrow> (OdometryManager, (sockaddr_in \<times> u8 list) option) action" where
  "odometry_Update env now st = (if \<not> enabled st then (Ok None, st) else
     case sample st of
       None \<Rightarrow> (Ok None, st)
     | Some next \<Rightarrow>
         if generation st = sentGeneration st \<or> kStaleAfter < now - sampleReceived st then (Ok None, st)
         else let st = st\<lparr>sentGeneration := generation st\<rparr>;
             (converted, c) = Convert_sample next (converter st);
             st = st\<lparr>converter := c\<rparr> in
           case converted of
             None \<Rightarrow> (Ok None, st\<lparr>invalid := invalid st + 1\<rparr>)
           | Some out \<Rightarrow>
               let bytes = oe_pack env (mav_systemId (odo_mavlink st)) (mav_componentId (odo_mavlink st)) (odometry_message out) in
               case Send (oe_os env) (oe_sendto env bytes) bytes (udp st) of
                 Ok d \<Rightarrow> (Ok (Some d), st\<lparr>messages := messages st + 1\<rparr>)
               | Throw e \<Rightarrow> (Throw e, st)
               | Undefined \<Rightarrow> (Undefined, st))"

section \<open>Time stamps\<close>

lemma stamp_usec_value:
  assumes "0 \<le> sec t" "sec t < 18446744073709" "0 \<le> nsec t" "nsec t < 1000000000"
  shows "uint (stamp_usec t) = sec t * 1000000 + nsec t div 1000"
proof -
  have "uint (word_of_int (nsec t) div 1000 :: u64) = nsec t div 1000"
    using assms by (simp add: uint_div_distrib uint_word_of_int take_bit_int_eq_self unsigned_of_int)
  moreover have "nsec t div 1000 < 1000000" using assms by (simp add: div_less_iff_less_mult)
  ultimately show ?thesis
    using assms unfolding stamp_usec_def
    by (simp add: uint_word_ariths unsigned_of_int take_bit_int_eq_self)
qed

section \<open>The time-reset logic\<close>

text \<open>Feeding samples one after the other.\<close>

fun feed :: "OdometrySample list \<Rightarrow> OdometryConverter \<Rightarrow> OdometryConverter" where
  "feed [] c = c"
| "feed (s # ss) c = feed ss (snd (Convert_sample s c))"

text \<open>The specification: the number of times the clock of a list of samples runs backwards.\<close>

fun backward :: "OdometrySample list \<Rightarrow> nat" where
  "backward (s # t # ss) = (if timeUsec t < timeUsec s then 1 else 0) + backward (t # ss)"
| "backward _ = 0"

lemma backward_snoc:
  "ss \<noteq> [] \<Longrightarrow> backward (ss @ [s]) = backward ss + (if timeUsec s < timeUsec (last ss) then 1 else 0)"
  by (induction ss rule: backward.induct) auto

lemma feed_append: "feed (xs @ ys) c = feed ys (feed xs c)"
  by (induction xs arbitrary: c) simp_all

lemma feed_filter: "feed ss c = feed (filter Finite ss) c"
  by (induction ss arbitrary: c) (auto simp: Convert_sample_def)

text \<open>\<open>tracks ss c\<close>: what the converter's state says about the valid samples seen so far.\<close>

definition tracks :: "OdometrySample list \<Rightarrow> OdometryConverter \<Rightarrow> bool" where
  "tracks ss c \<longleftrightarrow> resetCounter c = word_of_nat (backward ss) \<and>
     (if ss = [] then c = new_OdometryConverter else lastTimeUsec c = Some (timeUsec (last ss)) \<and>
       (\<exists>old run. ss = old @ run \<and> run \<noteq> [] \<and> sorted_wrt (\<le>) (map timeUsec run) \<and>
          (old \<noteq> [] \<longrightarrow> timeUsec (hd run) < timeUsec (last old)) \<and> origin c = Some (position (hd run))))"

lemma tracksI:
  assumes "ss = old @ run" "run \<noteq> []" "sorted_wrt (\<le>) (map timeUsec run)"
    and "old \<noteq> [] \<Longrightarrow> timeUsec (hd run) < timeUsec (last old)" "origin c = Some (position (hd run))"
    and "lastTimeUsec c = Some (timeUsec (last ss))" "resetCounter c = word_of_nat (backward ss)"
  shows "tracks ss c"
  unfolding tracks_def using assms by auto

lemma sorted_le_last: "sorted_wrt (\<le>) xs \<Longrightarrow> x \<in> set xs \<Longrightarrow> x \<le> last (xs :: 'a::order list)"
  by (induction xs) (auto split: if_splits)

lemma tracks_step:
  assumes "tracks ss c" "Finite s"
  shows "tracks (ss @ [s]) (snd (Convert_sample s c))"
proof (cases "ss = []")
  case True
  with assms have c: "c = new_OdometryConverter" by (simp add: tracks_def)
  show ?thesis
    by (rule tracksI [where old = "[]" and run = "[s]"])
      (use assms(2) True in \<open>simp_all add: Convert_sample_def c new_OdometryConverter_def Let_def\<close>)
next
  case False
  with assms obtain old run where t: "lastTimeUsec c = Some (timeUsec (last ss))"
    and ss: "ss = old @ run" "run \<noteq> []" "sorted_wrt (\<le>) (map timeUsec run)"
      "old \<noteq> [] \<longrightarrow> timeUsec (hd run) < timeUsec (last old)"
    and o: "origin c = Some (position (hd run))" and r: "resetCounter c = word_of_nat (backward ss)"
    by (auto simp: tracks_def)
  show ?thesis
  proof (cases "timeUsec s < timeUsec (last ss)")
    case earlier: True
    show ?thesis
      by (rule tracksI [where old = ss and run = "[s]"])
        (use assms(2) False earlier t r in \<open>simp_all add: Convert_sample_def Let_def backward_snoc\<close>)
  next
    case forth: False
    have "x \<le> timeUsec s" if "x \<in> set (map timeUsec run)" for x
    proof -
      from sorted_le_last [OF ss(3) that] have "x \<le> timeUsec (last run)" using ss(2) by (simp add: last_map)
      with forth ss(1,2) show ?thesis by (simp add: not_less)
    qed
    then have "sorted_wrt (\<le>) (map timeUsec (run @ [s]))" using ss(3) by (simp add: sorted_wrt_append)
    moreover have "backward (ss @ [s]) = backward ss" using False forth by (simp add: backward_snoc)
    ultimately show ?thesis
      by (intro tracksI [where old = old and run = "run @ [s]"])
        (use assms(2) forth t r o ss in \<open>simp_all add: Convert_sample_def Let_def\<close>)
  qed
qed

lemma tracks_feed: "tracks (filter Finite ss) (feed ss new_OdometryConverter)"
proof (induction ss rule: rev_induct)
  case Nil
  then show ?case by (simp add: tracks_def new_OdometryConverter_def)
next
  case (snoc s ss)
  show ?case
  proof (cases "Finite s")
    case True
    with tracks_step [OF snoc True] show ?thesis by (simp add: feed_append)
  next
    case False
    with snoc show ?thesis by (simp add: feed_append Convert_sample_def)
  qed
qed

section \<open>The change of frame over the reals\<close>

lemma real_arithmetic_simps [simp]:
  "num real_arithmetic = of_rat" "root real_arithmetic = sqrt" "finite_num real_arithmetic x"
  "is_zero real_arithmetic x \<longleftrightarrow> x = 0" "as_float real_arithmetic x = x"
  by (simp_all add: real_arithmetic_def)

lemma root_of_square: "sqrt (4 * (k * k)) * 2 = 4 * \<bar>k\<bar>" for k :: real
  by (simp add: real_sqrt_mult)

lemma column_ratio: "k \<noteq> 0 \<Longrightarrow> 4 * (k * j) / (4 * \<bar>k\<bar>) = sgn k * j" for k j :: real
  by (cases "0 < k") (simp_all add: sgn_if)

text \<open>A column of the matrix \<open>4 q q\<^sup>T\<close>, divided by the root of its diagonal entry, is the quaternion up
  to its sign, whichever non-zero component the branch picked.\<close>

lemma up_to_sign:
  fixes a b c d :: real
  shows "sgn k = 1 \<or> sgn k = - 1 \<Longrightarrow> Arr4 (sgn k * a) (sgn k * b) (sgn k * c) (sgn k * d) \<in> {Arr4 a b c d, qneg (Arr4 a b c d)}"
  by auto

lemma abs_sgn_mult: "1 / 4 * (4 * \<bar>k\<bar>) = sgn k * k" for k :: real
  by (simp add: abs_sgn)

lemma matrix_quaternion_inverts:
  fixes a b c d :: real
  assumes unit: "a * a + b * b + c * c + d * d = 1"
  shows "matrix_quaternion real_arithmetic (rotation_matrix real_arithmetic a b c d) \<in> {Arr4 a b c d, qneg (Arr4 a b c d)}"
proof -
  let ?m = "rotation_matrix real_arithmetic a b c d"
  have diag: "m00 ?m + m11 ?m + m22 ?m + 1 = 4 * (a * a)" "1 + m00 ?m - m11 ?m - m22 ?m = 4 * (b * b)"
    "1 + m11 ?m - m00 ?m - m22 ?m = 4 * (c * c)" "1 + m22 ?m - m00 ?m - m11 ?m = 4 * (d * d)"
    using unit by (simp_all add: algebra_simps)
  have off: "m21 ?m - m12 ?m = 4 * (a * b)" "m02 ?m - m20 ?m = 4 * (a * c)" "m10 ?m - m01 ?m = 4 * (a * d)"
    "m01 ?m + m10 ?m = 4 * (b * c)" "m02 ?m + m20 ?m = 4 * (b * d)" "m12 ?m + m21 ?m = 4 * (c * d)"
    by (simp_all add: algebra_simps)
  have sg: "sgn k = 1 \<or> sgn k = - 1" if "k \<noteq> 0" for k :: real using that by (simp add: sgn_if)
  have one: "real_of_rat 1 = 1" "real_of_rat 2 = 2" "real_of_rat (1 / 4) = 1 / 4"
    by (simp_all add: of_rat_divide)
  have sq: "0 \<le> a * a" "0 \<le> b * b" "0 \<le> c * c" "0 \<le> d * d" by simp_all
  consider (a) "0 < m00 ?m + m11 ?m + m22 ?m"
    | (b) "\<not> 0 < m00 ?m + m11 ?m + m22 ?m" "m11 ?m < m00 ?m \<and> m22 ?m < m00 ?m"
    | (c) "\<not> 0 < m00 ?m + m11 ?m + m22 ?m" "\<not> (m11 ?m < m00 ?m \<and> m22 ?m < m00 ?m)" "m22 ?m < m11 ?m"
    | (d) "\<not> 0 < m00 ?m + m11 ?m + m22 ?m" "\<not> (m11 ?m < m00 ?m \<and> m22 ?m < m00 ?m)" "\<not> m22 ?m < m11 ?m"
    by blast
  then show ?thesis
  proof cases
    case a
    then have "0 < a * a" using diag(1) by linarith
    then have k: "a \<noteq> 0" by auto
    have "matrix_quaternion real_arithmetic ?m = Arr4 (sgn a * a) (sgn a * b) (sgn a * c) (sgn a * d)"
      using a by (simp only: matrix_quaternion_def Let_def real_arithmetic_simps one if_True diag off
          root_of_square abs_sgn_mult column_ratio [OF k])
    then show ?thesis using up_to_sign [OF sg [OF k]] by simp
  next
    case b
    then have "0 < b * b" using diag sq by linarith
    then have k: "b \<noteq> 0" by auto
    have "matrix_quaternion real_arithmetic ?m = Arr4 (sgn b * a) (sgn b * b) (sgn b * c) (sgn b * d)"
      using b by (simp only: matrix_quaternion_def Let_def real_arithmetic_simps one simp_thms if_True if_False diag off
          root_of_square abs_sgn_mult column_ratio [OF k] mult.commute [of a b])
    then show ?thesis using up_to_sign [OF sg [OF k]] by simp
  next
    case c
    then have "0 < c * c" using diag sq by linarith
    then have k: "c \<noteq> 0" by auto
    have "matrix_quaternion real_arithmetic ?m = Arr4 (sgn c * a) (sgn c * b) (sgn c * c) (sgn c * d)"
      using c by (simp only: matrix_quaternion_def Let_def real_arithmetic_simps one simp_thms if_True if_False diag off
          root_of_square abs_sgn_mult column_ratio [OF k] mult.commute [of a c] mult.commute [of b c])
    then show ?thesis using up_to_sign [OF sg [OF k]] by simp
  next
    case d
    then have "0 < d * d" using diag sq by linarith
    then have k: "d \<noteq> 0" by auto
    have "matrix_quaternion real_arithmetic ?m = Arr4 (sgn d * a) (sgn d * b) (sgn d * c) (sgn d * d)"
      using d by (simp only: matrix_quaternion_def Let_def real_arithmetic_simps one simp_thms if_True if_False diag off
          root_of_square abs_sgn_mult column_ratio [OF k] mult.commute [of a d] mult.commute [of b d] mult.commute [of c d])
    then show ?thesis using up_to_sign [OF sg [OF k]] by simp
  qed
qed

text \<open>The two exchanges of axes are the half turns \<open>(0, 1, 1, 0) / sqrt 2\<close> of the world and
  \<open>(0, 1, 0, 0)\<close> of the body.\<close>

fun scale4 :: "real \<Rightarrow> real arr4 \<Rightarrow> real arr4" where
  "scale4 k (Arr4 w x y z) = Arr4 (k * w) (k * x) (k * y) (k * z)"

lemma frames_quaternion:
  fixes w x y z :: real
  assumes "w * w + x * x + y * y + z * z = 1"
  defines "h \<equiv> 1 / sqrt 2"
  shows "change_frames (rotation_matrix real_arithmetic w x y z) =
      rotation_matrix real_arithmetic (h * (w + z)) (h * (x + y)) (h * (x - y)) (h * (w - z))"
    and "(h * (w + z)) * (h * (w + z)) + (h * (x + y)) * (h * (x + y)) + (h * (x - y)) * (h * (x - y)) +
      (h * (w - z)) * (h * (w - z)) = 1"
proof -
  have h: "(h * p) * (h * q) = p * q / 2" for p q by (simp add: h_def)
  show "(h * (w + z)) * (h * (w + z)) + (h * (x + y)) * (h * (x + y)) + (h * (x - y)) * (h * (x - y)) +
      (h * (w - z)) * (h * (w - z)) = 1"
    unfolding h using assms(1) by (simp add: field_simps)
  show "change_frames (rotation_matrix real_arithmetic w x y z) =
      rotation_matrix real_arithmetic (h * (w + z)) (h * (x + y)) (h * (x - y)) (h * (w - z))"
    unfolding rotation_matrix.simps Let_def h change_frames.simps mat3.inject real_arithmetic_simps
    using assms(1) by (intro conjI; simp add: field_simps; algebra?)
qed

lemma qrot_frames:
  fixes w x y z :: real
  defines "h \<equiv> 1 / sqrt 2"
  shows "qrot (Arr4 (h * (w + z)) (h * (x + y)) (h * (x - y)) (h * (w - z))) v =
    swap_enu_ned (qrot (Arr4 w x y z) (flip_yz v))"
proof -
  have h: "(h * p) * (h * q) = p * q / 2" for p q by (simp add: h_def)
  show ?thesis
    by (cases v) (simp only: qrot_entries h flip_yz.simps swap_enu_ned.simps arr3.inject; simp add: field_simps)
qed

fun scale3 :: "real \<Rightarrow> real arr3 \<Rightarrow> real arr3" where
  "scale3 k (Arr3 x y z) = Arr3 (k * x) (k * y) (k * z)"

lemma qrot_scaled:
  assumes "n \<noteq> 0"
  shows "qrot (Arr4 w x y z) v = scale3 (n * n) (qrot (Arr4 (w / n) (x / n) (y / n) (z / n)) v)"
  using assms by (cases v) (simp add: qrot_entries field_simps)

lemma swap_scale3: "swap_enu_ned (scale3 k v) = scale3 k (swap_enu_ned v)"
  by (cases v) simp

lemma real_frames:
  fixes q :: "real arr4"
  assumes "q \<noteq> Arr4 0 0 0 0"
  shows "qnorm2 (enu_flu_to_ned_frd real_arithmetic q) = 1"
    and "swap_enu_ned (qrot q (flip_yz v)) = scale3 (qnorm2 q) (qrot (enu_flu_to_ned_frd real_arithmetic q) v)"
proof -
  obtain w x y z where q: "q = Arr4 w x y z" by (cases q)
  define n where "n = sqrt (w * w + x * x + y * y + z * z)"
  have sq: "0 \<le> w * w" "0 \<le> x * x" "0 \<le> y * y" "0 \<le> z * z" by simp_all
  have "w * w + x * x + y * y + z * z \<noteq> 0"
  proof
    assume "w * w + x * x + y * y + z * z = 0"
    then have "w * w = 0" "x * x = 0" "y * y = 0" "z * z = 0" using sq by linarith+
    with assms q show False by simp
  qed
  then have n2: "n * n = w * w + x * x + y * y + z * z" and n: "n \<noteq> 0"
    using sq by (simp_all add: n_def)
  have "w / n * (w / n) + x / n * (x / n) + y / n * (y / n) + z / n * (z / n) = (w * w + x * x + y * y + z * z) / (n * n)"
    by (simp add: add_divide_distrib)
  then have u: "w / n * (w / n) + x / n * (x / n) + y / n * (y / n) + z / n * (z / n) = 1"
    unfolding n2 [symmetric] using n by simp
  let ?p = "Arr4 (1 / sqrt 2 * (w / n + z / n)) (1 / sqrt 2 * (x / n + y / n)) (1 / sqrt 2 * (x / n - y / n))
      (1 / sqrt 2 * (w / n - z / n))"
  have e: "enu_flu_to_ned_frd real_arithmetic q = matrix_quaternion real_arithmetic
      (change_frames (rotation_matrix real_arithmetic (w / n) (x / n) (y / n) (z / n)))"
    using n unfolding q n_def [symmetric] enu_flu_to_ned_frd.simps Let_def real_arithmetic_simps by simp
  have p: "enu_flu_to_ned_frd real_arithmetic q \<in> {?p, qneg ?p}"
    unfolding e frames_quaternion(1) [OF u] by (rule matrix_quaternion_inverts [OF frames_quaternion(2) [OF u]])
  have n1: "qnorm2 ?p = 1" unfolding qnorm2.simps by (rule frames_quaternion(2) [OF u])
  with p show "qnorm2 (enu_flu_to_ned_frd real_arithmetic q) = 1" by (elim insertE emptyE) (simp_all only: qneg_neg)
  have "qrot (enu_flu_to_ned_frd real_arithmetic q) v = qrot ?p v"
    using p by (elim insertE emptyE) (simp_all only: qrot_neg)
  also have "\<dots> = swap_enu_ned (qrot (Arr4 (w / n) (x / n) (y / n) (z / n)) (flip_yz v))"
    by (rule qrot_frames)
  finally show "swap_enu_ned (qrot q (flip_yz v)) = scale3 (qnorm2 q) (qrot (enu_flu_to_ned_frd real_arithmetic q) v)"
    unfolding q by (simp only: qrot_scaled [OF n, of w x y z] swap_scale3 qnorm2.simps n2)
qed

section \<open>The hand-over to the bridge loop\<close>

definition odometry_fresh :: "OdometryManager \<Rightarrow> bool" where
  "odometry_fresh st \<longleftrightarrow> generation st \<noteq> sentGeneration st"

text \<open>A poll consumes the sample when it marks the current generation as sent.\<close>

definition odometry_poll :: "odometry_env \<Rightarrow> int \<Rightarrow> OdometryManager \<Rightarrow> bool \<times> OdometryManager" where
  "odometry_poll env now st = (let st' = snd (odometry_Update env now st) in (sentGeneration st' \<noteq> sentGeneration st, st'))"

lemma odometry_Update_state:
  assumes "odometry_Update env now st = (r, st')"
  shows "generation st' = generation st" "udp st' = udp st" "enabled st' = enabled st"
    and "sentGeneration st' = sentGeneration st \<and> r = Ok None \<and> st' = st \<or>
      sentGeneration st' = generation st \<and> generation st \<noteq> sentGeneration st \<and> now - sampleReceived st \<le> kStaleAfter"
  using assms unfolding odometry_Update_def
  by (auto simp: Let_def split: if_splits option.splits prod.splits outcome.splits)

interpretation odometry_slot: latest_slot odometry_fresh "\<lambda>(now, msg). OnOdometry now msg" "odometry_poll env"
proof
  fix t s s'
  assume a: "odometry_poll env t s = (True, s')"
  obtain r where u: "odometry_Update env t s = (r, s')" "sentGeneration s' \<noteq> sentGeneration s"
    using a by (cases "odometry_Update env t s") (auto simp: odometry_poll_def Let_def)
  from odometry_Update_state(4) [OF u(1)] u(2) show "odometry_fresh s" by (auto simp: odometry_fresh_def)
next
  fix t s c s'
  assume a: "odometry_poll env t s = (c, s')" "c \<or> \<not> odometry_fresh s"
  obtain r where u: "odometry_Update env t s = (r, s')" "c \<longleftrightarrow> sentGeneration s' \<noteq> sentGeneration s"
    using a(1) by (cases "odometry_Update env t s") (auto simp: odometry_poll_def Let_def)
  from odometry_Update_state(1,4) [OF u(1)] u(2) a(2) show "\<not> odometry_fresh s'"
    by (auto simp: odometry_fresh_def)
qed

lemma odometry_Update_throws:
  assumes "odometry_Update env now st = (Throw e, st')" "0 \<le> fd (udp st)" "hasDestination (udp st)"
  shows "e = ''sendto failed: '' @ os_strerror (oe_os env)"
  using assms unfolding odometry_Update_def
  by (auto simp: Let_def Send_ready split: if_splits option.splits prod.splits outcome.splits)

lemma odometry_no_ub: "fst (odometry_Update env now st) \<noteq> Undefined"
  by (auto simp: odometry_Update_def Let_def no_ub split: option.splits prod.splits outcome.splits)

lemma odometry_ready:
  assumes "new_OdometryManager env subscribe config mav k = (Ok st, k')"
  shows "enabled st = odo_enabled config" and "enabled st \<longrightarrow> 0 \<le> fd (udp st) \<and> hasDestination (udp st)"
    and "generation st = sentGeneration st" and "odo_mavlink st = mav"
proof -
  have d: "0 \<le> fd u \<and> hasDestination u"
    if "SetDestination env (mav_address mav) (mav_port mav) (new_UdpSocket, k) = (Ok x, u, k'')" for x u k''
    using that SetDestination_Ok SetDestination_Ok_fd by (cases x) blast
  show "enabled st = odo_enabled config" "enabled st \<longrightarrow> 0 \<le> fd (udp st) \<and> hasDestination (udp st)"
    "generation st = sentGeneration st" "odo_mavlink st = mav"
    using assms d unfolding new_OdometryManager_def
    by (auto simp: Let_def split: if_splits prod.splits outcome.splits)
qed

lemma std_sqrt_not_pos: "\<not> 0 < x \<Longrightarrow> x \<noteq> NaN \<Longrightarrow> \<not> 0 < std_sqrt x"
  by (cases x) (auto simp: std_sqrt_def zero_fp_def less_fp_def)

lemma zero_position:
  "arr3_all isfinite p \<Longrightarrow> relative_position p p = Arr3 (Fin 0) (Fin 0) NZero"
  by (cases p) (simp add: sub_self zero_fp_def uminus_fp_def rnd32_exact)

section \<open>Properties\<close>

text \<open>C18: the converter's state after any list of samples: invalid samples leave no trace, the reset
  counter is the number of times the clock of the valid ones ran backwards (modulo 256), and the
  origin is the position of the first sample of the current epoch, the samples since the clock last
  ran backwards.\<close>

theorem odometry_epochs:
  fixes ss
  defines "valid \<equiv> filter Finite ss" and "c \<equiv> feed ss new_OdometryConverter"
  shows "resetCounter c = word_of_nat (backward valid) \<and>
    (valid \<noteq> [] \<longrightarrow> lastTimeUsec c = Some (timeUsec (last valid)) \<and>
      (\<exists>old epoch. valid = old @ epoch \<and> epoch \<noteq> [] \<and> sorted_wrt (\<le>) (map timeUsec epoch) \<and>
         (old \<noteq> [] \<longrightarrow> timeUsec (hd epoch) < timeUsec (last old)) \<and> origin c = Some (position (hd epoch))))"
  using tracks_feed [of ss] unfolding valid_def c_def tracks_def by simp

definition sample_at :: "u64 \<Rightarrow> double arr3 \<Rightarrow> OdometrySample" where
  "sample_at t p = \<lparr>timeUsec = t, position = p, sample_orientation = Arr4 1 0 0 0, linearVelocity = Arr3 0 0 0,
     sample_angularVelocity = Arr3 0 0 0\<rparr>"

lemma unit_norm: "quaternionNorm (Arr4 1 0 0 0) = Fin 1"
proof -
  have "std_sqrt (Fin 1) = Fin 1" by code_simp
  moreover have "(((0 + 1 * 1) + 0 * 0) + 0 * 0) + 0 * 0 = Fin 1"
    by (simp add: zero_fp_def one_fp_def plus_fp_def times_fp_def fp_mul_def Let_def rnd_signed_def d.rd_fix
        rnd_exact on_grid_eval)
  ultimately show ?thesis by simp
qed

lemma Finite_sample_at: "arr3_all isfinite p \<Longrightarrow> Finite (sample_at t p)"
  by (simp add: Finite_def sample_at_def unit_norm del: quaternionNorm.simps) (simp add: zero_fp_def one_fp_def)

theorem odometry_epochs_witness:
  "let c = feed [sample_at 5 (Arr3 0 0 0), sample_at 9 (Arr3 1 0 0), sample_at 3 (Arr3 0 1 0)] new_OdometryConverter in
     resetCounter c = 1 \<and> lastTimeUsec c = Some 3"
proof -
  let ?ss = "[sample_at 5 (Arr3 0 0 0), sample_at 9 (Arr3 1 0 0), sample_at 3 (Arr3 0 1 0)]"
  have "filter Finite ?ss = ?ss" by (simp add: Finite_sample_at zero_fp_def one_fp_def)
  moreover have "timeUsec (sample_at t p) = t" for t p by (simp add: sample_at_def)
  ultimately show ?thesis using odometry_epochs [of ?ss] by (simp add: Let_def)
qed

text \<open>The first valid sample of an epoch (the very first one, or one whose time lies before its
  predecessor's) is reported at the origin exactly.\<close>

lemma epoch_starts_at_origin:
  assumes "Finite s" "filter Finite ss = [] \<or> timeUsec s < timeUsec (last (filter Finite ss))"
  shows "\<exists>out c'. Convert_sample s (feed ss new_OdometryConverter) = (Some out, c') \<and>
    out_position out = Arr3 (Fin 0) (Fin 0) NZero \<and> origin c' = Some (position s)"
proof -
  have z: "relative_position (position s) (position s) = Arr3 (Fin 0) (Fin 0) NZero"
    using assms(1) by (intro zero_position) (simp add: Finite_def)
  show ?thesis
  proof (cases "filter Finite ss = []")
    case True
    with tracks_feed [of ss] have "feed ss new_OdometryConverter = new_OdometryConverter" by (simp add: tracks_def)
    then show ?thesis using assms(1) z by (simp add: Convert_sample_def new_OdometryConverter_def Let_def)
  next
    case False
    with tracks_feed [of ss] have "lastTimeUsec (feed ss new_OdometryConverter) = Some (timeUsec (last (filter Finite ss)))"
      by (simp add: tracks_def)
    then show ?thesis using assms False z by (simp add: Convert_sample_def Let_def)
  qed
qed

text \<open>C20: computed without rounding, \<^verbatim>\<open>EnuFluToNedFrdQuaternion\<close> is correct on every non-zero
  quaternion, in all four branches of the matrix conversion: the result has norm 1 and turns a
  forward-right-down body vector to the north-east-down image of the world vector that the input
  turns the corresponding forward-left-up vector to.\<close>

theorem frame_change_correct:
  fixes q :: "real arr4"
  assumes "q \<noteq> Arr4 0 0 0 0"
  shows "qnorm2 (enu_flu_to_ned_frd real_arithmetic q) = 1 \<and>
    (\<forall>v. scale3 (qnorm2 q) (qrot (enu_flu_to_ned_frd real_arithmetic q) v) = swap_enu_ned (qrot q (flip_yz v)))"
  by (simp only: real_frames(1) [OF assms] real_frames(2) [OF assms] simp_thms)

theorem frame_change_correct_witness:
  "qnorm2 (enu_flu_to_ned_frd real_arithmetic (Arr4 1 0 0 0)) = 1"
  using frame_change_correct [of "Arr4 1 0 0 0"] by simp

text \<open>Each sample is converted and sent at most once, however callbacks and updates interleave: the
  updates consume at most as many samples as callbacks delivered.\<close>

lemma odometry_at_most_once:
  assumes "new_OdometryManager env subscribe config mav k = (Ok st, k')"
  shows "slot_run (\<lambda>(now, msg). OnOdometry now msg) (odometry_poll oenv) es st \<le> puts es"
  using odometry_slot.consumed_le_puts [of oenv es st] odometry_ready(3) [OF assms]
  by (simp add: odometry_fresh_def)

lemma disabled_manager:
  "new_OdometryManager sample_os (\<lambda>_. True) default_odometry default_mavlink k = (Ok \<lparr>enabled = False,
     odo_mavlink = default_mavlink, sample = None, sampleReceived = 0, generation = 0,
     sentGeneration = 0, messages = 0, invalid = 0, converter = new_OdometryConverter, udp = new_UdpSocket\<rparr>, k)"
  by (simp add: new_OdometryManager_def Let_def default_odometry_def)

definition sample_oenv :: odometry_env where
  "sample_oenv = \<lparr>oe_os = sample_os, oe_pack = (\<lambda>_ _ _. [1]), oe_sendto = (\<lambda>_. 1)\<rparr>"

text \<open>C19: an update that sends does so for the latest sample, which no earlier update consumed and which
  is at most 250 ms old; the datagram is MAVLink's packing of the converted sample, and a second
  update without a new message sends nothing.\<close>

theorem odometry_sends_fresh:
  assumes "odometry_Update env now st = (Ok (Some d), st')"
  shows "\<exists>s out. enabled st \<and> sample st = Some s \<and> generation st \<noteq> sentGeneration st \<and>
    now - sampleReceived st \<le> 250000000 \<and> fst (Convert_sample s (converter st)) = Some out \<and>
    d = (destination (udp st), oe_pack env (mav_systemId (odo_mavlink st)) (mav_componentId (odo_mavlink st)) (odometry_message out)) \<and>
    messages st' = messages st + 1 \<and> odometry_Update env now' st' = (Ok None, st')"
proof -
  from assms obtain s out c where
      s: "enabled st" "sample st = Some s" "generation st \<noteq> sentGeneration st" "\<not> kStaleAfter < now - sampleReceived st"
        "Convert_sample s (converter st) = (Some out, c)"
    and snd: "Send (oe_os env) (oe_sendto env (oe_pack env (mav_systemId (odo_mavlink st)) (mav_componentId (odo_mavlink st)) (odometry_message out)))
        (oe_pack env (mav_systemId (odo_mavlink st)) (mav_componentId (odo_mavlink st)) (odometry_message out)) (udp st) = Ok d"
    and st': "st' = st\<lparr>sentGeneration := generation st, converter := c, messages := messages st + 1\<rparr>"
    by (auto simp: odometry_Update_def Let_def split: if_splits option.splits prod.splits outcome.splits)
  have "odometry_Update env now' st' = (Ok None, st')"
    using s by (simp add: odometry_Update_def st')
  with s snd show ?thesis by (auto simp: st' kStaleAfter_def Send_def)
qed

definition ready_manager :: OdometryManager where
  "ready_manager = \<lparr>enabled = True, odo_mavlink = default_mavlink, sample = Some (sample_at 5 (Arr3 0 0 0)),
     sampleReceived = 0, generation = 1, sentGeneration = 0, messages = 0, invalid = 0,
     converter = new_OdometryConverter, udp = \<lparr>fd = 3, destination = no_address, hasDestination = True\<rparr>\<rparr>"

theorem odometry_sends_fresh_witness:
  "\<exists>d st'. odometry_Update sample_oenv 100 ready_manager = (Ok (Some d), st') \<and>
     messages st' = 1 \<and> snd d = [1]"
proof -
  have "Finite (sample_at 5 (Arr3 0 0 0))" by (simp add: Finite_sample_at zero_fp_def)
  then obtain d st' where u: "odometry_Update sample_oenv 100 ready_manager = (Ok (Some d), st')"
    by (simp add: odometry_Update_def ready_manager_def Convert_sample_def new_OdometryConverter_def Let_def kStaleAfter_def Send_def sample_oenv_def)
  from odometry_sends_fresh [OF u] u show ?thesis by (auto simp: ready_manager_def sample_oenv_def)
qed

text \<open>For stamps of simulation times up to 18446744073709 s the sample time is exactly the stamp in
  microseconds, so a clock that runs forward by at least a microsecond never looks like a reset.\<close>

lemma stamps_keep_order:
  assumes "0 \<le> sec t" "sec t < 18446744073709" "0 \<le> nsec t" "nsec t < 1000000000"
    and "0 \<le> sec t'" "sec t' < 18446744073709" "0 \<le> nsec t'" "nsec t' < 1000000000"
  shows "uint (stamp_usec t) = (sec t * 1000000000 + nsec t) div 1000 \<and>
    (stamp_usec t' < stamp_usec t \<longrightarrow> sec t' * 1000000000 + nsec t' < sec t * 1000000000 + nsec t)"
proof -
  have v: "uint (stamp_usec t) = (sec t * 1000000000 + nsec t) div 1000"
    using stamp_usec_value [OF assms(1-4)] by (simp add: div_mult_self1 [of 1000 "nsec t" "sec t * 1000000", simplified] add.commute)
  moreover have "uint (stamp_usec t') = (sec t' * 1000000000 + nsec t') div 1000"
    using stamp_usec_value [OF assms(5-8)] by (simp add: add.commute)
  ultimately show ?thesis
    by (auto simp: word_less_def)
qed

text \<open>The validity check accepts finite quaternions whose squared norm overflows, and then the
  conversion returns the zero quaternion: a sample whose orientation has a component \<open>2 ^ 600\<close> is sent
  with an orientation that is no rotation.\<close>

lemma huge_orientation_sent_as_zero:
  fixes s
  defines "s' \<equiv> s\<lparr>sample_orientation := Arr4 (Fin (2 ^ 600)) 0 0 0\<rparr>"
  assumes "Finite s"
  shows "\<exists>out c'. Convert_sample s' c = (Some out, c') \<and> out_orientation out = Arr4 0 0 0 0"
proof -
  define B :: double where "B = Fin (2 ^ 600)"
  have B: "isfinite B" "s' = s\<lparr>sample_orientation := Arr4 B 0 0 0\<rparr>" by (simp_all only: B_def s'_def isfinite.simps)
  have sq: "B * B = PInf"
  proof -
    have "on_grid b64 (2 ^ 1200 :: rat)" by (intro on_gridI [of _ 1 1200]) simp_all
    then have r: "round_rat b64 (2 ^ 1200) = 2 ^ 1200" by (rule d.rd_fix)
    have "B * B = rnd_signed b64 False (2 ^ 600 * 2 ^ 600)"
      unfolding B_def by (subst fp_mul_finite) simp_all
    also have "\<dots> = rnd_signed b64 False (2 ^ 1200)" by (simp only: flip: power_add) simp
    also have "\<dots> = PInf" unfolding rnd_signed_def Let_def r by simp
    finally show ?thesis .
  qed
  have z: "0 * 0 = (0 :: fp)" by (simp add: zero_fp_def fp_mul_finite rnd_signed_def)
  have inf: "0 + PInf = (PInf :: fp)" "PInf + 0 = (PInf :: fp)" "std_sqrt PInf = PInf" "0 < PInf" "isfinite 0"
    by (simp_all add: plus_fp_def zero_fp_def std_sqrt_def)
  have n: "quaternionNorm (Arr4 B 0 0 0) = PInf" by (simp add: sq z inf)
  have "Finite s'"
    using assms(2) B(1) by (simp add: B(2) Finite_def n inf del: quaternionNorm.simps)
  moreover have "EnuFluToNedFrdQuaternion (sample_orientation s') = Arr4 0 0 0 0"
    by (simp add: B(2) EnuFluToNedFrdQuaternion_def double_arithmetic_def sq z inf)
  ultimately show ?thesis by (simp add: Convert_sample_def Let_def)
qed

section \<open>Status\<close>

record odometry_status =
  os_topic :: string
  os_messages :: u64
  os_invalid :: u64

definition odometry_LogStatus :: "OdometryManager \<Rightarrow> odometry_status option" where
  "odometry_LogStatus st = (if \<not> enabled st then None else
     Some \<lparr>os_topic = (if sample st = None then ''waiting'' else ''ready''), os_messages = messages st,
       os_invalid = invalid st\<rparr>)"

end
