(* ===== verification/Rangefinder.thy ===== *)
theory Rangefinder
  imports UdpSocket Ieee
begin

text \<open>
  \<^verbatim>\<open>Rangefinder.hh\<close> and \<^verbatim>\<open>Rangefinder.cc\<close>: the TFmini frame, the TCP connection of each TFmini mapping
  (a non-blocking connect that is retried once a second), the MAVLink messages, and the manager that
  drives all mappings.  The results of the system calls, of \<^verbatim>\<open>Subscribe\<close> and MAVLink's packing are
  parameters; times are nanoseconds of \<^verbatim>\<open>steady_clock\<close>.
\<close>

section \<open>The TFmini frame\<close>

definition max_metres :: double where
  "max_metres = lit (65535 / 100)"

text \<open>\<^verbatim>\<open>static_cast<std::uint16_t>(metres * 100.0)\<close>: undefined when the truncated value does not fit.\<close>

definition Centimetres :: "double \<Rightarrow> u16 outcome" where
  "Centimetres metres = defined (to_u16 (metres * lit 100))"

definition tfmini_frame :: "u16 \<Rightarrow> u8 list" where
  "tfmini_frame cm = (let body = [0x59, 0x59, ucast cm, ucast (drop_bit 8 cm), 0x64, 0x00, 0x01, 0x00] in
     body @ [fold (\<lambda>b sum. sum + b) body 0])"

definition EncodeTfmini :: "double option \<Rightarrow> u8 list outcome" where
  "EncodeTfmini metres = obind (case metres of
       Some m \<Rightarrow> if isfinite m \<and> 0 \<le> m
         then obind (Centimetres m) (\<lambda>c. if c \<le> 1200 then Centimetres m else Ok 1201)
         else Ok 1201
     | None \<Rightarrow> Ok 1201) (\<lambda>cm. Ok (tfmini_frame cm))"

section \<open>Mappings\<close>

record Mapping =
  config :: RangefinderConfig
  metres :: "double option"
  minMetres :: double
  maxMetres :: double
  sampleTime :: int
  lastSampleSent :: int
  lastOutput :: int
  lastConnectAttempt :: int
  tcp :: int
  connecting :: bool
  topicReady :: bool
  outputs :: u64
  map_invalid :: u64

definition new_Mapping :: "RangefinderConfig \<Rightarrow> Mapping" where
  "new_Mapping c = \<lparr>config = c, metres = None, minMetres = 0, maxMetres = 0, sampleTime = 0, lastSampleSent = 0,
     lastOutput = 0, lastConnectAttempt = 0, tcp = -1, connecting = False, topicReady = False, outputs = 0,
     map_invalid = 0\<rparr>"

record LaserScan =
  range_min :: double
  range_max :: double
  ranges :: "double list"

definition OnScan :: "int \<Rightarrow> LaserScan \<Rightarrow> Mapping \<Rightarrow> Mapping" where
  "OnScan now scan mp = mp\<lparr>topicReady := True, sampleTime := now, minMetres := range_min scan,
     maxMetres := range_max scan, metres := (if length (ranges scan) = 1 then Some (ranges scan ! 0) else None)\<rparr>"

text \<open>The system calls on the TCP socket: \<^verbatim>\<open>connect\<close> (success or \<^verbatim>\<open>errno\<close>), \<^verbatim>\<open>getsockopt(SO_ERROR)\<close> (its
  return value and the error it stored, which stays 0 when the call fails) and \<^verbatim>\<open>send\<close>.\<close>

datatype connect_result = Established | ConnectErrno int

definition EINPROGRESS :: int where "EINPROGRESS = 115"

record tcp_env =
  te_os :: os
  te_connect :: "int \<Rightarrow> sockaddr_in \<Rightarrow> connect_result"
  te_sockopt :: "int \<Rightarrow> int \<times> int"
  te_send :: "int \<Rightarrow> u8 list \<Rightarrow> int"

type_synonym mapping_state = "Mapping \<times> kernel"

text \<open>\<^verbatim>\<open>close(mapping.tcp); mapping.tcp = -1;\<close>\<close>

definition drop_tcp :: "mapping_state \<Rightarrow> mapping_state" where
  "drop_tcp x = (let (mp, k) = x in (mp\<lparr>tcp := -1\<rparr>, sys_close (tcp mp) k))"

definition Connect :: "tcp_env \<Rightarrow> int \<Rightarrow> mapping_state \<Rightarrow> mapping_state" where
  "Connect env now x = (let (mp, k) = x in
     if 0 \<le> tcp mp \<or> now - lastConnectAttempt mp < 1000000000 then (mp, k)
     else let d = os_socket (te_os env) (open_fds k);
              mp = mp\<lparr>lastConnectAttempt := now, tcp := d\<rparr> in
       if d < 0 then (mp, k)
       else let k = sys_open d k in
         case os_pton (te_os env) (rf_sitlAddress (config mp)) of
           None \<Rightarrow> drop_tcp (mp, k)
         | Some a \<Rightarrow>
             (case te_connect env d \<lparr>sin_family = AF_INET, sin_port = rf_sitlPort (config mp), sin_addr = a\<rparr> of
               Established \<Rightarrow> (mp, k)
             | ConnectErrno e \<Rightarrow> if e = EINPROGRESS then (mp\<lparr>connecting := True\<rparr>, k) else drop_tcp (mp, k)))"

definition Connected :: "tcp_env \<Rightarrow> mapping_state \<Rightarrow> bool \<times> mapping_state" where
  "Connected env x = (let (mp, k) = x in
     if \<not> connecting mp then (0 \<le> tcp mp, mp, k)
     else let (ret, error) = te_sockopt env (tcp mp) in
       if ret < 0 \<or> error \<noteq> 0 then
         if error = EINPROGRESS then (False, mp, k)
         else let (mp, k) = drop_tcp (mp, k) in (False, mp\<lparr>connecting := False\<rparr>, k)
       else (True, mp\<lparr>connecting := False\<rparr>, k))"

definition rf_kStaleAfter :: int where
  "rf_kStaleAfter = 250000000"

definition Sample :: "int \<Rightarrow> Mapping \<Rightarrow> double option" where
  "Sample now mp = (case metres mp of
       None \<Rightarrow> None
     | Some m \<Rightarrow> if rf_kStaleAfter < now - sampleTime mp \<or> \<not> isfinite m \<or> m < 0 then None else Some m)"

text \<open>The return value is the frame that went out, if any.\<close>

definition UpdateTfmini :: "tcp_env \<Rightarrow> int \<Rightarrow> (mapping_state, u8 list option) action" where
  "UpdateTfmini env now x = (let (up, mp, k) = Connected env (Connect env now x) in
     if \<not> up \<or> now - lastOutput mp < 10000000 then (Ok None, mp, k)
     else let sample = Sample now mp in
       case EncodeTfmini sample of
         Undefined \<Rightarrow> (Undefined, mp, k)
       | Throw e \<Rightarrow> (Throw e, mp, k)
       | Ok frame \<Rightarrow>
           let mp = mp\<lparr>lastOutput := now\<rparr> in
           if te_send env (tcp mp) frame \<noteq> int (length frame)
           then let (mp, k) = drop_tcp (mp, k) in (Ok None, mp\<lparr>connecting := False\<rparr>, k)
           else let mp = mp\<lparr>outputs := outputs mp + 1\<rparr> in
             case sample of
               None \<Rightarrow> (Ok (Some frame), mp\<lparr>map_invalid := map_invalid mp + 1\<rparr>, k)
             | Some m \<Rightarrow> (case Centimetres m of
                   Ok c \<Rightarrow> (Ok (Some frame), (if 1200 < c then mp\<lparr>map_invalid := map_invalid mp + 1\<rparr> else mp), k)
                 | Throw e \<Rightarrow> (Throw e, mp, k)
                 | Undefined \<Rightarrow> (Undefined, mp, k)))"

section \<open>MAVLink output\<close>

datatype mav_distance_sensor = MAV_DISTANCE_SENSOR_LASER
datatype mav_sensor_orientation = MAV_SENSOR_ROTATION_NONE
datatype obstacle_frame = OBSTACLE_FRAME_BODY_FRD

text \<open>The arguments of \<^verbatim>\<open>mavlink_msg_distance_sensor_pack\<close> and \<^verbatim>\<open>mavlink_msg_obstacle_distance_pack\<close>
  after the system and component identifiers, in the order of the calls.\<close>

datatype range_message =
    DistanceSensor (ds_timeBootMs: u32) (ds_min: u16) (ds_max: u16) (ds_current: u16)
      (ds_type: mav_distance_sensor) (ds_id: u8) (ds_orientation: mav_sensor_orientation) (ds_covariance: u8)
      (ds_horizontalFov: float32) (ds_verticalFov: float32) (ds_quaternion: "float32 list") (ds_quality: u8)
  | ObstacleDistance (ob_timeUsec: u64) (ob_type: mav_distance_sensor) (ob_distances: "u16 list") (ob_increment: u8)
      (ob_min: u16) (ob_max: u16) (ob_incrementF: float32) (ob_angleOffset: float32) (ob_frame: obstacle_frame)

text \<open>\<^verbatim>\<open>std::chrono::duration_cast\<close> to a coarser unit truncates towards zero.\<close>

definition duration_cast :: "int \<Rightarrow> int \<Rightarrow> int" where
  "duration_cast unit_ns t = (if 0 \<le> t then t div unit_ns else - ((- t) div unit_ns))"

record range_env =
  re_os :: os
  re_pack :: "u8 \<Rightarrow> u8 \<Rightarrow> range_message \<Rightarrow> u8 list"
  re_sendto :: "u8 list \<Rightarrow> int"

definition no_sample_distances :: "u16 list" where
  "no_sample_distances = replicate 72 (- 1)"

text \<open>The message \<^verbatim>\<open>UpdateMavlink\<close> builds once it has a sample or the mapping is an obstacle distance;
  \<open>since\<close> is the time since the start of the bridge.\<close>

definition mavlink_message :: "int \<Rightarrow> Mapping \<Rightarrow> double option \<Rightarrow> range_message outcome" where
  "mavlink_message since mp sample =
     obind (Centimetres (std_max 0 (minMetres mp))) (\<lambda>minCm.
     obind (Centimetres (std_clamp (maxMetres mp) 0 max_metres)) (\<lambda>maxCm.
     if rf_mavlinkMessage (config mp) = ''distance_sensor'' then
       obind (defined sample) (\<lambda>m. obind (Centimetres (std_clamp m 0 max_metres)) (\<lambda>current.
       obind (defined (rf_sensorId (config mp))) (\<lambda>sensorId.
         Ok (DistanceSensor (word_of_int (duration_cast 1000000 since)) minCm maxCm current MAV_DISTANCE_SENSOR_LASER
           sensorId MAV_SENSOR_ROTATION_NONE 255 (Fin 0) (Fin 0) [Fin 0, Fin 0, Fin 0, Fin 0] 0))))
     else
       obind (case sample of
           None \<Rightarrow> Ok no_sample_distances
         | Some m \<Rightarrow> if maxMetres mp < m then Ok (no_sample_distances[0 := maxCm + 1])
             else obind (Centimetres (std_clamp m 0 max_metres)) (\<lambda>c. Ok (no_sample_distances[0 := c])))
         (\<lambda>distances. Ok (ObstacleDistance (word_of_int (duration_cast 1000 since)) MAV_DISTANCE_SENSOR_LASER distances 0
           minCm maxCm (Fin 0) (Fin 0) OBSTACLE_FRAME_BODY_FRD))))"

definition UpdateMavlink ::
  "range_env \<Rightarrow> MavlinkConfig \<Rightarrow> int \<Rightarrow> UdpSocket \<Rightarrow> int \<Rightarrow> (Mapping, (sockaddr_in \<times> u8 list) option) action" where
  "UpdateMavlink env mav start_time udp_sock now mp = (let sample = Sample now mp in
     if rf_mavlinkMessage (config mp) = ''distance_sensor'' \<and>
        (case sample of None \<Rightarrow> True | Some m \<Rightarrow> maxMetres mp < m)
     then (Ok None, mp\<lparr>map_invalid := map_invalid mp + 1\<rparr>)
     else case mavlink_message (now - start_time) mp sample of
         Throw e \<Rightarrow> (Throw e, mp)
       | Undefined \<Rightarrow> (Undefined, mp)
       | Ok msg \<Rightarrow>
           let mp = (if rf_mavlinkMessage (config mp) \<noteq> ''distance_sensor'' \<and> sample = None
                then mp\<lparr>map_invalid := map_invalid mp + 1\<rparr> else mp);
               bytes = re_pack env (mav_systemId mav) (mav_componentId mav) msg in
           case Send (re_os env) (re_sendto env bytes) bytes udp_sock of
             Ok d \<Rightarrow> (Ok (Some d), mp\<lparr>lastOutput := now, outputs := outputs mp + 1\<rparr>)
           | Throw e \<Rightarrow> (Throw e, mp)
           | Undefined \<Rightarrow> (Undefined, mp))"

section \<open>The manager\<close>

record RangefinderManager =
  rm_mavlink :: MavlinkConfig
  rm_start :: int
  rm_udp :: UdpSocket
  rm_mappings :: "Mapping list"

definition has_mavlink :: "RangefinderConfig list \<Rightarrow> bool" where
  "has_mavlink cs = list_ex (\<lambda>c. rf_enabled c \<and> rf_output c = ''mavlink'') cs"

text \<open>The loop of the constructor: the enabled configurations in order, or the first topic whose
  subscription fails.\<close>

fun subscribe_all :: "(string \<Rightarrow> bool) \<Rightarrow> RangefinderConfig list \<Rightarrow> Mapping list outcome" where
  "subscribe_all subscribe [] = Ok []"
| "subscribe_all subscribe (c # cs) = (if \<not> rf_enabled c then subscribe_all subscribe cs
     else throw_if (\<not> subscribe (rf_gazeboTopic c))
       (''Failed to subscribe to rangefinder topic: '' @ rf_gazeboTopic c)
       (obind (subscribe_all subscribe cs) (\<lambda>ms. Ok (new_Mapping c # ms))))"

definition new_RangefinderManager ::
  "os \<Rightarrow> (string \<Rightarrow> bool) \<Rightarrow> RangefinderConfig list \<Rightarrow> MavlinkConfig \<Rightarrow> int \<Rightarrow> kernel \<Rightarrow> RangefinderManager outcome \<times> kernel" where
  "new_RangefinderManager env subscribe configs mav bridgeStart k = (let
     (r, u, k) = (if has_mavlink configs then SetDestination env (mav_address mav) (mav_port mav) (new_UdpSocket, k)
       else (Ok (), new_UdpSocket, k)) in
     case r of
       Throw e \<Rightarrow> (Throw e, snd (Close (u, k)))
     | Undefined \<Rightarrow> (Undefined, k)
     | Ok _ \<Rightarrow> (case subscribe_all subscribe configs of
           Ok ms \<Rightarrow> (Ok \<lparr>rm_mavlink = mav, rm_start = bridgeStart, rm_udp = u, rm_mappings = ms\<rparr>, k)
         | Throw e \<Rightarrow> (Throw e, snd (Close (u, k)))
         | Undefined \<Rightarrow> (Undefined, k)))"

text \<open>A loop over the mappings whose body may throw: the mappings after the failing one keep their
  state, and what was sent before the failure is sent: the results are what was sent, how the loop ended,
  and the mappings.\<close>

fun each_mapping :: "('s \<Rightarrow> 'b list outcome \<times> 's) \<Rightarrow> 's list \<Rightarrow> 'b list \<times> unit outcome \<times> 's list" where
  "each_mapping f [] = ([], Ok (), [])"
| "each_mapping f (s # ss) = (case f s of
     (Ok out, s') \<Rightarrow> (case each_mapping f ss of (outs, r, ss') \<Rightarrow> (out @ outs, r, s' # ss'))
   | (Throw e, s') \<Rightarrow> ([], Throw e, s' # ss)
   | (Undefined, s') \<Rightarrow> ([], Undefined, s' # ss))"

text \<open>\<^verbatim>\<open>Impl::Update\<close>: the TFmini mappings in order; the kernel's descriptors pass from one to the next.\<close>

fun tfmini_pass :: "(string \<Rightarrow> tcp_env) \<Rightarrow> int \<Rightarrow> Mapping list \<Rightarrow> kernel \<Rightarrow>
    (string \<times> u8 list) list \<times> unit outcome \<times> Mapping list \<times> kernel" where
  "tfmini_pass env now [] k = ([], Ok (), [], k)"
| "tfmini_pass env now (mp # ms) k = (if rf_output (config mp) \<noteq> ''tfmini''
     then (case tfmini_pass env now ms k of (outs, r, ms', k') \<Rightarrow> (outs, r, mp # ms', k'))
     else case UpdateTfmini (env (rf_name (config mp))) now (mp, k) of
         (Ok out, mp', k') \<Rightarrow> (case tfmini_pass env now ms k' of
             (outs, r, ms', k'') \<Rightarrow> ((case out of None \<Rightarrow> [] | Some f \<Rightarrow> [(rf_name (config mp), f)]) @ outs, r, mp' # ms', k''))
       | (Throw e, mp', k') \<Rightarrow> ([], Throw e, mp' # ms, k')
       | (Undefined, mp', k') \<Rightarrow> ([], Undefined, mp' # ms, k'))"

text \<open>The body of the loop of \<^verbatim>\<open>RangefinderManager::Update\<close>.\<close>

definition mavlink_step ::
  "range_env \<Rightarrow> MavlinkConfig \<Rightarrow> int \<Rightarrow> UdpSocket \<Rightarrow> int \<Rightarrow> Mapping \<Rightarrow> (sockaddr_in \<times> u8 list) list outcome \<times> Mapping" where
  "mavlink_step env mav start_time udp_sock now mp = (if rf_output (config mp) \<noteq> ''mavlink'' then (Ok [], mp)
     else let is_fresh = lastSampleSent mp < sampleTime mp;
              mp = (if is_fresh then mp\<lparr>lastSampleSent := sampleTime mp\<rparr> else mp) in
       if \<not> is_fresh \<and> (rf_mavlinkMessage (config mp) \<noteq> ''obstacle_distance'' \<or> now - lastOutput mp < 50000000)
       then (Ok [], mp)
       else case UpdateMavlink env mav start_time udp_sock now mp of
           (Ok out, mp') \<Rightarrow> (Ok (case out of None \<Rightarrow> [] | Some d \<Rightarrow> [d]), mp')
         | (Throw e, mp') \<Rightarrow> (Throw e, mp')
         | (Undefined, mp') \<Rightarrow> (Undefined, mp'))"

text \<open>The frames and the datagrams sent, how the update ended, and the state.\<close>

definition range_Update ::
  "(string \<Rightarrow> tcp_env) \<Rightarrow> range_env \<Rightarrow> int \<Rightarrow> int \<Rightarrow> RangefinderManager \<times> kernel \<Rightarrow>
   (string \<times> u8 list) list \<times> (sockaddr_in \<times> u8 list) list \<times> unit outcome \<times> RangefinderManager \<times> kernel" where
  "range_Update tenv env now1 now2 x = (let (rm, k) = x in
     case tfmini_pass tenv now1 (rm_mappings rm) k of
       (frames, Ok _, ms, k) \<Rightarrow>
         (case each_mapping (mavlink_step env (rm_mavlink rm) (rm_start rm) (rm_udp rm) now2) ms of
            (sent, r, ms') \<Rightarrow> (frames, sent, r, rm\<lparr>rm_mappings := ms'\<rparr>, k))
     | (frames, r, ms, k) \<Rightarrow> (frames, [], r, rm\<lparr>rm_mappings := ms\<rparr>, k))"

section \<open>The TCP connection\<close>

text \<open>The state machine of a mapping's socket: a connect in progress has a descriptor.\<close>

definition tcp_good :: "Mapping \<Rightarrow> bool" where
  "tcp_good mp \<longleftrightarrow> (connecting mp \<longrightarrow> 0 \<le> tcp mp)"

lemma drop_tcp_simps [simp]:
  "drop_tcp (mp, k) = (mp\<lparr>tcp := -1\<rparr>, sys_close (tcp mp) k)"
  by (simp add: drop_tcp_def)

lemma drop_owned: "owned_once (h(a := tcp mp)) k \<Longrightarrow> 0 \<le> tcp mp \<Longrightarrow> owned_once (h(a := - 1)) (sys_close (tcp mp) k)"
  by (rule owned_close) simp_all

lemma Connect_disciplined:
  assumes "fresh_sockets (te_os env)"
  shows "disciplined tcp_good tcp (Connect env now)"
proof (rule disciplinedI)
  fix h :: "nat \<Rightarrow> int" and a and mp mp' :: Mapping and k k'
  assume g: "tcp_good mp" and o: "owned_once (h(a := tcp mp)) k" and e: "Connect env now (mp, k) = (mp', k')"
  let ?d = "os_socket (te_os env) (open_fds k)"
  show "tcp_good mp' \<and> owned_once (h(a := tcp mp')) k'"
  proof (cases "0 \<le> tcp mp \<or> now - lastConnectAttempt mp < 1000000000")
    case True
    with e g o show ?thesis by (auto simp: Connect_def)
  next
    case idle: False
    with g have c: "tcp mp < 0" "\<not> connecting mp" by (auto simp: tcp_good_def)
    show ?thesis
    proof (cases "?d < 0")
      case True
      with e idle have "mp' = mp\<lparr>lastConnectAttempt := now, tcp := ?d\<rparr>" "k' = k" by (auto simp: Connect_def Let_def)
      then show ?thesis using owned_none [OF o c(1) True] c(2) by (simp add: tcp_good_def)
    next
      case False
      then have n: "0 \<le> ?d" "?d \<notin> open_fds k" using assms by (simp_all add: fresh_sockets_def)
      from owned_open [OF o c(1) n] have o': "owned_once (h(a := ?d)) (sys_open ?d k)" .
      from owned_close [OF this n(1), of "- 1"] have o'': "owned_once (h(a := - 1)) (sys_close ?d (sys_open ?d k))" by simp
      from e idle False have "tcp mp' = ?d \<and> k' = sys_open ?d k \<or>
          tcp mp' = - 1 \<and> \<not> connecting mp' \<and> k' = sys_close ?d (sys_open ?d k)"
        using c(2) by (auto simp: Connect_def Let_def split: option.splits connect_result.splits if_splits)
      then show ?thesis using o' o'' n(1) by (auto simp: tcp_good_def)
    qed
  qed
qed

lemma Connected_disciplined: "disciplined tcp_good tcp (\<lambda>x. snd (Connected env x))"
proof (rule disciplinedI)
  fix h :: "nat \<Rightarrow> int" and a and mp mp' :: Mapping and k k'
  assume g: "tcp_good mp" and o: "owned_once (h(a := tcp mp)) k" and e: "snd (Connected env (mp, k)) = (mp', k')"
  show "tcp_good mp' \<and> owned_once (h(a := tcp mp')) k'"
  proof (cases "connecting mp")
    case False
    with e g o show ?thesis by (simp add: Connected_def)
  next
    case True
    with g have "0 \<le> tcp mp" by (simp add: tcp_good_def)
    from drop_owned [OF o this] True e g o show ?thesis
      by (auto simp: Connected_def tcp_good_def split: if_splits prod.splits)
  qed
qed

text \<open>\<^verbatim>\<open>Connected\<close> answers yes only for a mapping that holds a descriptor and is not connecting.\<close>

lemma Connected_up:
  assumes "Connected env (mp, k) = (True, mp', k')" "tcp_good mp"
  shows "0 \<le> tcp mp'" and "\<not> connecting mp'"
  using assms by (auto simp: Connected_def tcp_good_def split: if_splits prod.splits)

lemma UpdateTfmini_shape:
  assumes "UpdateTfmini env now (mp, k) = (r, mp', k')" "Connected env (Connect env now (mp, k)) = (up, m1, k1)"
  shows "(tcp mp' = tcp m1 \<and> connecting mp' = connecting m1 \<and> k' = k1) \<or>
    (up \<and> tcp mp' = - 1 \<and> \<not> connecting mp' \<and> k' = sys_close (tcp m1) k1)"
  using assms unfolding UpdateTfmini_def
  by (auto simp: Let_def split: if_splits outcome.splits option.splits)

lemma UpdateTfmini_disciplined:
  assumes "fresh_sockets (te_os env)"
  shows "disciplined tcp_good tcp (\<lambda>x. snd (UpdateTfmini env now x))"
proof (rule disciplinedI)
  fix h :: "nat \<Rightarrow> int" and a and mp mp' :: Mapping and k k'
  assume g: "tcp_good mp" and o: "owned_once (h(a := tcp mp)) k" and e: "snd (UpdateTfmini env now (mp, k)) = (mp', k')"
  obtain m0 k0 where c0: "Connect env now (mp, k) = (m0, k0)" by force
  obtain up m1 k1 where c1: "Connected env (m0, k0) = (up, m1, k1)" by (metis prod.collapse)
  obtain r where u: "UpdateTfmini env now (mp, k) = (r, mp', k')" using e by (metis prod.collapse)
  have g0: "tcp_good m0 \<and> owned_once (h(a := tcp m0)) k0"
    by (rule disciplinedD [OF Connect_disciplined [OF assms] g o c0])
  then have g1: "tcp_good m1 \<and> owned_once (h(a := tcp m1)) k1"
    using disciplinedD [OF Connected_disciplined [of env], of m0 h a k0 m1 k1] c1 by simp
  have "up \<Longrightarrow> 0 \<le> tcp m1" using Connected_up(1) [of env m0 k0 m1 k1] c1 g0 by simp
  then have d: "up \<Longrightarrow> owned_once (h(a := - 1)) (sys_close (tcp m1) k1)" using drop_owned [of h a m1 k1] g1 by blast
  have "Connected env (Connect env now (mp, k)) = (up, m1, k1)" by (simp add: c0 c1)
  from UpdateTfmini_shape [OF u this] show "tcp_good mp' \<and> owned_once (h(a := tcp mp')) k'"
    using g1 d by (auto simp: tcp_good_def)
qed

lemma OnScan_disciplined: "disciplined tcp_good tcp (\<lambda>x. (OnScan now scan (fst x), snd x))"
  by (rule disciplinedI) (auto simp: OnScan_def tcp_good_def)

text \<open>The destructor.\<close>

definition destroy_Mapping :: "mapping_state \<Rightarrow> mapping_state" where
  "destroy_Mapping x = (if 0 \<le> tcp (fst x) then (let (mp, k) = drop_tcp x in (mp\<lparr>connecting := False\<rparr>, k)) else x)"

lemma destroy_disciplined: "disciplined tcp_good tcp destroy_Mapping"
proof (rule disciplinedI)
  fix h :: "nat \<Rightarrow> int" and a and mp mp' :: Mapping and k k'
  assume g: "tcp_good mp" and o: "owned_once (h(a := tcp mp)) k" and e: "destroy_Mapping (mp, k) = (mp', k')"
  then show "tcp_good mp' \<and> owned_once (h(a := tcp mp')) k'"
    using drop_owned [OF o] by (auto simp: destroy_Mapping_def tcp_good_def split: if_splits)
qed

datatype mapping_op = DoScan int LaserScan | DoUpdateTfmini int | DoDestroy

fun mapping_operate :: "tcp_env \<times> mapping_op \<Rightarrow> mapping_state \<Rightarrow> mapping_state" where
  "mapping_operate (env, DoScan now scan) x = (OnScan now scan (fst x), snd x)"
| "mapping_operate (env, DoUpdateTfmini now) x = snd (UpdateTfmini env now x)"
| "mapping_operate (env, DoDestroy) x = destroy_Mapping x"

lemma mapping_operate_eqs:
  "mapping_operate (env, DoScan now scan) = (\<lambda>x. (OnScan now scan (fst x), snd x))"
  "mapping_operate (env, DoUpdateTfmini now) = (\<lambda>x. snd (UpdateTfmini env now x))"
  "mapping_operate (env, DoDestroy) = destroy_Mapping"
  by (rule ext; simp)+

interpretation tcp_owner: descriptor_owner tcp_good tcp "\<lambda>(env, _). fresh_sockets (te_os env)" mapping_operate
proof
  fix e :: "tcp_env \<times> mapping_op"
  assume "case e of (env, _) \<Rightarrow> fresh_sockets (te_os env)"
  moreover obtain env op where "e = (env, op)" by force
  ultimately show "disciplined tcp_good tcp (mapping_operate e)"
    by (cases op) (simp_all add: mapping_operate_eqs OnScan_disciplined UpdateTfmini_disciplined destroy_disciplined)
qed

text \<open>Connection attempts and frames are rate limited.\<close>

definition connect_firing :: "tcp_env \<times> mapping_op \<Rightarrow> mapping_state \<Rightarrow> int option \<times> mapping_state" where
  "connect_firing e x = (case e of
       (env, DoUpdateTfmini now) \<Rightarrow>
         (if 0 \<le> tcp (fst x) \<or> now - lastConnectAttempt (fst x) < 1000000000 then None else Some now, mapping_operate e x)
     | _ \<Rightarrow> (None, mapping_operate e x))"

lemma Connect_attempt:
  "lastConnectAttempt (fst (Connect env now (mp, k))) =
     (if 0 \<le> tcp mp \<or> now - lastConnectAttempt mp < 1000000000 then lastConnectAttempt mp else now)"
  by (auto simp: Connect_def Let_def split: option.splits connect_result.splits)

lemma Connected_keeps: "lastConnectAttempt (fst (snd (Connected env x))) = lastConnectAttempt (fst x)"
  "lastOutput (fst (snd (Connected env x))) = lastOutput (fst x)"
  by (auto simp: Connected_def Let_def split: prod.splits)

lemma Connect_keeps: "lastOutput (fst (Connect env now (mp, k))) = lastOutput mp"
  by (auto simp: Connect_def Let_def split: option.splits connect_result.splits)

lemma UpdateTfmini_attempt:
  "lastConnectAttempt (fst (snd (UpdateTfmini env now x))) = lastConnectAttempt (fst (Connect env now x))"
proof -
  obtain up m1 k1 where c1: "Connected env (Connect env now x) = (up, m1, k1)" by (metis prod.collapse)
  have "lastConnectAttempt (fst (snd (UpdateTfmini env now x))) = lastConnectAttempt m1"
    by (auto simp: UpdateTfmini_def c1 Let_def split: outcome.splits option.splits)
  also have "\<dots> = lastConnectAttempt (fst (Connect env now x))"
    using Connected_keeps(1) [of env "Connect env now x"] c1 by simp
  finally show ?thesis .
qed

interpretation connect_limit: rate_limiter "\<lambda>_. True" "\<lambda>x. lastConnectAttempt (fst x)" "\<lambda>dt. 1000000000 \<le> dt" connect_firing
proof
  fix e :: "tcp_env \<times> mapping_op" and x t x'
  assume "connect_firing e x = (Some t, x')"
  then show "1000000000 \<le> t - lastConnectAttempt (fst x) \<and> lastConnectAttempt (fst x') = t"
    by (cases x) (auto simp: connect_firing_def UpdateTfmini_attempt Connect_attempt split: prod.splits mapping_op.splits if_splits)
next
  fix e :: "tcp_env \<times> mapping_op" and x x'
  assume "connect_firing e x = (None, x')"
  then show "lastConnectAttempt (fst x') = lastConnectAttempt (fst x)"
    by (cases x) (auto simp: connect_firing_def UpdateTfmini_attempt Connect_attempt OnScan_def destroy_Mapping_def
        split: prod.splits mapping_op.splits if_splits)
qed simp

section \<open>Centimetres\<close>

lemma hundred: "lit 100 = Fin 100"
  by (simp add: lit_def fp_eval)

lemma Centimetres_cases:
  "Centimetres m = (if isfinite (m * lit 100) \<and> 0 \<le> trunc_rat (val (m * lit 100)) \<and> trunc_rat (val (m * lit 100)) < 65536
     then Ok (word_of_int (trunc_rat (val (m * lit 100)))) else Undefined)"
  by (simp add: Centimetres_def to_u16_def)

lemma trunc_rat_mono: "x \<le> y \<Longrightarrow> trunc_rat x \<le> trunc_rat y"
proof (cases "0 \<le> x \<longleftrightarrow> 0 \<le> y")
  case True
  assume "x \<le> y"
  with True show ?thesis by (auto simp: trunc_rat_def floor_mono ceiling_mono)
next
  case False
  assume "x \<le> y"
  with False have s: "x < 0" "0 \<le> y" by auto
  then have "\<lceil>x\<rceil> \<le> 0" "0 \<le> \<lfloor>y\<rfloor>" by (simp_all add: ceiling_le_iff)
  then have "\<lceil>x\<rceil> \<le> \<lfloor>y\<rfloor>" by linarith
  with s show ?thesis by (simp add: trunc_rat_def)
qed

lemma Centimetres_Ok:
  assumes "Centimetres m = Ok c"
  shows "uint c = trunc_rat (val (m * lit 100))" and "isfinite (m * lit 100)"
  using assms by (auto simp: Centimetres_cases unsigned_of_int take_bit_int_eq_self split: if_splits)

lemma times_hundred_mono:
  assumes "isfinite x" "isfinite y" "val x \<le> val y"
  shows "x * lit 100 \<le> y * lit 100"
  using assms by (simp add: hundred fp_mul_finite rnd_signed_le_mono)

lemma Centimetres_mono:
  assumes "Centimetres x = Ok a" "Centimetres y = Ok b" "isfinite x" "isfinite y" "val x \<le> val y"
  shows "a \<le> b"
proof -
  have "val (x * lit 100) \<le> val (y * lit 100)"
    using times_hundred_mono [OF assms(3-5)] Centimetres_Ok(2) assms(1,2) by (simp add: le_fp_finite)
  then show ?thesis
    using Centimetres_Ok(1) [OF assms(1)] Centimetres_Ok(1) [OF assms(2)] by (simp add: word_le_def trunc_rat_mono)
qed

lemma times_hundred_nonneg:
  assumes "isfinite m" "0 \<le> val m"
  shows "Fin 0 \<le> m * lit 100"
proof -
  have "m * lit 100 = rnd_signed b64 (signbit m \<noteq> signbit (Fin 100)) (val m * 100)"
    using assms(1) by (simp add: hundred fp_mul_finite)
  also have "Fin 0 \<le> \<dots>" by (rule rnd_signed_ge_exact) (use assms(2) in simp_all)
  finally show ?thesis .
qed

lemma Centimetres_nonneg:
  assumes "isfinite m" "0 \<le> val m"
  shows "Centimetres m = Undefined \<longleftrightarrow> Fin 65536 \<le> m * lit 100"
proof (cases "m * lit 100" rule: fp.exhaust)
  case (Fin q)
  with times_hundred_nonneg [OF assms] have "0 \<le> q" by simp
  then have "trunc_rat q = \<lfloor>q\<rfloor>" "0 \<le> \<lfloor>q\<rfloor>" by (simp_all add: trunc_rat_def)
  moreover have "\<lfloor>q\<rfloor> < 65536 \<longleftrightarrow> q < 65536" by (simp add: floor_less_iff)
  ultimately show ?thesis by (auto simp: Centimetres_cases Fin)
next
  case NaN
  then show ?thesis using times_hundred_nonneg [OF assms] by simp
next
  case PInf
  then show ?thesis by (simp add: Centimetres_cases)
next
  case NInf
  then show ?thesis using times_hundred_nonneg [OF assms] by (simp add: less_eq_fp_def fp_le_def fp_eq_def)
next
  case NZero
  then show ?thesis by (simp add: Centimetres_cases trunc_rat_def le_fp_NZero)
qed

text \<open>The largest distance MAVLink can carry: \<^verbatim>\<open>655.35 * 100.0\<close> is 65535 in \<^verbatim>\<open>double\<close> arithmetic too.\<close>

lemma max_metres_eq: "max_metres = Fin (5764519562104013 / 8796093022208)"
  using rnd_eval(1) [of 100 65535 43 5764519562104013] by (simp add: max_metres_def lit_def)

lemma max_centimetres: "max_metres * lit 100 = Fin 65535"
proof -
  have "rnd_signed b64 False (of_int 576451956210401300 / of_int 8796093022208) = Fin (of_int 9007061815787520 / 2 ^ 37)"
    by (rule rnd_eval(2)) simp_all
  then show ?thesis by (simp add: max_metres_eq hundred fp_mul_finite)
qed

lemma Centimetres_max: "Centimetres max_metres = Ok 65535"
  by (simp add: Centimetres_cases max_centimetres trunc_rat_def)

lemma Centimetres_defined:
  assumes "isfinite m" "0 \<le> val m" "val m \<le> val max_metres"
  shows "\<exists>c. Centimetres m = Ok c"
proof -
  have "m * lit 100 \<le> Fin 65535"
    using times_hundred_mono [OF assms(1) _ assms(3)] by (simp add: max_centimetres) (simp add: max_metres_eq)
  then have "\<not> Fin 65536 \<le> m * lit 100" using le_fp_trans [of "Fin 65536" "m * lit 100" "Fin 65535"] by auto
  then have "Centimetres m \<noteq> Undefined" by (simp add: Centimetres_nonneg [OF assms(1,2)])
  then show ?thesis by (auto simp: Centimetres_cases split: if_splits)
qed

text \<open>Clamped to 0..655.35 everything but NaN has a value in centimetres.\<close>

lemma clamp_range:
  assumes "m \<noteq> NaN"
  defines "c \<equiv> std_clamp m 0 max_metres"
  shows "isfinite c" and "0 \<le> val c" and "val c \<le> val max_metres"
  unfolding c_def using assms(1)
  by (cases m; auto simp: std_clamp_def zero_fp_def max_metres_eq less_fp_def)+

lemma clamp_mono:
  assumes "m \<noteq> NaN" "m' \<noteq> NaN" "\<not> m' < m"
  shows "val (std_clamp m 0 max_metres) \<le> val (std_clamp m' 0 max_metres)"
  using assms by (cases m; cases m') (auto simp: std_clamp_def zero_fp_def max_metres_eq less_fp_def)

section \<open>The frame as its receiver reads it\<close>

text \<open>The TFmini protocol: two header bytes, the distance in centimetres little-endian, strength, mode,
  a spare byte, and the sum of the first eight bytes.\<close>

fun tfmini_decode :: "u8 list \<Rightarrow> int option" where
  "tfmini_decode [a, b, lo, hi, s0, s1, md, sp, ck] =
     (if a = 0x59 \<and> b = 0x59 \<and> ck = a + b + lo + hi + s0 + s1 + md + sp then Some (uint lo + 256 * uint hi) else None)"
| "tfmini_decode _ = None"

text \<open>The distance the bridge means to report: centimetres up to 12 m, and 1201 for anything else.\<close>

definition tfmini_reading :: "double option \<Rightarrow> int" where
  "tfmini_reading x = (case x of
       Some m \<Rightarrow> if isfinite m \<and> 0 \<le> val m \<and> trunc_rat (val (m * lit 100)) \<le> 1200
         then trunc_rat (val (m * lit 100)) else 1201
     | None \<Rightarrow> 1201)"

lemma split_u16: "uint (ucast (cm :: u16) :: u8) + 256 * uint (ucast (drop_bit 8 cm) :: u8) = uint cm"
proof -
  have "uint cm < 65536" "0 \<le> uint cm" using uint_lt2p [of cm] by simp_all
  then have "uint cm div 256 < 256" "0 \<le> uint cm div 256" by linarith+
  then have "uint (ucast (drop_bit 8 cm) :: u8) = uint cm div 256"
    by (simp add: unsigned_ucast_eq drop_bit_eq_div uint_div_distrib take_bit_eq_mod)
  moreover have "uint (ucast cm :: u8) = uint cm mod 256"
    by (simp add: unsigned_ucast_eq take_bit_eq_mod)
  ultimately show ?thesis by simp
qed

lemma tfmini_frame_decodes: "tfmini_decode (tfmini_frame cm) = Some (uint cm)" "length (tfmini_frame cm) = 9"
  using split_u16 [of cm] by (simp_all add: tfmini_frame_def Let_def)

lemma EncodeTfmini_Ok:
  assumes "EncodeTfmini x = Ok f"
  shows "\<exists>cm. f = tfmini_frame cm \<and> uint cm = tfmini_reading x"
proof (cases x)
  case None
  with assms show ?thesis by (auto simp: EncodeTfmini_def tfmini_reading_def)
next
  case (Some m)
  show ?thesis
  proof (cases "isfinite m \<and> 0 \<le> val m")
    case False
    then have "\<not> (isfinite m \<and> 0 \<le> m)" by (auto simp: le_fp_finite zero_fp_def)
    with assms Some False show ?thesis by (auto simp: EncodeTfmini_def tfmini_reading_def)
  next
    case True
    then have p: "isfinite m \<and> 0 \<le> m" by (simp add: le_fp_finite zero_fp_def)
    with assms Some obtain c where c: "Centimetres m = Ok c" "f = tfmini_frame (if c \<le> 1200 then c else 1201)"
      by (auto simp: EncodeTfmini_def obind_eq_Ok split: if_splits)
    have "c \<le> 1200 \<longleftrightarrow> trunc_rat (val (m * lit 100)) \<le> 1200"
      using Centimetres_Ok(1) [OF c(1)] by (simp add: word_le_def)
    with Centimetres_Ok(1) [OF c(1)] True c(2) Some show ?thesis by (auto simp: tfmini_reading_def)
  qed
qed

lemma EncodeTfmini_Undefined:
  "EncodeTfmini x = Undefined \<longleftrightarrow> (\<exists>m. x = Some m \<and> isfinite m \<and> 0 \<le> val m \<and> Fin 65536 \<le> m * lit 100)"
proof (cases x)
  case (Some m)
  have p: "isfinite m \<and> 0 \<le> m \<longleftrightarrow> isfinite m \<and> 0 \<le> val m" by (auto simp: le_fp_finite zero_fp_def)
  show ?thesis
  proof (cases "isfinite m \<and> 0 \<le> val m")
    case True
    then have "0 \<le> m" by (simp add: le_fp_finite zero_fp_def)
    with True have "EncodeTfmini x = Undefined \<longleftrightarrow> Centimetres m = Undefined"
      unfolding EncodeTfmini_def Some by (cases "Centimetres m") auto
    with True show ?thesis by (simp add: Some Centimetres_nonneg)
  next
    case False
    then show ?thesis by (auto simp: EncodeTfmini_def Some p)
  qed
qed (simp add: EncodeTfmini_def)

lemma EncodeTfmini_never_throws: "EncodeTfmini x \<noteq> Throw e"
  by (auto simp: EncodeTfmini_def Centimetres_cases split: option.splits)

lemma Sample_Some:
  "Sample now mp = Some m \<Longrightarrow> metres mp = Some m \<and> now - sampleTime mp \<le> 250000000 \<and> isfinite m \<and> 0 \<le> val m"
  by (auto simp: Sample_def rf_kStaleAfter_def less_fp_finite zero_fp_def split: option.splits if_splits)

lemma mavlink_message_parts:
  assumes "mavlink_message since mp (Some m) = Ok msg"
  obtains mn mx where "Centimetres (std_max 0 (minMetres mp)) = Ok mn"
    "Centimetres (std_clamp (maxMetres mp) 0 max_metres) = Ok mx"
    "rf_mavlinkMessage (config mp) = ''distance_sensor'' \<Longrightarrow> \<exists>c i. Centimetres (std_clamp m 0 max_metres) = Ok c \<and>
       rf_sensorId (config mp) = Some i \<and>
       msg = DistanceSensor (word_of_int (duration_cast 1000000 since)) mn mx c MAV_DISTANCE_SENSOR_LASER
           i MAV_SENSOR_ROTATION_NONE 255 (Fin 0) (Fin 0) [Fin 0, Fin 0, Fin 0, Fin 0] 0"
    "rf_mavlinkMessage (config mp) \<noteq> ''distance_sensor'' \<Longrightarrow> \<exists>c. (maxMetres mp < m \<and> c = mx + 1 \<or>
         \<not> maxMetres mp < m \<and> Centimetres (std_clamp m 0 max_metres) = Ok c) \<and>
       msg = ObstacleDistance (word_of_int (duration_cast 1000 since)) MAV_DISTANCE_SENSOR_LASER
         (no_sample_distances[0 := c]) 0 mn mx (Fin 0) (Fin 0) OBSTACLE_FRAME_BODY_FRD"
proof -
  from assms obtain mn mx where c: "Centimetres (std_max 0 (minMetres mp)) = Ok mn"
    "Centimetres (std_clamp (maxMetres mp) 0 max_metres) = Ok mx"
    by (auto simp: mavlink_message_def obind_eq_Ok)
  show ?thesis
    by (rule that [OF c]) (use assms c in \<open>auto simp: mavlink_message_def obind_eq_Ok split: if_splits\<close>)
qed

lemma Centimetres_NaN: "Centimetres NaN = Undefined"
  by (simp add: Centimetres_cases times_fp_def fp_mul_def Let_def)

lemma clamp_NaN: "std_clamp NaN lo hi = NaN"
  by (simp add: std_clamp_def)

lemma marker_after: "if mx = 65535 then mx + 1 = (0 :: u16) else unat (mx + 1) = unat mx + 1 \<and> mx < mx + 1"
proof (cases "mx = 65535")
  case False
  have "mx + 1 \<noteq> 0"
  proof
    assume "mx + 1 = 0"
    then have "mx = - 1" by (simp only: eq_neg_iff_add_eq_0)
    with False show False by simp
  qed
  then have "unat (mx + 1) = unat mx + 1" using unatSuc [of mx] by (simp add: add.commute)
  then show ?thesis using False by (simp add: word_less_nat_alt)
qed simp

section \<open>Properties\<close>

text \<open>C21: \<^verbatim>\<open>EncodeTfmini\<close> never throws, and every frame it returns is one its receiver accepts (length,
  header, checksum) and decodes to the distance in centimetres, or to 1201 when there is no reading, it
  is not a number, negative, infinite, or beyond 12 m.  Its behaviour is undefined exactly on the readings
  whose centimetres do not fit 16 bits: they are converted before they are compared with 12 m.\<close>

theorem tfmini_roundtrip:
  "(case EncodeTfmini x of
     Ok frame \<Rightarrow> length frame = 9 \<and> tfmini_decode frame = Some (tfmini_reading x)
   | Throw _ \<Rightarrow> False
   | Undefined \<Rightarrow> True) \<and>
   (EncodeTfmini x = Undefined \<longleftrightarrow> (\<exists>m. x = Some m \<and> isfinite m \<and> 0 \<le> val m \<and> Fin 65536 \<le> m * lit 100))"
proof
  show "case EncodeTfmini x of
     Ok frame \<Rightarrow> length frame = 9 \<and> tfmini_decode frame = Some (tfmini_reading x)
   | Throw _ \<Rightarrow> False
   | Undefined \<Rightarrow> True"
  proof (cases "EncodeTfmini x")
    case (Ok f)
    with EncodeTfmini_Ok [OF Ok] tfmini_frame_decodes show ?thesis by auto
  qed (use EncodeTfmini_never_throws in auto)
qed (rule EncodeTfmini_Undefined)

text \<open>Over any sequence of scans, updates and destruction of one mapping, whatever the system calls
  return, the process has open exactly the descriptor the mapping holds, none is closed twice, and a
  mapping that is connecting holds one.\<close>

lemma tcp_descriptor_owned:
  assumes "list_all (\<lambda>(env, _). fresh_sockets (te_os env)) ops"
    and "fold mapping_operate ops (new_Mapping c, \<lparr>open_fds = {}, bad_close = False\<rparr>) = (mp, k)"
  shows "open_fds k = (if 0 \<le> tcp mp then {tcp mp} else {}) \<and> \<not> bad_close k \<and> (connecting mp \<longrightarrow> 0 \<le> tcp mp)"
proof -
  have "owned_once ((\<lambda>_. - 1)(0 := tcp (new_Mapping c))) \<lparr>open_fds = {}, bad_close = False\<rparr>"
    by (auto simp: owned_once_def new_Mapping_def)
  moreover have "tcp_good (new_Mapping c)" by (simp add: tcp_good_def new_Mapping_def)
  ultimately have *: "tcp_good mp \<and> owned_once ((\<lambda>_. - 1)(0 := tcp mp)) k"
    using disciplinedD [OF tcp_owner.fold_disciplined [OF assms(1)] _ _ assms(2)] by blast
  note D = owned_onceD [OF conjunct2 [OF *]]
  have "d \<in> open_fds k \<longleftrightarrow> 0 \<le> tcp mp \<and> d = tcp mp" for d
    using D(2) [of d] by (auto split: if_splits)
  then show ?thesis using D(1) * by (auto simp: tcp_good_def)
qed

definition sample_tcp :: tcp_env where
  "sample_tcp = \<lparr>te_os = sample_os, te_connect = (\<lambda>_ _. ConnectErrno EINPROGRESS), te_sockopt = (\<lambda>_. (0, 0)),
     te_send = (\<lambda>_ _. - 1)\<rparr>"

definition front_tfmini :: RangefinderConfig where
  "front_tfmini = default_rangefinder\<lparr>rf_name := ''front'', rf_output := ''tfmini'', rf_sitlAddress := ''127.0.0.1'',
     rf_sitlPort := 5763\<rparr>"

text \<open>Connection attempts of a mapping are at least one second apart, whatever happens to the
  connection, the scans and the clock in between.\<close>

lemma connect_attempts_spaced:
  "spaced (\<lambda>dt. 1000000000 \<le> dt) (0 # firings connect_firing ops (new_Mapping c, k))"
  using connect_limit.spaced_firings [of "(new_Mapping c, k)" ops] by (simp add: new_Mapping_def)

text \<open>C40: a non-blocking connect that is still in progress reports no \<^verbatim>\<open>SO_ERROR\<close>, so \<^verbatim>\<open>Connected\<close> takes it for
  established; the frame cannot be sent yet and the socket is closed in the same iteration. A
  handshake that outlasts one iteration never completes.\<close>

theorem pending_connect_dropped:
  assumes "tcp mp < 0" "\<not> connecting mp" "1000000000 \<le> now - lastConnectAttempt mp" "10000000 \<le> now - lastOutput mp"
    and "os_socket (te_os env) (open_fds k) = d" "0 \<le> d" "os_pton (te_os env) (rf_sitlAddress (config mp)) = Some a"
    and "\<And>s. te_connect env d s = ConnectErrno EINPROGRESS" "te_sockopt env d = (0, 0)" "\<And>f. te_send env d f = - 1"
    and "Sample now mp = None"
  shows "\<exists>mp' k'. UpdateTfmini env now (mp, k) = (Ok None, mp', k') \<and> tcp mp' = - 1 \<and> \<not> connecting mp' \<and>
    lastConnectAttempt mp' = now \<and> d \<notin> open_fds k'"
proof -
  have c: "Connected env (Connect env now (mp, k)) =
      (True, mp\<lparr>lastConnectAttempt := now, tcp := d, connecting := False\<rparr>, sys_open d k)"
    using assms(1-3,5-9) by (simp add: Connect_def Connected_def Let_def)
  have "Sample now (mp\<lparr>lastConnectAttempt := now, tcp := d, connecting := False\<rparr>) = None"
    using assms(11) by (cases "metres mp") (simp_all add: Sample_def)
  then show ?thesis using assms(4,10)
    by (simp add: UpdateTfmini_def c EncodeTfmini_def sys_close_def)
qed

theorem pending_connect_dropped_witness:
  "\<exists>mp' k'. UpdateTfmini sample_tcp 5000000000 (new_Mapping front_tfmini, \<lparr>open_fds = {}, bad_close = False\<rparr>) = (Ok None, mp', k') \<and>
    tcp mp' = - 1 \<and> \<not> connecting mp' \<and> lastConnectAttempt mp' = 5000000000 \<and> 3 \<notin> open_fds k'"
  by (rule pending_connect_dropped [where a = 2130706433])
    (simp_all add: new_Mapping_def sample_tcp_def sample_os_def loopback_only_def front_tfmini_def Sample_def)

text \<open>C22: what the MAVLink messages say about a usable reading \<open>m\<close>.  Both carry the configured minimum
  and maximum in centimetres, clamped to 16 bits.  A \<^verbatim>\<open>DISTANCE_SENSOR\<close> message carries the reading in
  centimetres and the configured sensor identifier.  An \<^verbatim>\<open>OBSTACLE_DISTANCE\<close> message, which has no sensor
  identifier, has 72 sectors of which only the first is known: the reading in centimetres when it is
  within range; beyond the range the maximum plus one, which \<^verbatim>\<open>docs/design/rangefinder.md\<close> promises and
  which is above the maximum, unless the maximum is 65535 cm: then the sum wraps around and the message
  reports an obstacle at distance 0.  A reading within range is at most the maximum.\<close>

theorem mavlink_message_contract:
  assumes "Sample now mp = Some m" "mavlink_message since mp (Some m) = Ok msg"
  shows "\<exists>mn mx c. Centimetres (std_max 0 (minMetres mp)) = Ok mn \<and>
    Centimetres (std_clamp (maxMetres mp) 0 max_metres) = Ok mx \<and>
    Centimetres (std_clamp m 0 max_metres) = Ok c \<and> (\<not> maxMetres mp < m \<longrightarrow> c \<le> mx) \<and>
    (if rf_mavlinkMessage (config mp) = ''distance_sensor''
     then \<exists>i. rf_sensorId (config mp) = Some i \<and>
       msg = DistanceSensor (word_of_int (duration_cast 1000000 since)) mn mx c MAV_DISTANCE_SENSOR_LASER
         i MAV_SENSOR_ROTATION_NONE 255 (Fin 0) (Fin 0) [Fin 0, Fin 0, Fin 0, Fin 0] 0
     else \<exists>d. msg = ObstacleDistance (word_of_int (duration_cast 1000 since)) MAV_DISTANCE_SENSOR_LASER
         (d # replicate 71 65535) 0 mn mx (Fin 0) (Fin 0) OBSTACLE_FRAME_BODY_FRD \<and>
       (if \<not> maxMetres mp < m then d = c
        else if mx = 65535 then d = 0
        else unat d = unat mx + 1 \<and> mx < d))"
proof -
  from assms(2) obtain mn mx where mn: "Centimetres (std_max 0 (minMetres mp)) = Ok mn"
    and mx: "Centimetres (std_clamp (maxMetres mp) 0 max_metres) = Ok mx"
    and ds: "rf_mavlinkMessage (config mp) = ''distance_sensor'' \<Longrightarrow> \<exists>c i. Centimetres (std_clamp m 0 max_metres) = Ok c \<and>
       rf_sensorId (config mp) = Some i \<and>
       msg = DistanceSensor (word_of_int (duration_cast 1000000 since)) mn mx c MAV_DISTANCE_SENSOR_LASER
           i MAV_SENSOR_ROTATION_NONE 255 (Fin 0) (Fin 0) [Fin 0, Fin 0, Fin 0, Fin 0] 0"
    and ob: "rf_mavlinkMessage (config mp) \<noteq> ''distance_sensor'' \<Longrightarrow> \<exists>c. (maxMetres mp < m \<and> c = mx + 1 \<or>
         \<not> maxMetres mp < m \<and> Centimetres (std_clamp m 0 max_metres) = Ok c) \<and>
       msg = ObstacleDistance (word_of_int (duration_cast 1000 since)) MAV_DISTANCE_SENSOR_LASER
         (no_sample_distances[0 := c]) 0 mn mx (Fin 0) (Fin 0) OBSTACLE_FRAME_BODY_FRD"
    by (rule mavlink_message_parts) blast
  have m: "isfinite m" "m \<noteq> NaN" using Sample_Some [OF assms(1)] by auto
  have M: "maxMetres mp \<noteq> NaN" using mx by (auto simp: clamp_NaN Centimetres_NaN)
  obtain c where c: "Centimetres (std_clamp m 0 max_metres) = Ok c"
    using Centimetres_defined clamp_range [OF m(2)] by blast
  have le: "\<not> maxMetres mp < m \<Longrightarrow> c \<le> mx"
    by (rule Centimetres_mono [OF c mx clamp_range(1) [OF m(2)] clamp_range(1) [OF M] clamp_mono [OF m(2) M]])
  have d: "no_sample_distances[0 := x] = x # replicate 71 65535" for x
  proof -
    have "replicate 72 65535 = (65535 :: u16) # replicate 71 65535"
      by (simp only: replicate_Suc [symmetric]) simp
    moreover have "(- 1 :: u16) = 65535" by simp
    ultimately show ?thesis by (simp only: no_sample_distances_def list_update_code)
  qed
  show ?thesis
  proof (cases "rf_mavlinkMessage (config mp) = ''distance_sensor''")
    case True
    then show ?thesis using mn mx c le ds by auto
  next
    case False
    obtain x where x: "maxMetres mp < m \<and> x = mx + 1 \<or> \<not> maxMetres mp < m \<and> x = c"
      "msg = ObstacleDistance (word_of_int (duration_cast 1000 since)) MAV_DISTANCE_SENSOR_LASER
         (x # replicate 71 65535) 0 mn mx (Fin 0) (Fin 0) OBSTACLE_FRAME_BODY_FRD"
      using ob [OF False] c by (auto simp: d)
    have "if \<not> maxMetres mp < m then x = c else if mx = 65535 then x = 0 else unat x = unat mx + 1 \<and> mx < x"
      using x(1) marker_after [of mx] by (metis (full_types))
    with x(2) have "\<exists>d. msg = ObstacleDistance (word_of_int (duration_cast 1000 since)) MAV_DISTANCE_SENSOR_LASER
         (d # replicate 71 65535) 0 mn mx (Fin 0) (Fin 0) OBSTACLE_FRAME_BODY_FRD \<and>
       (if \<not> maxMetres mp < m then d = c else if mx = 65535 then d = 0 else unat d = unat mx + 1 \<and> mx < d)"
      by blast
    with mn mx c le False show ?thesis by simp
  qed
qed

definition scanned :: "string \<Rightarrow> double \<Rightarrow> double \<Rightarrow> Mapping" where
  "scanned kind limit m = OnScan 100 \<lparr>range_min = 0, range_max = limit, ranges = [m]\<rparr>
     (new_Mapping (default_rangefinder\<lparr>rf_output := ''mavlink'', rf_mavlinkMessage := kind, rf_sensorId := Some 7\<rparr>))"

lemma Centimetres_0: "Centimetres 0 = Ok 0"
  by (simp add: Centimetres_cases hundred zero_fp_def fp_mul_finite rnd_signed_def trunc_rat_def)

lemma scanned_simps [simp]:
  "minMetres (scanned kind limit m) = 0" "maxMetres (scanned kind limit m) = limit" "rf_sensorId (config (scanned kind limit m)) = Some 7"
  "rf_mavlinkMessage (config (scanned kind limit m)) = kind" "sampleTime (scanned kind limit m) = 100" "metres (scanned kind limit m) = Some m"
  by (simp_all add: scanned_def OnScan_def new_Mapping_def)

lemma std_max_0: "std_max 0 0 = (0 :: fp)"
  by (simp add: std_max_def)

theorem mavlink_message_contract_witness:
  "\<exists>cur. mavlink_message 0 (scanned ''distance_sensor'' (Fin 4) (Fin 2)) (Some (Fin 2)) =
      Ok (DistanceSensor 0 0 400 cur MAV_DISTANCE_SENSOR_LASER 7 MAV_SENSOR_ROTATION_NONE 255 (Fin 0) (Fin 0)
        [Fin 0, Fin 0, Fin 0, Fin 0] 0) \<and> cur \<le> 400"
proof -
  have c: "Centimetres (Fin 4) = Ok 400" "Centimetres (Fin 2) = Ok 200"
    by (simp_all add: Centimetres_cases hundred fp_mul_finite fp_eval trunc_rat_def)
  have k: "std_clamp (Fin 4) 0 max_metres = Fin 4" "std_clamp (Fin 2) 0 max_metres = Fin 2"
    by (simp_all add: std_clamp_def zero_fp_def max_metres_eq)
  have msg: "mavlink_message 0 (scanned ''distance_sensor'' (Fin 4) (Fin 2)) (Some (Fin 2)) =
      Ok (DistanceSensor 0 0 400 200 MAV_DISTANCE_SENSOR_LASER 7 MAV_SENSOR_ROTATION_NONE 255 (Fin 0) (Fin 0)
        [Fin 0, Fin 0, Fin 0, Fin 0] 0)"
    by (simp add: mavlink_message_def std_max_0 Centimetres_0 c k duration_cast_def)
  have s: "Sample 200 (scanned ''distance_sensor'' (Fin 4) (Fin 2)) = Some (Fin 2)"
    by (simp add: Sample_def rf_kStaleAfter_def zero_fp_def)
  from mavlink_message_contract [OF s msg] obtain mn mx cur where "Centimetres (Fin 4) = Ok mx" "cur \<le> mx"
      "mavlink_message 0 (scanned ''distance_sensor'' (Fin 4) (Fin 2)) (Some (Fin 2)) =
        Ok (DistanceSensor 0 mn mx cur MAV_DISTANCE_SENSOR_LASER 7 MAV_SENSOR_ROTATION_NONE 255 (Fin 0) (Fin 0)
        [Fin 0, Fin 0, Fin 0, Fin 0] 0)" "mn = 0"
    by (auto simp: msg k duration_cast_def std_max_0 Centimetres_0)
  with c show ?thesis by auto
qed

text \<open>With a maximum range of 655.35 m or more the marker for a reading beyond it, maximum plus one,
  wraps around in \<^verbatim>\<open>std::uint16_t\<close>: the message reports an obstacle at distance 0.\<close>

lemma obstacle_marker_wraps:
  assumes "rf_mavlinkMessage (config mp) = ''obstacle_distance''" "minMetres mp = 0"
    and "\<not> maxMetres mp < max_metres" "maxMetres mp \<noteq> NaN" "maxMetres mp < m"
  shows "\<exists>t. mavlink_message since mp (Some m) = Ok (ObstacleDistance t MAV_DISTANCE_SENSOR_LASER
      (no_sample_distances[0 := 0]) 0 0 65535 (Fin 0) (Fin 0) OBSTACLE_FRAME_BODY_FRD)"
proof -
  have "std_clamp (maxMetres mp) 0 max_metres = max_metres"
    using assms(3,4) by (cases "maxMetres mp") (auto simp: std_clamp_def zero_fp_def max_metres_eq less_fp_def)
  then have "\<exists>t. mavlink_message since mp (Some m) = Ok (ObstacleDistance t MAV_DISTANCE_SENSOR_LASER
      (no_sample_distances[0 := 65536]) 0 0 65535 (Fin 0) (Fin 0) OBSTACLE_FRAME_BODY_FRD)"
    using assms by (simp add: mavlink_message_def std_max_0 Centimetres_0 Centimetres_max)
  moreover have w: "(65536 :: u16) = 0" by simp
  ultimately show ?thesis by (simp only: w)
qed

text \<open>When the message is defined: the readings a laser gives.\<close>

lemma mavlink_message_defined:
  assumes "minMetres mp = NaN \<or> \<not> max_metres < minMetres mp" "maxMetres mp \<noteq> NaN"
    and "rf_mavlinkMessage (config mp) = ''distance_sensor'' \<Longrightarrow> rf_sensorId (config mp) \<noteq> None \<and> s \<noteq> None"
    and "\<And>m. s = Some m \<Longrightarrow> m \<noteq> NaN"
  shows "\<exists>msg. mavlink_message since mp s = Ok msg"
proof -
  have "isfinite (std_max 0 (minMetres mp)) \<and> 0 \<le> val (std_max 0 (minMetres mp)) \<and>
      val (std_max 0 (minMetres mp)) \<le> val max_metres"
    using assms(1) by (cases "minMetres mp") (auto simp: std_max_def zero_fp_def max_metres_eq less_fp_def)
  then obtain mn where mn: "Centimetres (std_max 0 (minMetres mp)) = Ok mn" using Centimetres_defined by blast
  have cl: "\<exists>c. Centimetres (std_clamp m 0 max_metres) = Ok c" if "m \<noteq> NaN" for m
    using Centimetres_defined clamp_range [OF that] by blast
  obtain mx where mx: "Centimetres (std_clamp (maxMetres mp) 0 max_metres) = Ok mx" using cl [OF assms(2)] by blast
  show ?thesis
  proof (cases s)
    case None
    with assms(3) mn mx show ?thesis by (auto simp: mavlink_message_def)
  next
    case (Some m)
    obtain c where "Centimetres (std_clamp m 0 max_metres) = Ok c" using cl assms(4) Some by blast
    with Some assms(3) mn mx show ?thesis by (auto simp: mavlink_message_def)
  qed
qed

section \<open>The mailbox of each mapping\<close>

definition scan_fresh :: "Mapping \<Rightarrow> bool" where
  "scan_fresh mp \<longleftrightarrow> lastSampleSent mp < sampleTime mp"

definition scan_poll :: "range_env \<times> MavlinkConfig \<times> int \<times> UdpSocket \<times> int \<Rightarrow> Mapping \<Rightarrow> bool \<times> Mapping" where
  "scan_poll t mp = (case t of (env, mav, start_time, u, now) \<Rightarrow>
     let mp' = snd (mavlink_step env mav start_time u now mp) in (lastSampleSent mp' \<noteq> lastSampleSent mp, mp'))"

lemma UpdateMavlink_keeps:
  assumes "UpdateMavlink env mav st u now mp = (r, mp')"
  shows "lastSampleSent mp' = lastSampleSent mp" "sampleTime mp' = sampleTime mp" "config mp' = config mp"
    "tcp mp' = tcp mp" "connecting mp' = connecting mp"
  using assms unfolding UpdateMavlink_def
  by (auto simp: Let_def split: if_splits outcome.splits option.splits)

lemma mavlink_step_state:
  assumes "mavlink_step env mav st u now mp = (r, mp')"
  shows "sampleTime mp' = sampleTime mp" "config mp' = config mp" "tcp mp' = tcp mp \<and> connecting mp' = connecting mp"
    "lastSampleSent mp' = (if rf_output (config mp) = ''mavlink'' \<and> scan_fresh mp then sampleTime mp else lastSampleSent mp)"
proof -
  have "sampleTime mp' = sampleTime mp \<and> config mp' = config mp \<and> (tcp mp' = tcp mp \<and> connecting mp' = connecting mp) \<and>
    lastSampleSent mp' = (if rf_output (config mp) = ''mavlink'' \<and> scan_fresh mp then sampleTime mp else lastSampleSent mp)"
    using assms unfolding mavlink_step_def scan_fresh_def
    by (auto simp: Let_def dest: UpdateMavlink_keeps split: if_splits prod.splits outcome.splits)
  then show "sampleTime mp' = sampleTime mp" "config mp' = config mp" "tcp mp' = tcp mp \<and> connecting mp' = connecting mp"
    "lastSampleSent mp' = (if rf_output (config mp) = ''mavlink'' \<and> scan_fresh mp then sampleTime mp else lastSampleSent mp)"
    by simp_all
qed

lemma scan_poll_state:
  assumes "scan_poll t mp = (c, mp')"
  shows "sampleTime mp' = sampleTime mp" "c \<longleftrightarrow> rf_output (config mp) = ''mavlink'' \<and> scan_fresh mp"
    "lastSampleSent mp' = (if c then sampleTime mp else lastSampleSent mp)"
proof -
  obtain env mav st u now where t: "t = (env, mav, st, u, now)" by (cases t) auto
  obtain r where r: "mavlink_step env mav st u now mp = (r, mp')"
    using assms by (cases "mavlink_step env mav st u now mp") (simp add: scan_poll_def t Let_def)
  note S = mavlink_step_state [OF r]
  show "sampleTime mp' = sampleTime mp" by (rule S(1))
  show c: "c \<longleftrightarrow> rf_output (config mp) = ''mavlink'' \<and> scan_fresh mp"
    using assms S(4) r by (auto simp: scan_poll_def t Let_def scan_fresh_def split: if_splits)
  show "lastSampleSent mp' = (if c then sampleTime mp else lastSampleSent mp)" using S(4) c by simp
qed

interpretation scan_slot: latest_slot scan_fresh "\<lambda>(now, scan). OnScan now scan" scan_poll
proof
  fix t s s'
  assume "scan_poll t s = (True, s')"
  from scan_poll_state(2) [OF this] show "scan_fresh s" by simp
next
  fix t s c s'
  assume "scan_poll t s = (c, s')" "c \<or> \<not> scan_fresh s"
  with scan_poll_state [OF this(1)] show "\<not> scan_fresh s'" by (auto simp: scan_fresh_def split: if_splits)
qed

text \<open>A \<^verbatim>\<open>DISTANCE_SENSOR\<close> mapping reports each scan at most once: an update of the mapping sends
  nothing unless it consumes a scan that no earlier update consumed, so over any interleaving of scans
  and updates there are at most as many messages as scans.\<close>

lemma distance_sensor_at_most_once:
  assumes "rf_mavlinkMessage (config mp) \<noteq> ''obstacle_distance''"
    and "mavlink_step env mav st u now mp = (Ok [d], mp')"
  shows "scan_poll (env, mav, st, u, now) mp = (True, mp') \<and>
    slot_run (\<lambda>(now, scan). OnScan now scan) scan_poll es mp' \<le> puts es"
proof -
  have f: "rf_output (config mp) = ''mavlink''" "scan_fresh mp"
    using assms unfolding mavlink_step_def scan_fresh_def by (auto simp: Let_def split: if_splits)
  obtain c where p: "scan_poll (env, mav, st, u, now) mp = (c, mp')"
    using assms(2) by (simp add: scan_poll_def Let_def)
  have c: "c" using scan_poll_state(2) [OF p] f by simp
  then have "\<not> scan_fresh mp'" using scan_slot.leaves_stale [OF p] by simp
  then show ?thesis using scan_slot.consumed_le_puts [of es mp'] p c by simp
qed

definition sample_renv :: range_env where
  "sample_renv = \<lparr>re_os = sample_os, re_pack = (\<lambda>_ _ _. [1]), re_sendto = (\<lambda>_. 1)\<rparr>"

section \<open>Status\<close>

record range_status =
  rs_name :: string
  rs_output :: string
  rs_topic :: string
  rs_tcp :: "string option"
  rs_outputs :: u64
  rs_invalid :: u64

definition range_LogStatus :: "RangefinderManager \<Rightarrow> range_status list" where
  "range_LogStatus rm = map (\<lambda>mp. \<lparr>rs_name = rf_name (config mp),
       rs_output = (if rf_output (config mp) = ''tfmini'' then ''tfmini'' else ''mavlink''),
       rs_topic = (if topicReady mp then ''ready'' else ''waiting''),
       rs_tcp = (if rf_output (config mp) = ''tfmini''
         then Some (if 0 \<le> tcp mp \<and> \<not> connecting mp then ''connected'' else ''disconnected'') else None),
       rs_outputs = outputs mp, rs_invalid = map_invalid mp\<rparr>) (rm_mappings rm)"

end
