(* ===== verification/BridgeApp.thy ===== *)
theory BridgeApp
  imports MotorMapper Packets GazeboTransport Odometry Rangefinder
begin

text \<open>
  \<^verbatim>\<open>BridgeApp.hh\<close> and \<^verbatim>\<open>BridgeApp.cc\<close>: the application object, its constructor, the handlers the main
  loop calls and the loop itself.  The clock readings, the results of the system calls and the
  callbacks Gazebo's threads run between two handlers are the fields of the record of one iteration.
  A handler that throws leaves the state it has changed so far.
\<close>

section \<open>State\<close>

record BridgeApp =
  app_config :: BridgeConfig
  motorSocket :: UdpSocket
  fdmSocket :: UdpSocket
  mavlinkSocket :: UdpSocket
  stateSubscriber :: GazeboStateSubscriber
  velocityConverter :: MotorVelocityConverter
  lastMotorCommand :: "double arr4"
  lastMotorPacketTime :: int
  lastFdmSendTime :: int
  lastStatusLogTime :: int
  startTime :: int
  app_rangefinders :: RangefinderManager
  app_odometry :: OdometryManager
  lastMavlinkHeartbeatTime :: int
  hasMavlinkOutput :: bool
  hasMotorPacket :: bool
  motorTimedOut :: bool
  loggedFirstMotor :: bool
  loggedFirstFdm :: bool
  motorPackets :: u64
  malformedMotorPackets :: u64
  fdmPackets :: u64
  app_kernel :: kernel

text \<open>What reaches the outside: actuator messages, datagrams, TFmini frames and status reports.\<close>

datatype emission =
    ActuatorMsg Actuators
  | FdmDatagram "sockaddr_in \<times> u8 list"
  | HeartbeatDatagram "sockaddr_in \<times> u8 list"
  | MavlinkDatagram "sockaddr_in \<times> u8 list"
  | TfminiFrame string "u8 list"
  | StatusLog bool bool string "u64 \<times> u64 \<times> u64" "range_status list" "odometry_status option"

text \<open>A handler gives what it has emitted, how it ended and the state it leaves.  Most handlers emit at the
  end or not at all: \<open>emits\<close> makes a handler of such a sender.\<close>

type_synonym sender = "(BridgeApp, emission list) action"

type_synonym handler = "BridgeApp \<Rightarrow> emission list \<times> unit outcome \<times> BridgeApp"

definition emits :: "sender \<Rightarrow> handler" where
  "emits a st = (case a st of
     (Ok out, st') \<Rightarrow> (out, Ok (), st')
   | (Throw e, st') \<Rightarrow> ([], Throw e, st')
   | (Undefined, st') \<Rightarrow> ([], Undefined, st'))"

text \<open>\<^verbatim>\<open>std::chrono::duration<double>(d).count()\<close> of a duration in nanoseconds.\<close>

definition seconds :: "int \<Rightarrow> double" where
  "seconds ns = of_count ns / lit 1000000000"

definition SecondsSince :: "int \<Rightarrow> int \<Rightarrow> double" where
  "SecondsSince now start_time = seconds (now - start_time)"

definition ZeroMotors :: "double arr4" where
  "ZeroMotors = Arr4 0 0 0 0"

section \<open>The constructor\<close>

text \<open>The members in the order of their declaration, then the body.  When a later step throws, the
  sockets opened before are closed by their destructors.\<close>

definition any_mavlink :: "BridgeConfig \<Rightarrow> bool" where
  "any_mavlink c \<longleftrightarrow> odo_enabled (odometry c) \<or> has_mavlink (rangefinders c)"

definition close_sockets :: "UdpSocket list \<Rightarrow> kernel \<Rightarrow> kernel" where
  "close_sockets us k = fold (\<lambda>u k. snd (Close (u, k))) us k"

record gz_env =
  gz_subscribe :: "string \<Rightarrow> bool"
  gz_advertise :: "string \<Rightarrow> bool"

text \<open>The sockets of the body, one after the other; the result of the first failure.\<close>

definition open_sockets ::
  "os \<Rightarrow> BridgeConfig \<Rightarrow> kernel \<Rightarrow> unit outcome \<times> UdpSocket \<times> UdpSocket \<times> UdpSocket \<times> kernel" where
  "open_sockets env c k = (case Bind env (sitl_motorPort (sitl c)) (new_UdpSocket, k) of
     (Ok _, ms, k) \<Rightarrow>
       (case SetDestination env (sitl_address (sitl c)) (sitl_fdmPort (sitl c)) (new_UdpSocket, k) of
         (Ok _, fs, k) \<Rightarrow>
           if any_mavlink c
           then (case SetDestination env (mav_address (mavlink c)) (mav_port (mavlink c)) (new_UdpSocket, k) of
               (r, vs, k) \<Rightarrow> (r, ms, fs, vs, k))
           else (Ok (), ms, fs, new_UdpSocket, k)
       | (r, fs, k) \<Rightarrow> (r, ms, fs, new_UdpSocket, k))
   | (r, ms, k) \<Rightarrow> (r, ms, new_UdpSocket, new_UdpSocket, k))"

definition new_BridgeApp :: "os \<Rightarrow> gz_env \<Rightarrow> int \<Rightarrow> BridgeConfig \<Rightarrow> kernel \<Rightarrow> BridgeApp outcome \<times> kernel" where
  "new_BridgeApp env gz now c k =
     (case obind (new_GazeboStateSubscriber (gz_subscribe gz) (gazebo c)) (\<lambda>sub.
           obind (new_ActuatorPublisher (gz_advertise gz) (gazebo c)) (\<lambda>_.
           obind (new_converter (mot_minRotorVelocityRadS (motors c)) (mot_maxRotorVelocityRadS (motors c))) (\<lambda>cv.
             Ok (sub, cv)))) of
       Throw e \<Rightarrow> (Throw e, k)
     | Undefined \<Rightarrow> (Undefined, k)
     | Ok (sub, cv) \<Rightarrow>
       (case new_RangefinderManager env (gz_subscribe gz) (rangefinders c) (mavlink c) now k of
         (Throw e, k) \<Rightarrow> (Throw e, k)
       | (Undefined, k) \<Rightarrow> (Undefined, k)
       | (Ok rm, k) \<Rightarrow>
         (case new_OdometryManager env (gz_subscribe gz) (odometry c) (mavlink c) k of
           (Throw e, k) \<Rightarrow> (Throw e, close_sockets [rm_udp rm] k)
         | (Undefined, k) \<Rightarrow> (Undefined, k)
         | (Ok om, k) \<Rightarrow>
           (case open_sockets env c k of
             (Throw e, ms, fs, vs, k) \<Rightarrow> (Throw e, close_sockets [udp om, rm_udp rm, vs, fs, ms] k)
           | (Undefined, ms, fs, vs, k) \<Rightarrow> (Undefined, k)
           | (Ok _, ms, fs, vs, k) \<Rightarrow>
               (Ok \<lparr>app_config = c, motorSocket = ms, fdmSocket = fs, mavlinkSocket = vs, stateSubscriber = sub,
                  velocityConverter = cv, lastMotorCommand = ZeroMotors, lastMotorPacketTime = 0,
                  lastFdmSendTime = 0, lastStatusLogTime = 0, startTime = now, app_rangefinders = rm,
                  app_odometry = om, lastMavlinkHeartbeatTime = 0, hasMavlinkOutput = any_mavlink c,
                  hasMotorPacket = False, motorTimedOut = False, loggedFirstMotor = False,
                  loggedFirstFdm = False, motorPackets = 0, malformedMotorPackets = 0, fdmPackets = 0,
                  app_kernel = k\<rparr>, k)))))"

section \<open>Motor packets\<close>

text \<open>One round of the receive loop: \<open>Ok True\<close> goes on, \<open>Ok False\<close> is the \<^verbatim>\<open>break\<close>.  A \<^verbatim>\<open>float\<close> converts to
  \<^verbatim>\<open>double\<close> without change, so the commands are the packet's members.\<close>

definition receive_one :: "os \<Rightarrow> recvfrom \<times> int \<Rightarrow> (BridgeApp, bool) action" where
  "receive_one env rt st = (let (r, now) = rt in case Receive env r (motorSocket st) of
       Throw e \<Rightarrow> (Throw e, st)
     | Undefined \<Rightarrow> (Undefined, st)
     | Ok None \<Rightarrow> (Ok False, st)
     | Ok (Some bytes) \<Rightarrow>
         if length bytes \<noteq> ServoPacket_size
         then (Ok True, st\<lparr>malformedMotorPackets := malformedMotorPackets st + 1\<rparr>)
         else let packetCommands = motorSpeed (ServoPacket_of_bytes bytes) in
           if \<not> arr4_all isfinite packetCommands
           then (Ok True, st\<lparr>malformedMotorPackets := malformedMotorPackets st + 1\<rparr>)
           else (Ok True, st\<lparr>lastMotorCommand := SitlPacketToBetaflightMotorOrder packetCommands,
               lastMotorPacketTime := now, hasMotorPacket := True, motorTimedOut := False,
               motorPackets := motorPackets st + 1,
               loggedFirstMotor := loggedFirstMotor st \<or> log_logFirstPackets (logging (app_config st))\<rparr>))"

text \<open>The loop runs as long as datagrams are waiting; \<open>rs i\<close> is what the \<open>i\<close>-th \<^verbatim>\<open>recvfrom\<close> of this call
  returns and the clock after it.  A loop that never ends is \<open>None\<close>.\<close>

partial_function (option) receive_loop ::
  "os \<Rightarrow> (nat \<Rightarrow> recvfrom \<times> int) \<Rightarrow> nat \<Rightarrow> BridgeApp \<Rightarrow> (unit outcome \<times> BridgeApp) option" where
  "receive_loop env rs i st = (case receive_one env (rs i) st of (r, st') \<Rightarrow> (case r of
       Ok goes_on \<Rightarrow> if goes_on then receive_loop env rs (Suc i) st' else Some (Ok (), st')
     | Throw e \<Rightarrow> Some (Throw e, st')
     | Undefined \<Rightarrow> Some (Undefined, st')))"

definition ReceiveMotorPackets ::
  "os \<Rightarrow> (nat \<Rightarrow> recvfrom \<times> int) \<Rightarrow> BridgeApp \<Rightarrow> (unit outcome \<times> BridgeApp) option" where
  "ReceiveMotorPackets env rs st = receive_loop env rs 0 st"

definition PublishMotorCommandIfNeeded :: "int \<Rightarrow> sender" where
  "PublishMotorCommandIfNeeded now st = (let
     age = seconds (now - lastMotorPacketTime st);
     current = (hasMotorPacket st \<and> age \<le> mot_timeoutSeconds (motors (app_config st)));
     command = (if current then lastMotorCommand st else ZeroMotors);
     st' = (if hasMotorPacket st \<and> \<not> current then st\<lparr>motorTimedOut := True\<rparr> else st)
     in (obind (Apply (mot_map (motors (app_config st))) command) (\<lambda>mapped.
           obind (arr4_mapM (Convert (velocityConverter st)) mapped) (\<lambda>velocities.
             Ok [ActuatorMsg (Publish velocities)])), st'))"

section \<open>FDM, heartbeat and status\<close>

text \<open>\<open>now\<close> is the first clock reading, \<open>now'\<close> the one inside \<^verbatim>\<open>SecondsSince\<close>; \<open>sendto\<close> is the result of the
  system call.\<close>

definition SendFdmIfNeeded ::
  "os \<Rightarrow> (double \<Rightarrow> double \<Rightarrow> double) \<Rightarrow> (u8 list \<Rightarrow> int) \<Rightarrow> int \<Rightarrow> int \<Rightarrow> sender" where
  "SendFdmIfNeeded env pow sendto now now' st = (let
     period = 1 / fdm_rateHz (fdm (app_config st)) in
     if seconds (now - lastFdmSendTime st) < period then (Ok [], st)
     else case Snapshot (stateSubscriber st) of
       None \<Rightarrow> (Ok [], st)
     | Some s \<Rightarrow> (let
         packet = Build pow (fdm (app_config st)) s (SecondsSince now' (startTime st));
         bytes = FdmPacket_bytes packet in
         case Send env (sendto bytes) bytes (fdmSocket st) of
           Throw e \<Rightarrow> (Throw e, st)
         | Undefined \<Rightarrow> (Undefined, st)
         | Ok d \<Rightarrow> (Ok [FdmDatagram d], st\<lparr>lastFdmSendTime := now, fdmPackets := fdmPackets st + 1,
             loggedFirstFdm := loggedFirstFdm st \<or> log_logFirstPackets (logging (app_config st))\<rparr>)))"

datatype mav_type = MAV_TYPE_ONBOARD_CONTROLLER
datatype mav_autopilot = MAV_AUTOPILOT_INVALID
datatype mav_state = MAV_STATE_ACTIVE

record heartbeat_args =
  hb_type :: mav_type
  hb_autopilot :: mav_autopilot
  hb_baseMode :: u8
  hb_customMode :: u32
  hb_status :: mav_state

definition heartbeat :: heartbeat_args where
  "heartbeat = \<lparr>hb_type = MAV_TYPE_ONBOARD_CONTROLLER, hb_autopilot = MAV_AUTOPILOT_INVALID, hb_baseMode = 0,
     hb_customMode = 0, hb_status = MAV_STATE_ACTIVE\<rparr>"

definition SendMavlinkHeartbeatIfNeeded ::
  "os \<Rightarrow> (u8 \<Rightarrow> u8 \<Rightarrow> heartbeat_args \<Rightarrow> u8 list) \<Rightarrow> (u8 list \<Rightarrow> int) \<Rightarrow> int \<Rightarrow> sender" where
  "SendMavlinkHeartbeatIfNeeded env message sendto now st =
     (if \<not> hasMavlinkOutput st \<or> now - lastMavlinkHeartbeatTime st < 1000000000 then (Ok [], st)
      else let bytes = message (mav_systemId (mavlink (app_config st))) (mav_componentId (mavlink (app_config st))) heartbeat in
        case Send env (sendto bytes) bytes (mavlinkSocket st) of
          Throw e \<Rightarrow> (Throw e, st)
        | Undefined \<Rightarrow> (Undefined, st)
        | Ok d \<Rightarrow> (Ok [HeartbeatDatagram d], st\<lparr>lastMavlinkHeartbeatTime := now\<rparr>))"

definition LogStatusIfNeeded :: "int \<Rightarrow> sender" where
  "LogStatusIfNeeded now st =
     (if seconds (now - lastStatusLogTime st) < log_statusPeriodSeconds (logging (app_config st)) then (Ok [], st)
      else let navsatStatus = (if gz_navsatTopic (gazebo (app_config st)) = None then ''disabled''
             else if HasNavSat (stateSubscriber st) then ''ready'' else ''waiting'') in
        (Ok [StatusLog (HasImu (stateSubscriber st)) (HasAltimeter (stateSubscriber st)) navsatStatus (fdmPackets st, motorPackets st, malformedMotorPackets st)
           (range_LogStatus (app_rangefinders st)) (odometry_LogStatus (app_odometry st))],
         st\<lparr>lastStatusLogTime := now\<rparr>))"

section \<open>The main loop\<close>

text \<open>What Gazebo's threads may do between two handlers: each callback runs under its mutex.\<close>

datatype callback = SensorCallback sensor_msg | OdometryCallback int Odometry_msg | ScanCallback nat int LaserScan

fun run_callback :: "callback \<Rightarrow> BridgeApp \<Rightarrow> BridgeApp" where
  "run_callback (SensorCallback m) st = st\<lparr>stateSubscriber := deliver m (stateSubscriber st)\<rparr>"
| "run_callback (OdometryCallback now m) st = st\<lparr>app_odometry := OnOdometry now m (app_odometry st)\<rparr>"
| "run_callback (ScanCallback i now scan) st = (let rm = app_rangefinders st; ms = rm_mappings rm in
     if i < length ms then st\<lparr>app_rangefinders := rm\<lparr>rm_mappings := ms[i := OnScan now scan (ms ! i)]\<rparr>\<rparr> else st)"

record iteration =
  it_callbacks :: "nat \<Rightarrow> callback list"
  it_recv :: "nat \<Rightarrow> recvfrom \<times> int"
  it_publish_now :: int
  it_fdm_now :: int
  it_fdm_stamp :: int
  it_fdm_sendto :: "u8 list \<Rightarrow> int"
  it_tcp :: "string \<Rightarrow> tcp_env"
  it_range :: range_env
  it_tfmini_now :: int
  it_range_now :: int
  it_odometry :: odometry_env
  it_odometry_now :: int
  it_heartbeat_pack :: "u8 \<Rightarrow> u8 \<Rightarrow> heartbeat_args \<Rightarrow> u8 list"
  it_heartbeat_sendto :: "u8 list \<Rightarrow> int"
  it_heartbeat_now :: int
  it_log_now :: int

definition UpdateRangefinders :: "iteration \<Rightarrow> handler" where
  "UpdateRangefinders it st = (case range_Update (it_tcp it) (it_range it) (it_tfmini_now it) (it_range_now it)
       (app_rangefinders st, app_kernel st) of
     (frames, sent, r, rm, k) \<Rightarrow> (map (\<lambda>(n, f). TfminiFrame n f) frames @ map MavlinkDatagram sent, r,
       st\<lparr>app_rangefinders := rm, app_kernel := k\<rparr>))"

definition UpdateOdometry :: "iteration \<Rightarrow> sender" where
  "UpdateOdometry it st = (case odometry_Update (it_odometry it) (it_odometry_now it) (app_odometry st) of
     (r, om) \<Rightarrow> (obind r (\<lambda>d. Ok (case d of None \<Rightarrow> [] | Some x \<Rightarrow> [MavlinkDatagram x])), st\<lparr>app_odometry := om\<rparr>))"

text \<open>The handlers after the receive loop, in the order of \<^verbatim>\<open>Run\<close>.\<close>

definition handlers :: "os \<Rightarrow> (double \<Rightarrow> double \<Rightarrow> double) \<Rightarrow> iteration \<Rightarrow> handler list" where
  "handlers env pow it =
     [emits (PublishMotorCommandIfNeeded (it_publish_now it)),
      emits (SendFdmIfNeeded env pow (it_fdm_sendto it) (it_fdm_now it) (it_fdm_stamp it)),
      UpdateRangefinders it,
      emits (UpdateOdometry it),
      emits (SendMavlinkHeartbeatIfNeeded env (it_heartbeat_pack it) (it_heartbeat_sendto it) (it_heartbeat_now it)),
      emits (LogStatusIfNeeded (it_log_now it))]"

text \<open>Handlers one after the other with callbacks before each; a handler that throws ends the
  sequence.  What was emitted before, also by that handler, is emitted.\<close>

fun run_handlers :: "(nat \<Rightarrow> callback list) \<Rightarrow> nat \<Rightarrow> handler list \<Rightarrow> BridgeApp \<Rightarrow> emission list \<times> unit outcome \<times> BridgeApp" where
  "run_handlers cb i [] st = ([], Ok (), fold run_callback (cb i) st)"
| "run_handlers cb i (h # hs) st = (case h (fold run_callback (cb i) st) of
     (out, Ok _, st') \<Rightarrow> (case run_handlers cb (Suc i) hs st' of (outs, r) \<Rightarrow> (out @ outs, r))
   | (out, Throw e, st') \<Rightarrow> (out, Throw e, st')
   | (out, Undefined, st') \<Rightarrow> (out, Undefined, st'))"

definition run_iteration ::
  "os \<Rightarrow> (double \<Rightarrow> double \<Rightarrow> double) \<Rightarrow> iteration \<Rightarrow> BridgeApp \<Rightarrow> (emission list \<times> unit outcome \<times> BridgeApp) option" where
  "run_iteration env pow it st = (case ReceiveMotorPackets env (it_recv it) (fold run_callback (it_callbacks it 0) st) of
       None \<Rightarrow> None
     | Some (Ok _, st') \<Rightarrow> Some (run_handlers (it_callbacks it) 1 (handlers env pow it) st')
     | Some (Throw e, st') \<Rightarrow> Some ([], Throw e, st')
     | Some (Undefined, st') \<Rightarrow> Some ([], Undefined, st'))"

text \<open>\<^verbatim>\<open>Run\<close>: the iterations until the stop flag is seen set, then the zero command and the return value.\<close>

fun Run ::
  "os \<Rightarrow> (double \<Rightarrow> double \<Rightarrow> double) \<Rightarrow> iteration list \<Rightarrow> BridgeApp \<Rightarrow> (emission list \<times> int outcome \<times> BridgeApp) option" where
  "Run env pow [] st = Some ([ActuatorMsg (Publish ZeroMotors)], Ok 0, st)"
| "Run env pow (it # its) st = (case run_iteration env pow it st of
       None \<Rightarrow> None
     | Some (out, Throw e, st') \<Rightarrow> Some (out, Throw e, st')
     | Some (out, Undefined, st') \<Rightarrow> Some (out, Undefined, st')
     | Some (out, Ok _, st') \<Rightarrow> (case Run env pow its st' of
           None \<Rightarrow> None
         | Some (outs, r, st'') \<Rightarrow> Some (out @ outs, r, st'')))"

end
