(* ===== verification/RangefinderErrors.thy ===== *)
theory RangefinderErrors
  imports Rangefinder
begin

text \<open>
  What \<^verbatim>\<open>RangefinderManager::Update\<close> can fail with, and when its conversions to \<^verbatim>\<open>std::uint16_t\<close> are
  defined: \<open>range_ready\<close> (the MAVLink socket is set up when a mapping needs it) and \<open>range_sane\<close> (the stored
  readings convert) are kept by every update.
\<close>

section \<open>Errors of the manager\<close>

definition range_ready :: "RangefinderManager \<Rightarrow> bool" where
  "range_ready rm \<longleftrightarrow> (list_ex (\<lambda>mp. rf_output (config mp) = ''mavlink'') (rm_mappings rm) \<longrightarrow>
     0 \<le> fd (rm_udp rm) \<and> hasDestination (rm_udp rm))"

lemma Centimetres_never_throws: "Centimetres m \<noteq> Throw e"
  by (simp add: Centimetres_cases)

lemma obind_eq_Throw: "obind m f = Throw e \<longleftrightarrow> m = Throw e \<or> (\<exists>x. m = Ok x \<and> f x = Throw e)"
  by (cases m) simp_all

lemma mavlink_message_never_throws: "mavlink_message since mp s \<noteq> Throw e"
  by (auto simp: mavlink_message_def obind_eq_Throw Centimetres_never_throws defined_def split: option.splits if_splits)

lemma UpdateTfmini_never_throws: "fst (UpdateTfmini env now x) \<noteq> Throw e"
  by (auto simp: UpdateTfmini_def Let_def EncodeTfmini_never_throws Centimetres_never_throws
      split: prod.splits outcome.splits option.splits)

lemma UpdateTfmini_config:
  assumes "UpdateTfmini env now (mp, k) = (r, mp', k')"
  shows "config mp' = config mp"
proof -
  have c: "config (fst (Connect env now (mp, k))) = config mp"
    by (auto simp: Connect_def Let_def split: option.splits connect_result.splits)
  have c': "config (fst (snd (Connected env x))) = config (fst x)" for x
    by (auto simp: Connected_def Let_def split: prod.splits)
  obtain up m1 k1 where c1: "Connected env (Connect env now (mp, k)) = (up, m1, k1)" by (metis prod.collapse)
  then have "config m1 = config mp" using c' [of "Connect env now (mp, k)"] c by simp
  then show ?thesis using assms unfolding UpdateTfmini_def c1
    by (auto simp: Let_def split: if_splits outcome.splits option.splits)
qed

lemma tfmini_pass_state:
  assumes "tfmini_pass env now ms k = (out, r, ms', k')"
  shows "r \<noteq> Throw e" and "map config ms' = map config ms"
proof -
  have "r \<noteq> Throw e \<and> map config ms' = map config ms"
    using assms
  proof (induction ms arbitrary: k out r ms' k')
    case Nil
    then show ?case by auto
  next
    case (Cons mp ms)
    obtain o1 r1 ms1 k1 where rest: "tfmini_pass env now ms k = (o1, r1, ms1, k1)" by (metis prod.collapse)
    show ?case
    proof (cases "rf_output (config mp) = ''tfmini''")
      case False
      then show ?thesis using Cons.IH [OF rest] Cons.prems rest by auto
    next
      case True
      obtain r2 mp2 k2 where u: "UpdateTfmini (env (rf_name (config mp))) now (mp, k) = (r2, mp2, k2)" by (metis prod.collapse)
      obtain o3 r3 ms3 k3 where rest2: "tfmini_pass env now ms k2 = (o3, r3, ms3, k3)" by (metis prod.collapse)
      have "r2 \<noteq> Throw e'" for e' using UpdateTfmini_never_throws [of "env (rf_name (config mp))" now "(mp, k)" e'] u by simp
      then show ?thesis
        using Cons.prems True u rest2 Cons.IH [OF rest2] UpdateTfmini_config [OF u]
        by (cases r2; cases r3) auto
    qed
  qed
  then show "r \<noteq> Throw e" "map config ms' = map config ms" by auto
qed

lemma mavlink_step_throws:
  assumes "mavlink_step env mav st u now mp = (Throw e, mp')"
    and "rf_output (config mp) = ''mavlink'' \<Longrightarrow> 0 \<le> fd u \<and> hasDestination u"
  shows "e = ''sendto failed: '' @ os_strerror (re_os env)"
  using assms unfolding mavlink_step_def UpdateMavlink_def
  by (auto simp: Let_def mavlink_message_never_throws Send_ready split: if_splits prod.splits outcome.splits)

lemma each_mapping_state:
  assumes "each_mapping f ss = (out, r, ss')"
  shows "r = Throw e \<Longrightarrow> \<exists>s \<in> set ss. fst (f s) = Throw e"
    and "(\<And>s s' r. f s = (r, s') \<Longrightarrow> P s' = P s) \<Longrightarrow> map P ss' = map P ss"
  using assms by (induction ss arbitrary: out r ss') (auto split: prod.splits outcome.splits)

lemma range_Update_state:
  assumes "range_Update tenv env now1 now2 (rm, k) = (frames, sent, r, rm', k')"
  shows "rm_udp rm' = rm_udp rm" and "map config (rm_mappings rm') = map config (rm_mappings rm)"
    and "range_ready rm \<Longrightarrow> r = Throw e \<Longrightarrow> e = ''sendto failed: '' @ os_strerror (re_os env)"
    and "range_ready rm \<Longrightarrow> range_ready rm'"
proof -
  obtain o1 r1 ms k1 where p: "tfmini_pass tenv now1 (rm_mappings rm) k = (o1, r1, ms, k1)" by (metis prod.collapse)
  let ?f = "mavlink_step env (rm_mavlink rm) (rm_start rm) (rm_udp rm) now2"
  obtain o2 r2 ms' where q: "each_mapping ?f ms = (o2, r2, ms')" by (metis prod.collapse)
  note P = tfmini_pass_state [OF p]
  have "config s' = config s" if "?f s = (r, s')" for s s' r by (rule mavlink_step_state(2) [OF that])
  from each_mapping_state(2) [OF q, of config] this have Q: "map config ms' = map config ms" by blast
  show u: "rm_udp rm' = rm_udp rm" and c: "map config (rm_mappings rm') = map config (rm_mappings rm)"
    using assms p q P(2) Q by (auto simp: range_Update_def split: outcome.splits)
  have L: "list_ex (\<lambda>mp. rf_output (config mp) = ''mavlink'') xs \<longleftrightarrow>
      (\<exists>c \<in> set (map config xs). rf_output c = ''mavlink'')" for xs
    by (auto simp: list_ex_iff)
  have "list_ex (\<lambda>mp. rf_output (config mp) = ''mavlink'') (rm_mappings rm') \<longleftrightarrow>
      list_ex (\<lambda>mp. rf_output (config mp) = ''mavlink'') (rm_mappings rm)"
    unfolding L c ..
  then show "range_ready rm \<Longrightarrow> range_ready rm'" by (simp add: range_ready_def u)
  show "e = ''sendto failed: '' @ os_strerror (re_os env)" if "range_ready rm" "r = Throw e"
  proof -
    have "r2 = Throw e"
      using assms p q that(2) P(1) by (cases r1; cases r2) (auto simp: range_Update_def)
    from each_mapping_state(1) [OF q this] obtain s where s: "s \<in> set ms" "fst (?f s) = Throw e" by blast
    obtain s' where "?f s = (Throw e, s')" using s(2) by (metis prod.collapse)
    moreover have "rf_output (config s) = ''mavlink'' \<Longrightarrow> 0 \<le> fd (rm_udp rm) \<and> hasDestination (rm_udp rm)"
    proof -
      assume o: "rf_output (config s) = ''mavlink''"
      have "config s \<in> set (map config (rm_mappings rm))" unfolding P(2) [symmetric] using s(1) by simp
      with o that(1) show ?thesis by (auto simp: range_ready_def list_ex_iff)
    qed
    ultimately show ?thesis by (rule mavlink_step_throws)
  qed
qed

lemma subscribe_all_configs:
  "subscribe_all subscribe cs = Ok ms \<Longrightarrow> ms = map new_Mapping (filter rf_enabled cs)"
  by (induction cs arbitrary: ms) (auto simp: obind_eq_Ok split: if_splits)

lemma new_RangefinderManager_ready:
  assumes "new_RangefinderManager env subscribe cs mav st k = (Ok rm, k')"
  shows "range_ready rm" and "rm_mappings rm = map new_Mapping (filter rf_enabled cs)" and "rm_mavlink rm = mav"
proof -
  obtain r u k1 where s: "(if has_mavlink cs then SetDestination env (mav_address mav) (mav_port mav) (new_UdpSocket, k)
       else (Ok (), new_UdpSocket, k)) = (r, u, k1)" by (metis prod.collapse)
  obtain ms where r: "r = Ok ()" and ms: "subscribe_all subscribe cs = Ok ms"
    and rm: "rm = \<lparr>rm_mavlink = mav, rm_start = st, rm_udp = u, rm_mappings = ms\<rparr>"
    using assms unfolding new_RangefinderManager_def s by (auto split: outcome.splits)
  show "rm_mappings rm = map new_Mapping (filter rf_enabled cs)" using subscribe_all_configs [OF ms] rm by simp
  show "rm_mavlink rm = mav" by (simp add: rm)
  have "0 \<le> fd u \<and> hasDestination u" if "has_mavlink cs"
  proof -
    have d: "SetDestination env (mav_address mav) (mav_port mav) (new_UdpSocket, k) = (Ok (), u, k1)"
      using s r that by simp
    from SetDestination_Ok [OF d] SetDestination_Ok_fd [OF d] show ?thesis by blast
  qed
  moreover have "list_ex (\<lambda>mp. rf_output (config mp) = ''mavlink'') ms \<Longrightarrow> has_mavlink cs"
    by (auto simp: subscribe_all_configs [OF ms] list_ex_iff has_mavlink_def new_Mapping_def)
  ultimately show "range_ready rm" by (simp add: range_ready_def rm)
qed

section \<open>Readings the conversions accept\<close>

text \<open>A reading below 655.36 m and limits a laser can have; what \<^verbatim>\<open>Validate\<close> guarantees for the sensor id.\<close>

definition sane_reading :: "double option \<Rightarrow> double \<Rightarrow> double \<Rightarrow> bool" where
  "sane_reading r mn mx \<longleftrightarrow> EncodeTfmini r \<noteq> Undefined \<and> (mn = NaN \<or> \<not> max_metres < mn) \<and> mx \<noteq> NaN"

definition sane_config :: "RangefinderConfig \<Rightarrow> bool" where
  "sane_config c \<longleftrightarrow> (rf_output c = ''mavlink'' \<and> rf_mavlinkMessage c = ''distance_sensor'' \<longrightarrow> rf_sensorId c \<noteq> None)"

definition sane_scan :: "LaserScan \<Rightarrow> bool" where
  "sane_scan scan \<longleftrightarrow> sane_reading (if length (ranges scan) = 1 then Some (ranges scan ! 0) else None) (range_min scan) (range_max scan)"

definition sane_mapping :: "Mapping \<Rightarrow> bool" where
  "sane_mapping mp \<longleftrightarrow> sane_reading (metres mp) (minMetres mp) (maxMetres mp) \<and> sane_config (config mp)"

definition readings :: "Mapping \<Rightarrow> RangefinderConfig \<times> double option \<times> double \<times> double" where
  "readings mp = (config mp, metres mp, minMetres mp, maxMetres mp)"

lemma sane_readings: "readings mp' = readings mp \<Longrightarrow> sane_mapping mp' \<longleftrightarrow> sane_mapping mp"
  by (simp add: sane_mapping_def readings_def)

lemma sane_new: "sane_config c \<Longrightarrow> sane_mapping (new_Mapping c)"
  by (simp add: sane_mapping_def new_Mapping_def sane_reading_def EncodeTfmini_Undefined max_metres_eq zero_fp_def less_fp_def)

lemma sane_OnScan: "sane_mapping mp \<Longrightarrow> sane_scan scan \<Longrightarrow> sane_mapping (OnScan now scan mp)"
  by (simp add: sane_mapping_def sane_scan_def OnScan_def)

lemma Sample_cases: "Sample now mp = None \<or> Sample now mp = metres mp"
  by (auto simp: Sample_def split: option.splits)

lemma sane_Encode: "sane_mapping mp \<Longrightarrow> EncodeTfmini (Sample now mp) \<noteq> Undefined"
  using Sample_cases [of now mp] by (auto simp: sane_mapping_def sane_reading_def EncodeTfmini_Undefined)

lemma Connect_readings: "readings (fst (Connect env now x)) = readings (fst x)"
  by (cases x) (auto simp: Connect_def Let_def readings_def split: option.splits connect_result.splits)

lemma Connected_readings: "readings (fst (snd (Connected env x))) = readings (fst x)"
  by (auto simp: Connected_def Let_def readings_def split: prod.splits)

lemma UpdateTfmini_sane:
  assumes "UpdateTfmini env now (mp, k) = (r, mp', k')" "sane_mapping mp"
  shows "r \<noteq> Undefined" and "sane_mapping mp'"
proof -
  obtain up m1 k1 where c1: "Connected env (Connect env now (mp, k)) = (up, m1, k1)" by (metis prod.collapse)
  then have m1: "readings m1 = readings mp"
    using Connected_readings [of env "Connect env now (mp, k)"] Connect_readings [of env now "(mp, k)"] by simp
  then have s: "sane_mapping m1" using sane_readings assms(2) by blast
  have "readings mp' = readings m1"
    using assms(1) unfolding UpdateTfmini_def c1
    by (auto simp: Let_def readings_def split: if_splits outcome.splits option.splits)
  with s show "sane_mapping mp'" using sane_readings by blast
  have "Centimetres m \<noteq> Undefined" if "Sample now m1 = Some m" for m
  proof
    assume u: "Centimetres m = Undefined"
    from Sample_Some [OF that] have "isfinite m \<and> 0 \<le> m" by (simp add: le_fp_finite zero_fp_def)
    with u have "EncodeTfmini (Some m) = Undefined" by (simp add: EncodeTfmini_def)
    with sane_Encode [OF s, of now] that show False by simp
  qed
  then show "r \<noteq> Undefined"
    using assms(1) sane_Encode [OF s] unfolding UpdateTfmini_def c1
    by (auto simp: Let_def split: if_splits outcome.splits option.splits)
qed

lemma tfmini_pass_sane:
  assumes "tfmini_pass env now ms k = (out, r, ms', k')" "list_all sane_mapping ms"
  shows "r \<noteq> Undefined \<and> list_all sane_mapping ms'"
  using assms
proof (induction ms arbitrary: k out r ms' k')
  case Nil
  then show ?case by auto
next
  case (Cons mp ms)
  show ?case
  proof (cases "rf_output (config mp) = ''tfmini''")
    case False
    obtain o1 r1 ms1 k1 where rest: "tfmini_pass env now ms k = (o1, r1, ms1, k1)" by (metis prod.collapse)
    then show ?thesis using Cons.IH [OF rest] Cons.prems False by auto
  next
    case True
    obtain r2 mp2 k2 where u: "UpdateTfmini (env (rf_name (config mp))) now (mp, k) = (r2, mp2, k2)" by (metis prod.collapse)
    obtain o3 r3 ms3 k3 where rest2: "tfmini_pass env now ms k2 = (o3, r3, ms3, k3)" by (metis prod.collapse)
    have s: "sane_mapping mp" "list_all sane_mapping ms" using Cons.prems(2) by simp_all
    show ?thesis
      using Cons.prems(1) True u rest2 Cons.IH [OF rest2 s(2)] UpdateTfmini_sane [OF u s(1)] s
      by (cases r2; cases r3) auto
  qed
qed

lemma sane_message:
  assumes "sane_mapping mp" "rf_output (config mp) = ''mavlink''"
    and "rf_mavlinkMessage (config mp) = ''distance_sensor'' \<Longrightarrow> Sample now mp \<noteq> None"
  shows "\<exists>msg. mavlink_message since mp (Sample now mp) = Ok msg"
proof (rule mavlink_message_defined)
  show "m \<noteq> NaN" if "Sample now mp = Some m" for m using Sample_Some [OF that] by auto
qed (use assms in \<open>auto simp: sane_mapping_def sane_reading_def sane_config_def\<close>)

lemma mavlink_step_sane:
  assumes "mavlink_step env mav st u now mp = (r, mp')" "sane_mapping mp"
  shows "r \<noteq> Undefined" and "sane_mapping mp'"
proof -
  let ?mp = "if lastSampleSent mp < sampleTime mp then mp\<lparr>lastSampleSent := sampleTime mp\<rparr> else mp"
  have s: "sane_mapping ?mp" using assms(2) by (simp add: sane_mapping_def)
  obtain r1 mp1 where U: "UpdateMavlink env mav st u now ?mp = (r1, mp1)" by force
  have "readings mp1 = readings ?mp"
    using U unfolding UpdateMavlink_def
    by (auto simp: Let_def readings_def split: if_splits outcome.splits option.splits)
  with s have s1: "sane_mapping mp1" using sane_readings by blast
  have "mavlink_message since ?mp (Sample now ?mp) \<noteq> Undefined"
    if o: "rf_output (config ?mp) = ''mavlink''" and c: "\<not> (rf_mavlinkMessage (config ?mp) = ''distance_sensor'' \<and>
        (case Sample now ?mp of None \<Rightarrow> True | Some m \<Rightarrow> maxMetres ?mp < m))" for since
    using sane_message [OF s o, of now since] c by (auto split: option.splits)
  then have "rf_output (config ?mp) = ''mavlink'' \<Longrightarrow> r1 \<noteq> Undefined" using U unfolding UpdateMavlink_def Let_def
    by (auto simp: Send_no_ub split: if_splits outcome.splits)
  with s1 s assms show "r \<noteq> Undefined" "sane_mapping mp'"
    using U unfolding mavlink_step_def by (auto simp: Let_def split: if_splits prod.splits outcome.splits)
qed

lemma each_mapping_sane:
  assumes "each_mapping f ss = (out, r, ss')" "\<And>s s' r. P s \<Longrightarrow> f s = (r, s') \<Longrightarrow> r \<noteq> Undefined \<and> P s'" "list_all P ss"
  shows "r \<noteq> Undefined \<and> list_all P ss'"
  using assms(1,3)
proof (induction ss arbitrary: out r ss')
  case (Cons s ss)
  obtain r1 s1 where f: "f s = (r1, s1)" by force
  obtain o2 r2 ss1 where e: "each_mapping f ss = (o2, r2, ss1)" by (metis prod.collapse)
  show ?case using Cons.prems Cons.IH [OF e] assms(2) [OF _ f] f e by (cases r1; cases r2) auto
qed simp

definition range_sane :: "RangefinderManager \<Rightarrow> bool" where
  "range_sane rm \<longleftrightarrow> list_all sane_mapping (rm_mappings rm)"

lemma range_Update_sane:
  assumes "range_Update tenv env now1 now2 (rm, k) = (frames, sent, r, rm', k')" "range_sane rm"
  shows "r \<noteq> Undefined" and "range_sane rm'"
proof -
  obtain o1 r1 ms k1 where p: "tfmini_pass tenv now1 (rm_mappings rm) k = (o1, r1, ms, k1)" by (metis prod.collapse)
  let ?f = "mavlink_step env (rm_mavlink rm) (rm_start rm) (rm_udp rm) now2"
  obtain o2 r2 ms' where q: "each_mapping ?f ms = (o2, r2, ms')" by (metis prod.collapse)
  have P: "r1 \<noteq> Undefined \<and> list_all sane_mapping ms"
    using tfmini_pass_sane [OF p] assms(2) by (simp add: range_sane_def)
  have Q: "r2 \<noteq> Undefined \<and> list_all sane_mapping ms'"
    by (rule each_mapping_sane [OF q _ P [THEN conjunct2]]) (use mavlink_step_sane in blast)
  show "r \<noteq> Undefined" "range_sane rm'"
    using assms(1) p q P Q by (cases r1; cases r2; auto simp: range_Update_def range_sane_def)+
qed

end
