(* ===== verification/BridgeHandlers.thy ===== *)
theory BridgeHandlers
  imports BridgeApp RangefinderErrors
begin

text \<open>
  What the handlers of \<^verbatim>\<open>BridgeApp.cc\<close> do, one by one: the receive loop against a fold over the
  waiting datagrams and when it returns, the actuator command, the FDM datagram and the heartbeat.
\<close>

section \<open>The receive loop\<close>

definition valid_datagram :: "u8 list \<Rightarrow> bool" where
  "valid_datagram bs \<longleftrightarrow> length bs = ServoPacket_size \<and> arr4_all isfinite (motorSpeed (ServoPacket_of_bytes bs))"

definition received_command :: "u8 list \<Rightarrow> double arr4" where
  "received_command bs = SitlPacketToBetaflightMotorOrder (motorSpeed (ServoPacket_of_bytes bs))"

text \<open>The abstract effect of the waiting datagrams: the last valid one counts, the others are counted.\<close>

definition motor_input :: "(u8 list \<times> int) list \<Rightarrow> BridgeApp \<Rightarrow> BridgeApp" where
  "motor_input ds st = (let vs = filter (\<lambda>d. valid_datagram (fst d)) ds in
     (if vs = [] then st
      else st\<lparr>lastMotorCommand := received_command (fst (last vs)), lastMotorPacketTime := snd (last vs),
        hasMotorPacket := True, motorTimedOut := False, motorPackets := motorPackets st + of_nat (length vs),
        loggedFirstMotor := loggedFirstMotor st \<or> log_logFirstPackets (logging (app_config st))\<rparr>)
     \<lparr>malformedMotorPackets := malformedMotorPackets st + of_nat (length ds - length vs)\<rparr>)"

lemma motor_input_Nil [simp]: "motor_input [] st = st"
  by (simp add: motor_input_def)

lemma motor_input_socket [simp]: "motorSocket (motor_input ds st) = motorSocket st"
  by (simp add: motor_input_def Let_def)

lemma motor_input_Cons: "motor_input (d # ds) st = motor_input ds (motor_input [d] st)"
proof -
  have le: "length (filter (\<lambda>d. valid_datagram (fst d)) ds) \<le> length ds" by (rule length_filter_le)
  show ?thesis
    by (cases "filter (\<lambda>d. valid_datagram (fst d)) ds = []")
      (use le in \<open>auto simp: motor_input_def Let_def Suc_diff_le add.assoc\<close>)
qed

lemma receive_one_datagram:
  assumes "0 \<le> fd (motorSocket st)"
  shows "receive_one env (Received bs, now) st = (Ok True, motor_input [(bs, now)] st)"
  using assms by (auto simp: receive_one_def Receive_def Let_def motor_input_def valid_datagram_def received_command_def)

lemma receive_one_failed:
  assumes "0 \<le> fd (motorSocket st)"
  shows "receive_one env (Failed e, now) st =
     (if e = EAGAIN \<or> e = EWOULDBLOCK then Ok False else Throw (''recvfrom failed: '' @ os_strerror env), st)"
  using assms by (simp add: receive_one_def Receive_def Let_def)

lemma receive_loop_datagrams:
  assumes "0 \<le> fd (motorSocket st)" "\<And>j. j < length ds \<Longrightarrow> rs (i + j) = (Received (fst (ds ! j)), snd (ds ! j))"
  shows "receive_loop env rs i st = receive_loop env rs (i + length ds) (motor_input ds st)"
  using assms
proof (induction ds arbitrary: i st)
  case Nil
  then show ?case by simp
next
  case (Cons d ds)
  have "rs i = (Received (fst d), snd d)" using Cons.prems(2) [of 0] by simp
  then have "receive_loop env rs i st = receive_loop env rs (Suc i) (motor_input [d] st)"
    using Cons.prems(1) by (subst receive_loop.simps) (simp add: receive_one_datagram)
  also have "\<dots> = receive_loop env rs (Suc i + length ds) (motor_input ds (motor_input [d] st))"
    using Cons.prems(1) Cons.prems(2) [of "Suc j" for j] by (intro Cons.IH) simp_all
  finally show ?case by (simp add: motor_input_Cons [symmetric])
qed

lemma receive_loop_end:
  assumes "0 \<le> fd (motorSocket st)" "rs i = (Failed e, now)"
  shows "receive_loop env rs i st =
     Some (if e = EAGAIN \<or> e = EWOULDBLOCK then Ok () else Throw (''recvfrom failed: '' @ os_strerror env), st)"
  using assms by (subst receive_loop.simps) (simp add: receive_one_failed)

lemma receive_loop_closed:
  "fd (motorSocket st) < 0 \<Longrightarrow> receive_loop env rs i st = Some (Throw ''Receive called on closed UDP socket'', st)"
  by (subst receive_loop.simps) (simp add: receive_one_def Receive_def Let_def split: prod.splits)

text \<open>The datagrams before the first failing \<^verbatim>\<open>recvfrom\<close>.\<close>

fun payload :: "recvfrom \<Rightarrow> u8 list" where
  "payload (Received bs) = bs"
| "payload (Failed e) = []"

definition waiting :: "(nat \<Rightarrow> recvfrom \<times> int) \<Rightarrow> nat \<Rightarrow> (u8 list \<times> int) list" where
  "waiting rs n = map (\<lambda>i. (payload (fst (rs i)), snd (rs i))) [0..<n]"

definition failing :: "recvfrom \<Rightarrow> bool" where
  "failing r = (case r of Received bs \<Rightarrow> False | Failed e \<Rightarrow> True)"

lemma ReceiveMotorPackets_waiting:
  assumes "0 \<le> fd (motorSocket st)" "\<And>i. i < n \<Longrightarrow> \<not> failing (fst (rs i))"
  shows "ReceiveMotorPackets env rs st = receive_loop env rs n (motor_input (waiting rs n) st)"
proof -
  have "rs (0 + j) = (Received (fst (waiting rs n ! j)), snd (waiting rs n ! j))" if "j < length (waiting rs n)" for j
    using assms(2) [of j] that by (cases "rs j"; cases "fst (rs j)") (auto simp: waiting_def failing_def)
  from receive_loop_datagrams [OF assms(1) this] show ?thesis by (simp add: ReceiveMotorPackets_def waiting_def)
qed

text \<open>If the loop returned without a failing call it would return after any number of rounds.\<close>

lemma receive_loop_returns:
  assumes "receive_loop env rs i st = Some r" "0 \<le> fd (motorSocket st)"
  shows "\<exists>j \<ge> i. failing (fst (rs j))"
proof -
  have "0 \<le> fd (motorSocket st) \<longrightarrow> (\<exists>j \<ge> i. failing (fst (rs j)))"
  proof (rule receive_loop.raw_induct [where P = "\<lambda>env rs i st r. 0 \<le> fd (motorSocket st) \<longrightarrow> (\<exists>j \<ge> i. failing (fst (rs j)))", OF _ assms(1)], intro impI)
    fix loop :: "os \<Rightarrow> (nat \<Rightarrow> recvfrom \<times> int) \<Rightarrow> nat \<Rightarrow> BridgeApp \<Rightarrow> (unit outcome \<times> BridgeApp) option"
      and env rs i st r
    assume IH: "\<And>env rs i st r. loop env rs i st = Some r \<Longrightarrow>
        0 \<le> fd (motorSocket st) \<longrightarrow> (\<exists>j \<ge> i. failing (fst (rs j)))"
      and eq: "(case receive_one env (rs i) st of (r, st') \<Rightarrow> (case r of
           Ok goes_on \<Rightarrow> if goes_on then loop env rs (Suc i) st' else Some (Ok (), st')
         | Throw e \<Rightarrow> Some (Throw e, st')
         | Undefined \<Rightarrow> Some (Undefined, st'))) = Some r"
      and o: "0 \<le> fd (motorSocket st)"
    show "\<exists>j \<ge> i. failing (fst (rs j))"
    proof (cases "failing (fst (rs i))")
      case True
      then show ?thesis by blast
    next
      case False
      then obtain bs now where "rs i = (Received bs, now)"
        by (cases "rs i"; cases "fst (rs i)") (auto simp: failing_def)
      with eq o have "loop env rs (Suc i) (motor_input [(bs, now)] st) = Some r"
        by (simp add: receive_one_datagram)
      from IH [OF this] o have "\<exists>j \<ge> Suc i. failing (fst (rs j))" by simp
      then show ?thesis by (auto intro: Suc_leD)
    qed
  qed
  with assms(2) show ?thesis by blast
qed

text \<open>The call ends at the first failing \<^verbatim>\<open>recvfrom\<close>, with the datagrams before it taken.\<close>

lemma receive_up_to:
  assumes "0 \<le> fd (motorSocket st)" "\<And>i. i < n \<Longrightarrow> \<not> failing (fst (rs i))" "fst (rs n) = Failed e"
  shows "ReceiveMotorPackets env rs st =
    Some (if e = EAGAIN \<or> e = EWOULDBLOCK then Ok () else Throw (''recvfrom failed: '' @ os_strerror env),
      motor_input (waiting rs n) st)"
proof -
  obtain now where n: "rs n = (Failed e, now)" using assms(3) by (cases "rs n") simp
  have "0 \<le> fd (motorSocket (motor_input (waiting rs n) st))" using assms(1) by simp
  from receive_loop_end [where rs = rs, OF this n, of env] show ?thesis
    using ReceiveMotorPackets_waiting [where rs = rs and env = env, OF assms(1,2)] by (simp only:)
qed

lemma receive_total:
  assumes "0 \<le> fd (motorSocket st)"
  shows "(\<exists>i. failing (fst (rs i))) \<longleftrightarrow> (\<exists>n e. ReceiveMotorPackets env rs st =
    Some (if e = EAGAIN \<or> e = EWOULDBLOCK then Ok () else Throw (''recvfrom failed: '' @ os_strerror env),
      motor_input (waiting rs n) st))" (is "?f \<longleftrightarrow> ?v")
    and "(\<exists>i. failing (fst (rs i))) \<longleftrightarrow> ReceiveMotorPackets env rs st \<noteq> None"
proof -
  have v: ?v if ?f
  proof -
    from that obtain n where n: "failing (fst (rs n))" "\<And>i. i < n \<Longrightarrow> \<not> failing (fst (rs i))"
      using exists_least_iff [of "\<lambda>n. failing (fst (rs n))"] by blast
    then obtain e where "fst (rs n) = Failed e" by (cases "fst (rs n)") (auto simp: failing_def)
    from receive_up_to [where rs = rs and env = env, OF assms n(2) this] show ?v by blast
  qed
  have f: ?f if "ReceiveMotorPackets env rs st \<noteq> None"
  proof -
    from that obtain r where "receive_loop env rs 0 st = Some r" by (auto simp only: ReceiveMotorPackets_def)
    from receive_loop_returns [OF this assms] show ?thesis by blast
  qed
  show "?f \<longleftrightarrow> ?v" "?f \<longleftrightarrow> ReceiveMotorPackets env rs st \<noteq> None" using v f by (metis option.distinct(1))+
qed

section \<open>The actuator command\<close>

text \<open>What the constructor establishes and every step keeps.\<close>

definition motors_ready :: "BridgeApp \<Rightarrow> bool" where
  "motors_ready st \<longleftrightarrow> valid_map (mot_map (motors (app_config st))) \<and>
     proper_range (minVelocityRadS (velocityConverter st)) (maxVelocityRadS (velocityConverter st)) \<and>
     arr4_all isfinite (lastMotorCommand st)"

definition current_command :: "int \<Rightarrow> BridgeApp \<Rightarrow> bool" where
  "current_command now st \<longleftrightarrow> hasMotorPacket st \<and>
     seconds (now - lastMotorPacketTime st) \<le> mot_timeoutSeconds (motors (app_config st))"

abbreviation app_velocity :: "BridgeApp \<Rightarrow> double \<Rightarrow> double" where
  "app_velocity st \<equiv> velocity (minVelocityRadS (velocityConverter st)) (maxVelocityRadS (velocityConverter st))"

lemma app_Convert: "isfinite c \<Longrightarrow> Convert (velocityConverter st) c = Ok (app_velocity st c)"
  by (cases "velocityConverter st") (simp add: Convert_finite)

lemma Publish_ready:
  assumes "motors_ready st"
  shows "\<exists>w. Apply (mot_map (motors (app_config st))) (if current_command now st then lastMotorCommand st else ZeroMotors) = Ok w \<and>
    arr4_all isfinite w \<and>
    PublishMotorCommandIfNeeded now st = (Ok [ActuatorMsg (Publish (map_arr4 (app_velocity st) w))],
      st\<lparr>motorTimedOut := motorTimedOut st \<or> hasMotorPacket st \<and> \<not> current_command now st\<rparr>)"
proof -
  let ?c = "if current_command now st then lastMotorCommand st else ZeroMotors"
  have c: "arr4_all isfinite ?c" using assms by (simp add: motors_ready_def ZeroMotors_def zero_fp_def)
  have m: "valid_map (mot_map (motors (app_config st)))" using assms by (simp add: motors_ready_def)
  obtain w where w: "Apply (mot_map (motors (app_config st))) ?c = Ok w" using gazebo_map.run_defined [OF m] by blast
  have f: "arr4_all isfinite w" using gazebo_map.run_all [OF m w] c by simp
  then have "arr4_mapM (Convert (velocityConverter st)) w = Ok (map_arr4 (app_velocity st) w)"
    by (intro arr4_mapM_Ok) (simp add: arr4_all_iff app_Convert)
  with w have "PublishMotorCommandIfNeeded now st = (Ok [ActuatorMsg (Publish (map_arr4 (app_velocity st) w))],
      st\<lparr>motorTimedOut := motorTimedOut st \<or> hasMotorPacket st \<and> \<not> current_command now st\<rparr>)"
    by (auto simp: PublishMotorCommandIfNeeded_def Let_def current_command_def)
  with w f show ?thesis by blast
qed

text \<open>The velocities a converter may give: from the configured minimum to the configured maximum, which
  is never exceeded when the minimum is 0 and otherwise by rounding at most, one part in \<open>2 ^ 51\<close> (for a
  maximum so large that the sum can overflow, the bound is the sum).\<close>

definition in_range :: "MotorVelocityConverter \<Rightarrow> double \<Rightarrow> bool" where
  "in_range cv v \<longleftrightarrow> (let lo = minVelocityRadS cv; hi = maxVelocityRadS cv in
     0 \<le> lo \<and> lo \<le> v \<and> v \<le> lo + (hi - lo) \<and> (val lo = 0 \<longrightarrow> v \<le> hi) \<and>
     (val hi < 2 ^ 1023 \<longrightarrow> v \<le> Fin (val hi * (1 + 1 / 2 ^ 51))))"

lemma app_velocity_range:
  assumes "motors_ready st" "isfinite c"
  shows "in_range (velocityConverter st) (app_velocity st c)"
proof -
  let ?lo = "minVelocityRadS (velocityConverter st)" and ?hi = "maxVelocityRadS (velocityConverter st)"
  have p: "proper_range ?lo ?hi" using assms(1) by (simp add: motors_ready_def)
  note v = velocity_bounds [OF p assms(2)]
  have "velocity ?lo ?hi c \<le> Fin (val ?hi * (1 + 1 / 2 ^ 51))" if "val ?hi < 2 ^ 1023"
    by (rule le_fp_trans [OF v(2) full_throttle_near [OF p that]])
  then show ?thesis
    using v width_from_zero [OF p] proper_range_nonneg [OF p] by (auto simp: in_range_def Let_def)
qed

lemma motor_input_ready: "motors_ready st \<Longrightarrow> motors_ready (motor_input ds st)"
proof -
  assume r: "motors_ready st"
  let ?vs = "filter (\<lambda>d. valid_datagram (fst d)) ds"
  have "arr4_all isfinite (received_command (fst (last ?vs)))" if "?vs \<noteq> []"
  proof -
    have "last ?vs \<in> set ?vs" using that by (rule last_in_set)
    then have "valid_datagram (fst (last ?vs))" by simp
    then show ?thesis
      by (cases "motorSpeed (ServoPacket_of_bytes (fst (last ?vs)))") (auto simp: valid_datagram_def received_command_def)
  qed
  with r show "motors_ready (motor_input ds st)" by (simp add: motor_input_def motors_ready_def Let_def)
qed

lemma valid_ServoPacket:
  assumes "arr4_all (representable b32) (motorSpeed p)" "arr4_all isfinite (motorSpeed p)"
  shows "valid_datagram (ServoPacket_bytes p)"
    and "received_command (ServoPacket_bytes p) = SitlPacketToBetaflightMotorOrder (motorSpeed p)"
  using assms by (simp_all add: valid_datagram_def received_command_def ServoPacket_roundtrip)

section \<open>The FDM datagram\<close>

definition socket_ready :: "UdpSocket \<Rightarrow> bool" where
  "socket_ready u \<longleftrightarrow> 0 \<le> fd u \<and> hasDestination u"

lemma socket_Send: "socket_ready u \<Longrightarrow> Send env sent bs u =
     (if 0 \<le> sent \<and> nat sent = length bs then Ok (destination u, bs) else Throw (''sendto failed: '' @ os_strerror env))"
  by (simp add: socket_ready_def Send_ready)

text \<open>The members of a snapshot that came out of protobuf \<^verbatim>\<open>double\<close> fields.\<close>

definition snapshot_doubles :: "SensorSnapshot \<Rightarrow> bool" where
  "snapshot_doubles s \<longleftrightarrow> list_all (representable b64) ([altitude s, verticalVelocity s, longitudeDeg s, latitudeDeg s,
     gpsAltitude s, velocityEast s, velocityNorth s, velocityUp s] @ arr3_list (angularVelocity s) @
     arr3_list (linearAcceleration s) @ arr4_list (orientationQuat s))"

lemma representable_0 [simp]: "representable b64 0"
  by (simp add: zero_fp_def)

lemma Build_doubles:
  assumes "snapshot_doubles s" "representable b64 t"
  shows "fdm_ok (Build pow c s t)"
proof -
  have p: "representable b64 (PressureFromAltitude pow h p)" for h p
    by (simp add: PressureFromAltitude_def Let_def representable_mul)
  have v3: "list_all (representable b64) (arr3_list (FluVectorToFrdSensor v))" if "list_all (representable b64) (arr3_list v)" for v
    using that by (cases v) (simp add: representable_neg)
  have v4: "list_all (representable b64) (arr4_list (FluBodyToEnuWorldQuatToGazeboBridgeQuat v))"
    if "list_all (representable b64) (arr4_list v)" for v
    using that by (cases v) (simp add: representable_neg)
  show ?thesis
    using assms by (simp add: fdm_ok_def FdmPacket_fields_def Build_def Let_def snapshot_doubles_def p v3 v4)
qed

lemma seconds_double: "representable b64 (seconds ns)"
  by (simp add: seconds_def representable_div)

lemma SendFdm_cases:
  assumes "SendFdmIfNeeded env pow sendto now now' st = (r, st')" "socket_ready (fdmSocket st)"
  obtains (idle) "seconds (now - lastFdmSendTime st) < 1 / fdm_rateHz (fdm (app_config st)) \<or> Snapshot (stateSubscriber st) = None"
      "r = Ok []" "st' = st"
    | (sent) s bytes where "\<not> seconds (now - lastFdmSendTime st) < 1 / fdm_rateHz (fdm (app_config st))"
      "Snapshot (stateSubscriber st) = Some s"
      "bytes = FdmPacket_bytes (Build pow (fdm (app_config st)) s (SecondsSince now' (startTime st)))"
      "r = Ok [FdmDatagram (destination (fdmSocket st), bytes)]"
      "st' = st\<lparr>lastFdmSendTime := now, fdmPackets := fdmPackets st + 1,
         loggedFirstFdm := loggedFirstFdm st \<or> log_logFirstPackets (logging (app_config st))\<rparr>"
    | (throws) "r = Throw (''sendto failed: '' @ os_strerror env)" "st' = st"
proof (cases "seconds (now - lastFdmSendTime st) < 1 / fdm_rateHz (fdm (app_config st)) \<or> Snapshot (stateSubscriber st) = None")
  case True
  with assms(1) have "r = Ok []" "st' = st" by (auto simp: SendFdmIfNeeded_def split: if_splits)
  with True show ?thesis by (rule idle)
next
  case False
  then obtain s where s: "Snapshot (stateSubscriber st) = Some s"
    and n: "\<not> seconds (now - lastFdmSendTime st) < 1 / fdm_rateHz (fdm (app_config st))" by blast
  let ?b = "FdmPacket_bytes (Build pow (fdm (app_config st)) s (SecondsSince now' (startTime st)))"
  show ?thesis
  proof (cases "0 \<le> sendto ?b \<and> nat (sendto ?b) = length ?b")
    case True
    show ?thesis
      by (rule sent [OF n s refl]) (insert assms(1), simp_all add: SendFdmIfNeeded_def n s socket_Send [OF assms(2)] True del: length_FdmPacket_bytes)
  next
    case False
    show ?thesis
      by (rule throws) (insert assms(1), simp_all add: SendFdmIfNeeded_def n s socket_Send [OF assms(2)] False del: length_FdmPacket_bytes)
  qed
qed

section \<open>The heartbeat\<close>

lemma Heartbeat_cases:
  assumes "SendMavlinkHeartbeatIfNeeded env message sendto now st = (r, st')"
    and "hasMavlinkOutput st \<longrightarrow> socket_ready (mavlinkSocket st)"
  obtains (idle) "\<not> hasMavlinkOutput st \<or> now - lastMavlinkHeartbeatTime st < 1000000000" "r = Ok []" "st' = st"
    | (sent) "hasMavlinkOutput st" "1000000000 \<le> now - lastMavlinkHeartbeatTime st"
      "r = Ok [HeartbeatDatagram (destination (mavlinkSocket st),
         message (mav_systemId (mavlink (app_config st))) (mav_componentId (mavlink (app_config st))) heartbeat)]"
      "st' = st\<lparr>lastMavlinkHeartbeatTime := now\<rparr>"
    | (throws) "r = Throw (''sendto failed: '' @ os_strerror env)" "st' = st"
proof (cases "\<not> hasMavlinkOutput st \<or> now - lastMavlinkHeartbeatTime st < 1000000000")
  case True
  with assms(1) have "r = Ok []" "st' = st" by (auto simp: SendMavlinkHeartbeatIfNeeded_def)
  with True show ?thesis by (rule idle)
next
  case False
  let ?b = "message (mav_systemId (mavlink (app_config st))) (mav_componentId (mavlink (app_config st))) heartbeat"
  from False have h: "hasMavlinkOutput st" "1000000000 \<le> now - lastMavlinkHeartbeatTime st" by simp_all
  with assms(2) have u: "socket_ready (mavlinkSocket st)" by blast
  show ?thesis
  proof (cases "0 \<le> sendto ?b \<and> nat (sendto ?b) = length ?b")
    case True
    show ?thesis
      by (rule sent [OF h]) (use assms(1) h in \<open>simp_all add: SendMavlinkHeartbeatIfNeeded_def socket_Send [OF u] True\<close>)
  next
    case False
    show ?thesis
      by (rule throws) (use assms(1) h in \<open>simp_all add: SendMavlinkHeartbeatIfNeeded_def socket_Send [OF u] False\<close>)
  qed
qed

section \<open>Properties\<close>

text \<open>C32: \<^verbatim>\<open>ReceiveMotorPackets\<close> returns if and only if some \<^verbatim>\<open>recvfrom\<close> of the call fails (with \<^verbatim>\<open>EAGAIN\<close> when
  the queue is empty): a sender that always has another datagram waiting keeps the main loop from ever
  reaching the publisher and its timeout.\<close>

theorem receive_returns_iff:
  assumes "0 \<le> fd (motorSocket st)"
  shows "ReceiveMotorPackets env rs st \<noteq> None \<longleftrightarrow> (\<exists>i. failing (fst (rs i)))"
  using receive_total(2) [OF assms] by simp

definition sample_app :: BridgeApp where
  "sample_app = \<lparr>app_config = default_config\<lparr>motors := default_motors\<lparr>mot_map := Arr4 1 2 3 0\<rparr>\<rparr>, motorSocket = new_UdpSocket\<lparr>fd := 3\<rparr>,
     fdmSocket = \<lparr>fd = 4, destination = no_address, hasDestination = True\<rparr>, mavlinkSocket = new_UdpSocket,
     stateSubscriber = \<lparr>sub_snapshot = new_SensorSnapshot, hasImu = True, hasAltimeter = True, navsatRequired = False\<rparr>,
     velocityConverter = \<lparr>minVelocityRadS = Fin 0, maxVelocityRadS = Fin 100\<rparr>, lastMotorCommand = ZeroMotors,
     lastMotorPacketTime = 0, lastFdmSendTime = 0, lastStatusLogTime = 0, startTime = 0,
     app_rangefinders = \<lparr>rm_mavlink = default_mavlink, rm_start = 0, rm_udp = new_UdpSocket, rm_mappings = []\<rparr>,
     app_odometry = \<lparr>enabled = False, odo_mavlink = default_mavlink, sample = None, sampleReceived = 0, generation = 0,
       sentGeneration = 0, messages = 0, invalid = 0, converter = new_OdometryConverter, udp = new_UdpSocket\<rparr>,
     lastMavlinkHeartbeatTime = 0, hasMavlinkOutput = False, hasMotorPacket = False, motorTimedOut = False,
     loggedFirstMotor = False, loggedFirstFdm = False, motorPackets = 0, malformedMotorPackets = 0, fdmPackets = 0,
     app_kernel = \<lparr>open_fds = {3, 4}, bad_close = False\<rparr>\<rparr>"

lemma sample_app_ready: "motors_ready sample_app" "0 \<le> fd (motorSocket sample_app)" "socket_ready (fdmSocket sample_app)"
    "mot_map (motors (app_config sample_app)) = Arr4 1 2 3 0"
  using proper_0_100
  by (auto simp: motors_ready_def sample_app_def default_config_def default_motors_def ZeroMotors_def
      zero_fp_def socket_ready_def valid_map_def simp del: One_nat_def)

lemma sample_app_timeout: "seconds 0 \<le> mot_timeoutSeconds (motors (app_config sample_app))"
proof -
  have "seconds 0 = Fin 0"
    by (simp add: seconds_def of_count_def lit_def fp_eval divide_fp_def fp_div_def Let_def rnd_signed_def)
  moreover have "Fin 0 \<le> lit (1 / 10)"
    using lit_between [of 0 "1/10" 1] by (simp add: fp_eval)
  ultimately show ?thesis by (simp add: sample_app_def default_motors_def)
qed

theorem receive_returns_iff_witness:
  "ReceiveMotorPackets sample_os (\<lambda>i. (if i < 2 then Received [] else Failed EAGAIN, 0)) sample_app \<noteq> None \<and>
   ReceiveMotorPackets sample_os (\<lambda>i. (Received [], 0)) sample_app = None"
proof
  have "failing (fst ((\<lambda>i. (if i < 2 then Received [] else Failed EAGAIN, 0::int)) (2::nat)))" by (simp add: failing_def)
  then show "ReceiveMotorPackets sample_os (\<lambda>i. (if i < 2 then Received [] else Failed EAGAIN, 0)) sample_app \<noteq> None"
    using receive_returns_iff [OF sample_app_ready(2)] by blast
  show "ReceiveMotorPackets sample_os (\<lambda>i. (Received [], 0)) sample_app = None"
    using receive_returns_iff [OF sample_app_ready(2), of sample_os "\<lambda>i. (Received [], 0)"]
    by (simp add: failing_def del: not_None_eq)
qed

text \<open>C7: a call that empties the queue has the effect of the datagrams taken together: the command is the
  last valid packet's (16 bytes, four finite numbers) in Betaflight's order with its time of arrival,
  every datagram is counted once as valid or malformed, and an error of \<^verbatim>\<open>recvfrom\<close> other than an empty
  queue is thrown after that.\<close>

theorem receive_takes_last_valid:
  assumes "0 \<le> fd (motorSocket st)" "\<And>i. i < n \<Longrightarrow> \<not> failing (fst (rs i))" "fst (rs n) = Failed e"
  shows "ReceiveMotorPackets env rs st =
    Some (if e = EAGAIN \<or> e = EWOULDBLOCK then Ok () else Throw (''recvfrom failed: '' @ os_strerror env),
      motor_input (waiting rs n) st)"
  by (rule receive_up_to [where rs = rs, OF assms])

theorem receive_takes_last_valid_witness:
  "ReceiveMotorPackets sample_os (\<lambda>i. (if i < 2 then Received [7] else Failed EAGAIN, 0)) sample_app =
     Some (Ok (), sample_app\<lparr>malformedMotorPackets := 2\<rparr>)"
  using receive_takes_last_valid [OF sample_app_ready(2), of 2 "\<lambda>i. (if i < 2 then Received [7] else Failed EAGAIN, 0)" EAGAIN sample_os]
  by (simp add: failing_def waiting_def motor_input_def valid_datagram_def ServoPacket_size_def sample_app_def numeral_2_eq_2)

text \<open>In a state the constructor leaves (accepted map and bounds, finite last command) the publisher never
  throws and sends one message per iteration whose four velocities are the mapped current command, at
  least \<^verbatim>\<open>min_rotor_velocity\<close>, at most \<^verbatim>\<open>min + (max - min)\<close> as rounded, never negative and never NaN.\<close>

lemma publish_in_range:
  assumes "motors_ready st"
  shows "\<exists>w. Apply (mot_map (motors (app_config st))) (if current_command now st then lastMotorCommand st else ZeroMotors) = Ok w \<and>
    fst (PublishMotorCommandIfNeeded now st) = Ok [ActuatorMsg \<lparr>act_velocity = map (app_velocity st) (arr4_list w)\<rparr>] \<and>
    list_all (in_range (velocityConverter st)) (map (app_velocity st) (arr4_list w)) \<and> motors_ready (snd (PublishMotorCommandIfNeeded now st))"
proof -
  obtain w where w: "Apply (mot_map (motors (app_config st))) (if current_command now st then lastMotorCommand st else ZeroMotors) = Ok w"
    and f: "arr4_all isfinite w"
    and p: "PublishMotorCommandIfNeeded now st = (Ok [ActuatorMsg (Publish (map_arr4 (app_velocity st) w))],
      st\<lparr>motorTimedOut := motorTimedOut st \<or> hasMotorPacket st \<and> \<not> current_command now st\<rparr>)"
    using Publish_ready [OF assms] by blast
  have "list_all (in_range (velocityConverter st)) (map (app_velocity st) (arr4_list w))"
    using f app_velocity_range [OF assms] by (simp add: list_all_iff arr4_all_iff)
  moreover have "motors_ready (snd (PublishMotorCommandIfNeeded now st))"
    using assms by (simp add: p motors_ready_def)
  ultimately show ?thesis using w p by (auto simp: Publish_def)
qed

text \<open>C38: without a packet, or when the last one is older than the timeout, every actuator gets
  \<^verbatim>\<open>min_rotor_velocity\<close>: with a positive lower bound the "zero" command of the time-out keeps the rotors
  turning.\<close>

theorem timeout_publishes_minimum:
  assumes "motors_ready st" "\<not> current_command now st"
  shows "\<exists>vs. fst (PublishMotorCommandIfNeeded now st) = Ok [ActuatorMsg \<lparr>act_velocity = vs\<rparr>] \<and> length vs = 4 \<and>
    list_all (\<lambda>v. minVelocityRadS (velocityConverter st) \<le> v \<and> v \<le> minVelocityRadS (velocityConverter st)) vs"
proof -
  obtain w where w: "Apply (mot_map (motors (app_config st))) ZeroMotors = Ok w"
    and p: "PublishMotorCommandIfNeeded now st = (Ok [ActuatorMsg (Publish (map_arr4 (app_velocity st) w))],
      st\<lparr>motorTimedOut := motorTimedOut st \<or> hasMotorPacket st \<and> \<not> current_command now st\<rparr>)"
    using Publish_ready [OF assms(1), of now] assms(2) by auto
  have "arr4_all (\<lambda>c. c = 0) w"
    using gazebo_map.run_all [OF _ w, of "\<lambda>c. c = 0"] assms(1) by (simp add: ZeroMotors_def motors_ready_def)
  then have "\<forall>c \<in> set (arr4_list w). c = 0" by (simp add: arr4_all_iff)
  moreover have "minVelocityRadS (velocityConverter st) \<le> app_velocity st 0" "app_velocity st 0 \<le> minVelocityRadS (velocityConverter st)"
    using velocity_bounds(1) [of _ _ 0] velocity_ends(1) [of _ _ 0] assms(1)
    by (simp_all add: motors_ready_def zero_fp_def)
  ultimately show ?thesis by (auto simp: p Publish_def list_all_iff)
qed

theorem timeout_publishes_minimum_witness:
  "\<exists>vs. fst (PublishMotorCommandIfNeeded 5 sample_app) = Ok [ActuatorMsg \<lparr>act_velocity = vs\<rparr>] \<and> length vs = 4 \<and>
    list_all (\<lambda>v. minVelocityRadS (velocityConverter sample_app) \<le> v \<and> v \<le> minVelocityRadS (velocityConverter sample_app)) vs"
  by (rule timeout_publishes_minimum [OF sample_app_ready(1)]) (simp add: current_command_def sample_app_def)

text \<open>C2: end to end, with the shipped map: when a well-formed servo packet is the last datagram of the queue,
  whatever came before it, the next publication within the timeout gives Gazebo's actuator \<open>i\<close> the
  velocity of the packet's entry \<open>i\<close>.\<close>

theorem packet_to_actuators:
  assumes "motors_ready st" "0 \<le> fd (motorSocket st)" "mot_map (motors (app_config st)) = Arr4 1 2 3 0"
    and "arr4_all (representable b32) (motorSpeed p)" "arr4_all isfinite (motorSpeed p)"
    and "\<And>i. i < n \<Longrightarrow> \<not> failing (fst (rs i))" "rs n = (Received (ServoPacket_bytes p), t)" "rs (Suc n) = (Failed EAGAIN, t')"
    and "seconds (now - t) \<le> mot_timeoutSeconds (motors (app_config st))"
  shows "\<exists>st1. ReceiveMotorPackets env rs st = Some (Ok (), st1) \<and>
    fst (PublishMotorCommandIfNeeded now st1) = Ok [ActuatorMsg \<lparr>act_velocity = map (app_velocity st) (arr4_list (motorSpeed p))\<rparr>]"
proof -
  let ?ds = "waiting rs (Suc n)" and ?st = "motor_input (waiting rs (Suc n)) st"
  have "\<not> failing (fst (rs i))" if "i < Suc n" for i
    using that assms(6,7) by (cases "i = n") (auto simp: failing_def)
  from ReceiveMotorPackets_waiting [where rs = rs and env = env, OF assms(2) this]
  have r: "ReceiveMotorPackets env rs st = Some (Ok (), ?st)"
    using receive_loop_end [where rs = rs, of ?st "Suc n" EAGAIN t' env] assms(2,8) by simp
  have ds: "?ds = waiting rs n @ [(ServoPacket_bytes p, t)]" by (simp add: waiting_def assms(7))
  note v = valid_ServoPacket [OF assms(4,5)]
  have s: "lastMotorCommand ?st = SitlPacketToBetaflightMotorOrder (motorSpeed p)" "hasMotorPacket ?st"
    "lastMotorPacketTime ?st = t" "app_config ?st = app_config st" "velocityConverter ?st = velocityConverter st"
    by (simp_all add: ds motor_input_def v Let_def)
  have c: "current_command now ?st" using assms(9) s by (simp add: current_command_def)
  have "Apply (Arr4 1 2 3 0) (SitlPacketToBetaflightMotorOrder (motorSpeed p)) = Ok (motorSpeed p)"
    by (cases "motorSpeed p") (simp add: Apply_simps)
  then have "fst (PublishMotorCommandIfNeeded now ?st) = Ok [ActuatorMsg (Publish (map_arr4 (app_velocity ?st) (motorSpeed p)))]"
    using Publish_ready [OF motor_input_ready [OF assms(1)], of ?ds now] c assms(3) by (auto simp: s)
  with r show ?thesis by (simp add: s Publish_def)
qed

theorem packet_to_actuators_witness:
  "\<exists>st1. ReceiveMotorPackets sample_os (\<lambda>i. if i = 0 then (Received [1], 0)
       else if i = 1 then (Received (ServoPacket_bytes \<lparr>motorSpeed = Arr4 (Fin 1) 0 0 0\<rparr>), 0) else (Failed EAGAIN, 0)) sample_app =
       Some (Ok (), st1) \<and>
     fst (PublishMotorCommandIfNeeded 0 st1) = Ok [ActuatorMsg \<lparr>act_velocity = map (app_velocity sample_app) [Fin 1, 0, 0, 0]\<rparr>]"
proof -
  let ?p = "\<lparr>motorSpeed = Arr4 (Fin 1) 0 0 0\<rparr> :: ServoPacket"
  let ?rs = "\<lambda>i::nat. if i = 0 then (Received [1], 0) else if i = 1 then (Received (ServoPacket_bytes ?p), 0) else (Failed EAGAIN, 0)"
  have "\<exists>st1. ReceiveMotorPackets sample_os ?rs sample_app = Some (Ok (), st1) \<and>
      fst (PublishMotorCommandIfNeeded 0 st1) = Ok [ActuatorMsg \<lparr>act_velocity = map (app_velocity sample_app) (arr4_list (motorSpeed ?p))\<rparr>]"
    by (rule packet_to_actuators [OF sample_app_ready(1,2,4), where n = 1 and t = 0 and t' = 0])
      (use sample_app_timeout on_grid_of_int [of 1 b32] in \<open>simp_all add: zero_fp_def failing_def\<close>)
  then show ?thesis by simp
qed

text \<open>C8: an iteration sends an FDM datagram only when the period is over and all required sensors have
  reported; the datagram goes to the configured address, has the 144 bytes Betaflight expects and decodes
  to the packet built from the latest snapshot.  Nothing is changed when nothing is sent.\<close>

theorem fdm_datagram_contract:
  assumes "SendFdmIfNeeded env pow sendto now now' st = (r, st')" "socket_ready (fdmSocket st)"
  shows "(case Snapshot (stateSubscriber st) of
      None \<Rightarrow> r = Ok [] \<and> st' = st
    | Some s \<Rightarrow> seconds (now - lastFdmSendTime st) < 1 / fdm_rateHz (fdm (app_config st)) \<and> r = Ok [] \<and> st' = st \<or>
        r = Throw (''sendto failed: '' @ os_strerror env) \<and> st' = st \<or>
        \<not> seconds (now - lastFdmSendTime st) < 1 / fdm_rateHz (fdm (app_config st)) \<and>
        (\<exists>bytes. r = Ok [FdmDatagram (destination (fdmSocket st), bytes)] \<and> length bytes = 144 \<and>
          (snapshot_doubles s \<longrightarrow> FdmPacket_of_bytes bytes = Build pow (fdm (app_config st)) s (SecondsSince now' (startTime st))) \<and>
          lastFdmSendTime st' = now \<and> fdmPackets st' = fdmPackets st + 1))"
  using assms
proof (cases rule: SendFdm_cases)
  case idle
  then show ?thesis by (auto split: option.split)
next
  case (sent s bytes)
  have "representable b64 (SecondsSince now' (startTime st))" by (simp add: SecondsSince_def seconds_double)
  then have "snapshot_doubles s \<longrightarrow> FdmPacket_of_bytes bytes = Build pow (fdm (app_config st)) s (SecondsSince now' (startTime st))"
    using FdmPacket_roundtrip [OF Build_doubles] sent(3) by blast
  moreover have "length bytes = 144" by (simp add: sent(3))
  ultimately show ?thesis using sent(1,4,5) unfolding sent(2) by simp
next
  case throws
  have "Snapshot (stateSubscriber st) \<noteq> None"
  proof
    assume "Snapshot (stateSubscriber st) = None"
    then have "SendFdmIfNeeded env pow sendto now now' st = (Ok [], st)" by (simp add: SendFdmIfNeeded_def)
    with assms(1) throws(1) show False by simp
  qed
  with throws show ?thesis by (auto split: option.split)
qed

lemma sample_app_due: "\<not> seconds 1000000000 < 1 / fdm_rateHz (fdm (app_config sample_app))"
proof -
  have s: "seconds 1000000000 = Fin 1"
    by (simp add: seconds_def of_count_def lit_def fp_eval divide_fp_def fp_div_def Let_def rnd_signed_def d.rd_fix on_grid_eval)
  have "(1 :: fp) / Fin 500 = lit (1 / 500)"
    by (simp add: one_fp_def divide_fp_def fp_div_def Let_def lit_def rnd_def)
  moreover have "isfinite (lit (1 / 500))" "val (lit (1 / 500)) \<le> 1"
    using lit_between [of 0 1 "1 / 500"] by (simp_all add: on_grid_eval)
  ultimately show ?thesis
    unfolding s by (simp add: sample_app_def default_config_def default_fdm_def less_fp_finite lit_def fp_eval)
qed

theorem fdm_datagram_contract_witness:
  "\<exists>st' bytes. SendFdmIfNeeded sample_os (\<lambda>b _. b) (\<lambda>b. int (length b)) 1000000000 0 sample_app =
     (Ok [FdmDatagram (no_address, bytes)], st') \<and> length bytes = 144 \<and> fdmPackets st' = 1"
proof -
  obtain r st' where e: "SendFdmIfNeeded sample_os (\<lambda>b _. b) (\<lambda>b. int (length b)) 1000000000 0 sample_app = (r, st')" by force
  have n: "Snapshot (stateSubscriber sample_app) = Some new_SensorSnapshot"
    "destination (fdmSocket sample_app) = no_address" "fdmPackets sample_app = 0" "lastFdmSendTime sample_app = 0"
    by (simp_all add: sample_app_def Snapshot_def new_SensorSnapshot_def)
  have "r \<noteq> Throw (''sendto failed: '' @ os_strerror sample_os)"
    using e n sample_app_due sample_app_ready(3) by (auto simp: SendFdmIfNeeded_def Let_def socket_Send)
  with fdm_datagram_contract [OF e sample_app_ready(3)] n sample_app_due e show ?thesis by auto
qed

end
