(* ===== verification/BridgeRun.thy ===== *)
theory BridgeRun
  imports BridgeHandlers
begin

text \<open>
  The main loop of \<^verbatim>\<open>BridgeApp::Run\<close> over its handlers and the callbacks between them: which errors can
  end it, what reaches the actuators, how often datagrams go out, and when an iteration returns.
\<close>

section \<open>Sequences of handlers\<close>

text \<open>
  What every handler and every callback keeps, a whole iteration keeps: \<open>I\<close> is the invariant, \<open>Q\<close> holds of
  whatever is emitted, \<open>E\<close> of whatever ends the sequence early, \<open>fine\<close> of the callbacks that happen.
\<close>

definition obeys :: "(BridgeApp \<Rightarrow> bool) \<Rightarrow> (emission \<Rightarrow> bool) \<Rightarrow> (unit outcome \<Rightarrow> bool) \<Rightarrow> handler \<Rightarrow> bool" where
  "obeys I Q E h \<longleftrightarrow> (\<forall>st out r st'. I st \<longrightarrow> h st = (out, r, st') \<longrightarrow> I st' \<and> list_all Q out \<and> (r = Ok () \<or> E r))"

lemma obeysD: "obeys I Q E h \<Longrightarrow> I st \<Longrightarrow> h st = (out, r, st') \<Longrightarrow> I st' \<and> list_all Q out \<and> (r = Ok () \<or> E r)"
  unfolding obeys_def by blast

definition sender_obeys :: "(BridgeApp \<Rightarrow> bool) \<Rightarrow> (emission \<Rightarrow> bool) \<Rightarrow> (unit outcome \<Rightarrow> bool) \<Rightarrow> sender \<Rightarrow> bool" where
  "sender_obeys I Q E h \<longleftrightarrow> (\<forall>st r st'. I st \<longrightarrow> h st = (r, st') \<longrightarrow> I st' \<and>
     (case r of Ok out \<Rightarrow> list_all Q out | Throw e \<Rightarrow> E (Throw e) | Undefined \<Rightarrow> E Undefined))"

lemma obeys_emits:
  assumes "sender_obeys I Q E a"
  shows "obeys I Q E (emits a)"
  unfolding obeys_def
proof (intro allI impI)
  fix st out r st' assume i: "I st" and h: "emits a st = (out, r, st')"
  obtain r1 st1 where a: "a st = (r1, st1)" by force
  from assms i a have "I st1 \<and> (case r1 of Ok out \<Rightarrow> list_all Q out | Throw e \<Rightarrow> E (Throw e) | Undefined \<Rightarrow> E Undefined)"
    unfolding sender_obeys_def by blast
  with a h show "I st' \<and> list_all Q out \<and> (r = Ok () \<or> E r)" by (cases r1; simp add: emits_def)+
qed

locale main_loop =
  fixes I :: "BridgeApp \<Rightarrow> bool" and fine :: "callback \<Rightarrow> bool"
  assumes callback_keeps: "I st \<Longrightarrow> fine c \<Longrightarrow> I (run_callback c st)"
begin

lemma callbacks_keep: "I st \<Longrightarrow> list_all fine cs \<Longrightarrow> I (fold run_callback cs st)"
  by (induction cs arbitrary: st) (simp_all add: callback_keeps)

lemma run_handlers_obey:
  assumes "list_all (obeys I Q E) hs" "\<And>j. list_all fine (cb j)" "I st" "run_handlers cb i hs st = (out, r, st')"
  shows "I st' \<and> list_all Q out \<and> (r = Ok () \<or> E r)"
  using assms(1,3,4)
proof (induction hs arbitrary: i st out r st')
  case Nil
  then show ?case using callbacks_keep assms(2) by auto
next
  case (Cons h hs)
  have s: "I (fold run_callback (cb i) st)" by (rule callbacks_keep [OF Cons.prems(2) assms(2)])
  obtain out1 r1 st1 where h: "h (fold run_callback (cb i) st) = (out1, r1, st1)" by (metis prod.collapse)
  have o: "I st1 \<and> list_all Q out1 \<and> (r1 = Ok () \<or> E r1)"
    using obeysD [of I Q E h, OF _ s h] Cons.prems(1) by simp
  show ?case
  proof (cases r1)
    case (Ok u)
    obtain out2 r2 st2 where rest: "run_handlers cb (Suc i) hs st1 = (out2, r2, st2)" by (metis prod.collapse)
    with Cons.IH [OF _ _ rest] Cons.prems o h Ok show ?thesis by auto
  qed (use Cons.prems(3) h o in auto)
qed

end

section \<open>Readiness\<close>

text \<open>The state the constructor leaves on a valid configuration.\<close>

definition app_ready :: "BridgeApp \<Rightarrow> bool" where
  "app_ready st \<longleftrightarrow> motors_ready st \<and> 0 \<le> fd (motorSocket st) \<and> socket_ready (fdmSocket st) \<and>
     (hasMavlinkOutput st \<longrightarrow> socket_ready (mavlinkSocket st)) \<and> range_ready (app_rangefinders st) \<and>
     range_sane (app_rangefinders st) \<and> (enabled (app_odometry st) \<longrightarrow> socket_ready (udp (app_odometry st)))"

definition sane_callback :: "callback \<Rightarrow> bool" where
  "sane_callback c = (case c of ScanCallback i now scan \<Rightarrow> sane_scan scan | _ \<Rightarrow> True)"

definition io_error :: "string \<Rightarrow> bool" where
  "io_error e \<longleftrightarrow> take 17 e = ''recvfrom failed: '' \<or> take 15 e = ''sendto failed: ''"

lemma io_error_simps [simp]: "io_error (''recvfrom failed: '' @ x)" "io_error (''sendto failed: '' @ x)"
  by (simp_all add: io_error_def numeral_eq_Suc)

definition ends_io :: "unit outcome \<Rightarrow> bool" where
  "ends_io r = (case r of Ok _ \<Rightarrow> True | Throw e \<Rightarrow> io_error e | Undefined \<Rightarrow> False)"

definition message_in_range :: "MotorVelocityConverter \<Rightarrow> emission \<Rightarrow> bool" where
  "message_in_range cv em = (case em of
     ActuatorMsg a \<Rightarrow> length (act_velocity a) = 4 \<and> list_all (in_range cv) (act_velocity a) | _ \<Rightarrow> True)"

abbreviation ready_with :: "MotorVelocityConverter \<Rightarrow> BridgeApp \<Rightarrow> bool" where
  "ready_with cv st \<equiv> app_ready st \<and> velocityConverter st = cv"

lemma range_ready_configs:
  assumes "map config (rm_mappings rm') = map config (rm_mappings rm)" "rm_udp rm' = rm_udp rm"
  shows "range_ready rm' = range_ready rm"
proof -
  have c: "list_ex (\<lambda>mp. rf_output (config mp) = ''mavlink'') ms \<longleftrightarrow> ''mavlink'' \<in> rf_output ` set (map config ms)" for ms
    by (force simp: list_ex_iff image_iff)
  show ?thesis unfolding range_ready_def c assms ..
qed

lemma app_ready_updates [simp]:
  "app_ready (st\<lparr>motorTimedOut := b\<rparr>) = app_ready st"
  "app_ready (st\<lparr>lastFdmSendTime := t, fdmPackets := n, loggedFirstFdm := b\<rparr>) = app_ready st"
  "app_ready (st\<lparr>lastMavlinkHeartbeatTime := t\<rparr>) = app_ready st"
  "app_ready (st\<lparr>lastStatusLogTime := t\<rparr>) = app_ready st"
  "app_ready (st\<lparr>stateSubscriber := sub\<rparr>) = app_ready st"
  by (simp_all add: app_ready_def motors_ready_def)

lemma app_ready_odometry:
  "app_ready st \<Longrightarrow> enabled om = enabled (app_odometry st) \<Longrightarrow> udp om = udp (app_odometry st) \<Longrightarrow>
    app_ready (st\<lparr>app_odometry := om\<rparr>)"
  by (simp add: app_ready_def motors_ready_def)

lemma app_ready_rangefinders:
  "app_ready st \<Longrightarrow> range_ready rm \<Longrightarrow> range_sane rm \<Longrightarrow> app_ready (st\<lparr>app_rangefinders := rm\<rparr>)"
  "app_ready st \<Longrightarrow> range_ready rm \<Longrightarrow> range_sane rm \<Longrightarrow> app_ready (st\<lparr>app_rangefinders := rm, app_kernel := k\<rparr>)"
  by (simp_all add: app_ready_def motors_ready_def)

lemma run_callback_ready:
  assumes "app_ready st" "sane_callback c"
  shows "app_ready (run_callback c st)"
proof (cases c)
  case (SensorCallback m)
  with assms show ?thesis by simp
next
  case (OdometryCallback now m)
  have "enabled (OnOdometry now m om) = enabled om" "udp (OnOdometry now m om) = udp om" for om
    by (auto simp: OnOdometry_def Let_def split: option.splits prod.splits)
  with assms OdometryCallback show ?thesis by (simp add: app_ready_odometry)
next
  case (ScanCallback i now scan)
  let ?rm = "app_rangefinders st"
  let ?ms = "(rm_mappings ?rm)[i := OnScan now scan (rm_mappings ?rm ! i)]"
  show ?thesis
  proof (cases "i < length (rm_mappings ?rm)")
    case True
    have "map config ?ms = map config (rm_mappings ?rm)"
      using True by (simp add: map_update OnScan_def list_update_same_conv [THEN iffD2])
    then have "range_ready (?rm\<lparr>rm_mappings := ?ms\<rparr>)"
      using range_ready_configs [of "?rm\<lparr>rm_mappings := ?ms\<rparr>" ?rm] assms(1) by (simp add: app_ready_def)
    moreover have "list_all sane_mapping ?ms"
      using assms True sane_OnScan [of "rm_mappings ?rm ! i" scan now] set_update_subset_insert [of "rm_mappings ?rm" i]
      by (auto simp: ScanCallback app_ready_def range_sane_def sane_callback_def list_all_iff)
    ultimately show ?thesis
      using assms(1) True by (simp add: ScanCallback Let_def app_ready_rangefinders range_sane_def)
  next
    case False
    with assms(1) show ?thesis by (simp add: ScanCallback Let_def)
  qed
qed

lemma run_callback_converter [simp]: "velocityConverter (run_callback c st) = velocityConverter st"
  by (cases c) (simp_all add: Let_def)

interpretation safe_loop: main_loop "ready_with cv" sane_callback
  by unfold_locales (simp add: run_callback_ready)

section \<open>The handlers keep the bridge ready\<close>

lemma Publish_obeys: "sender_obeys (ready_with cv) (message_in_range cv) ends_io (PublishMotorCommandIfNeeded now)"
  unfolding sender_obeys_def
proof (intro allI impI)
  fix st r st'
  assume I: "ready_with cv st" and h: "PublishMotorCommandIfNeeded now st = (r, st')"
  from I have m: "motors_ready st" by (simp add: app_ready_def)
  obtain w where f: "arr4_all isfinite w"
    and p: "PublishMotorCommandIfNeeded now st = (Ok [ActuatorMsg (Publish (map_arr4 (app_velocity st) w))],
      st\<lparr>motorTimedOut := motorTimedOut st \<or> hasMotorPacket st \<and> \<not> current_command now st\<rparr>)"
    using Publish_ready [OF m] by blast
  have "list_all (in_range cv) (map (app_velocity st) (arr4_list w))"
    using f app_velocity_range [OF m] I by (auto simp: list_all_iff arr4_all_iff)
  with I h p show "ready_with cv st' \<and> (case r of Ok out \<Rightarrow> list_all (message_in_range cv) out
      | Throw e \<Rightarrow> ends_io (Throw e) | Undefined \<Rightarrow> ends_io Undefined)"
    by (auto simp: message_in_range_def Publish_def)
qed

lemma SendFdm_obeys: "sender_obeys (ready_with cv) (message_in_range cv) ends_io (SendFdmIfNeeded env pow sendto now now')"
  unfolding sender_obeys_def
proof (intro allI impI)
  fix st r st'
  assume I: "ready_with cv st" and h: "SendFdmIfNeeded env pow sendto now now' st = (r, st')"
  from I have s: "socket_ready (fdmSocket st)" by (simp add: app_ready_def)
  from h s show "ready_with cv st' \<and> (case r of Ok out \<Rightarrow> list_all (message_in_range cv) out
      | Throw e \<Rightarrow> ends_io (Throw e) | Undefined \<Rightarrow> ends_io Undefined)"
    by (cases rule: SendFdm_cases) (use I in \<open>simp_all add: message_in_range_def ends_io_def del: append_Cons\<close>)
qed

lemma Heartbeat_obeys: "sender_obeys (ready_with cv) (message_in_range cv) ends_io (SendMavlinkHeartbeatIfNeeded env message sendto now)"
  unfolding sender_obeys_def
proof (intro allI impI)
  fix st r st'
  assume I: "ready_with cv st" and h: "SendMavlinkHeartbeatIfNeeded env message sendto now st = (r, st')"
  from I have s: "hasMavlinkOutput st \<longrightarrow> socket_ready (mavlinkSocket st)" by (simp add: app_ready_def)
  from h s show "ready_with cv st' \<and> (case r of Ok out \<Rightarrow> list_all (message_in_range cv) out
      | Throw e \<Rightarrow> ends_io (Throw e) | Undefined \<Rightarrow> ends_io Undefined)"
    by (cases rule: Heartbeat_cases) (use I in \<open>simp_all add: message_in_range_def ends_io_def del: append_Cons\<close>)
qed

lemma Log_obeys: "sender_obeys (ready_with cv) (message_in_range cv) E (LogStatusIfNeeded now)"
  by (auto simp: sender_obeys_def LogStatusIfNeeded_def Let_def message_in_range_def split: if_splits)

lemma Odometry_obeys: "sender_obeys (ready_with cv) (message_in_range cv) ends_io (UpdateOdometry it)"
  unfolding sender_obeys_def
proof (intro allI impI)
  fix st r st'
  assume I: "ready_with cv st" and h: "UpdateOdometry it st = (r, st')"
  obtain r1 om where u: "odometry_Update (it_odometry it) (it_odometry_now it) (app_odometry st) = (r1, om)" by force
  have st': "st' = st\<lparr>app_odometry := om\<rparr>" and r: "r = obind r1 (\<lambda>d. Ok (case d of None \<Rightarrow> [] | Some x \<Rightarrow> [MavlinkDatagram x]))"
    using h by (simp_all add: UpdateOdometry_def u)
  have ready: "ready_with cv st'"
    using I odometry_Update_state(2,3) [OF u] by (simp add: st' app_ready_odometry)
  have "r1 \<noteq> Undefined" using odometry_no_ub [of "it_odometry it" "it_odometry_now it" "app_odometry st"] u by simp
  moreover have "io_error e" if "r1 = Throw e" for e
  proof (cases "enabled (app_odometry st)")
    case True
    with odometry_Update_throws [OF u [unfolded that]] I show ?thesis by (simp add: app_ready_def socket_ready_def del: append_Cons)
  next
    case False
    with u that show ?thesis by (simp add: odometry_Update_def)
  qed
  ultimately show "ready_with cv st' \<and> (case r of Ok out \<Rightarrow> list_all (message_in_range cv) out
      | Throw e \<Rightarrow> ends_io (Throw e) | Undefined \<Rightarrow> ends_io Undefined)"
    using ready by (cases r1) (auto simp: r ends_io_def message_in_range_def split: option.split)
qed

lemma Rangefinders_obey: "obeys (ready_with cv) (message_in_range cv) ends_io (UpdateRangefinders it)"
  unfolding obeys_def
proof (intro allI impI)
  fix st out r st'
  assume I: "ready_with cv st" and h: "UpdateRangefinders it st = (out, r, st')"
  obtain frames sent r1 rm k where u: "range_Update (it_tcp it) (it_range it) (it_tfmini_now it) (it_range_now it)
      (app_rangefinders st, app_kernel st) = (frames, sent, r1, rm, k)" by (metis prod.collapse)
  have st': "st' = st\<lparr>app_rangefinders := rm, app_kernel := k\<rparr>" and r: "r = r1"
    and out: "out = map (\<lambda>(n, f). TfminiFrame n f) frames @ map MavlinkDatagram sent"
    using h by (simp_all add: UpdateRangefinders_def u)
  have R: "range_ready (app_rangefinders st)" "range_sane (app_rangefinders st)" using I by (simp_all add: app_ready_def)
  note U = range_Update_state [OF u] and S = range_Update_sane [OF u R(2)]
  have ready: "ready_with cv st'" using I U(4) [OF R(1)] S(2) by (simp add: st' app_ready_rangefinders)
  have "io_error e" if "r1 = Throw e" for e unfolding U(3) [OF R(1) that] by (rule io_error_simps)
  then have "ends_io r" using S(1) by (cases r1) (simp_all add: r ends_io_def)
  moreover have "list_all (message_in_range cv) out" by (auto simp: out message_in_range_def list_all_iff)
  ultimately show "ready_with cv st' \<and> list_all (message_in_range cv) out \<and> (r = Ok () \<or> ends_io r)"
    using ready by blast
qed

lemma handlers_obey: "list_all (obeys (ready_with cv) (message_in_range cv) ends_io) (handlers env pow it)"
  by (simp add: handlers_def obeys_emits Publish_obeys SendFdm_obeys Rangefinders_obey Odometry_obeys Heartbeat_obeys Log_obeys)

section \<open>Iterations and runs\<close>

definition sane_iteration :: "iteration \<Rightarrow> bool" where
  "sane_iteration it \<longleftrightarrow> (\<forall>j. list_all sane_callback (it_callbacks it j))"

lemma motor_input_app_ready: "app_ready st \<Longrightarrow> app_ready (motor_input ds st)"
  using motor_input_ready [of st ds] by (auto simp: app_ready_def motor_input_def Let_def)

lemma motor_input_converter [simp]: "velocityConverter (motor_input ds st) = velocityConverter st"
  by (simp add: motor_input_def Let_def)

lemma Receive_state:
  assumes "ReceiveMotorPackets env rs st = Some (r, st')"
  shows "\<exists>ds. st' = motor_input ds st" and "0 \<le> fd (motorSocket st) \<Longrightarrow> ends_io r"
proof -
  have "(\<exists>ds. st' = motor_input ds st) \<and> ends_io r" if o: "0 \<le> fd (motorSocket st)"
  proof -
    obtain n e where "ReceiveMotorPackets env rs st =
        Some (if e = EAGAIN \<or> e = EWOULDBLOCK then Ok () else Throw (''recvfrom failed: '' @ os_strerror env),
          motor_input (waiting rs n) st)"
      using receive_total [OF o, of rs env] assms by auto
    with assms show ?thesis by (auto simp: ends_io_def simp del: append_Cons)
  qed
  moreover have "st' = motor_input [] st" if "\<not> 0 \<le> fd (motorSocket st)"
    using that assms receive_loop_closed [of st env rs 0] by (simp add: ReceiveMotorPackets_def del: append_Cons)
  ultimately show "\<exists>ds. st' = motor_input ds st" "0 \<le> fd (motorSocket st) \<Longrightarrow> ends_io r" by blast+
qed

lemma run_iteration_ready:
  assumes "ready_with cv st" "sane_iteration it" "run_iteration env pow it st = Some (out, r, st')"
  shows "ready_with cv st' \<and> list_all (message_in_range cv) out \<and> ends_io r"
proof -
  let ?st = "fold run_callback (it_callbacks it 0) st"
  have cb: "list_all sane_callback (it_callbacks it j)" for j using assms(2) by (simp add: sane_iteration_def)
  have s: "ready_with cv ?st" using safe_loop.callbacks_keep [OF assms(1) cb] .
  obtain r1 st1 where R: "ReceiveMotorPackets env (it_recv it) ?st = Some (r1, st1)"
    using assms(3) by (auto simp: run_iteration_def split: option.splits)
  from Receive_state(1) [OF R] obtain ds where ds: "st1 = motor_input ds ?st" by blast
  have s1: "ready_with cv st1" using s motor_input_app_ready by (simp add: ds)
  show ?thesis
  proof (cases r1)
    case (Ok u)
    then have "run_handlers (it_callbacks it) 1 (handlers env pow it) st1 = (out, r, st')"
      using assms(3) R by (simp add: run_iteration_def)
    from safe_loop.run_handlers_obey [OF handlers_obey cb s1 this] show ?thesis by (auto simp: ends_io_def)
  qed (use assms(3) R s1 Receive_state(2) [OF R] s in \<open>auto simp: run_iteration_def ends_io_def app_ready_def\<close>)
qed

lemma Run_ready:
  assumes "Run env pow its st = Some (out, r, st')" "ready_with cv st" "list_all sane_iteration its"
  shows "\<exists>pub. list_all (message_in_range cv) pub \<and>
    (r = Ok 0 \<and> out = pub @ [ActuatorMsg (Publish ZeroMotors)] \<or> out = pub \<and> (\<exists>e. r = Throw e \<and> io_error e))"
  using assms
proof (induction its arbitrary: st out)
  case Nil
  then show ?case by (intro exI [of _ "[]"]) auto
next
  case (Cons it its)
  obtain out1 r1 st1 where it: "run_iteration env pow it st = Some (out1, r1, st1)"
    using Cons.prems(1) by (auto split: option.splits)
  have s: "ready_with cv st1 \<and> list_all (message_in_range cv) out1 \<and> ends_io r1"
    using run_iteration_ready [OF Cons.prems(2) _ it] Cons.prems(3) by simp
  show ?case
  proof (cases r1)
    case (Ok u)
    then obtain outs where rest: "Run env pow its st1 = Some (outs, r, st')" "out = out1 @ outs"
      using Cons.prems(1) it by (auto split: option.splits)
    from Cons.IH [OF rest(1)] s Cons.prems(3) obtain pub where "list_all (message_in_range cv) pub \<and>
      (r = Ok 0 \<and> outs = pub @ [ActuatorMsg (Publish ZeroMotors)] \<or> outs = pub \<and> (\<exists>e. r = Throw e \<and> io_error e))" by auto
    with s rest(2) show ?thesis by (intro exI [of _ "out1 @ pub"]) auto
  next
    case (Throw e)
    with Cons.prems(1) it s show ?thesis by (auto simp: ends_io_def)
  next
    case Undefined
    with s show ?thesis by (simp add: ends_io_def)
  qed
qed

lemma Run_returns:
  assumes "ready_with cv st" "list_all sane_iteration its" "\<forall>it \<in> set its. \<exists>i. failing (fst (it_recv it i))"
  shows "Run env pow its st \<noteq> None"
  using assms
proof (induction its arbitrary: st)
  case Nil
  then show ?case by simp
next
  case (Cons it its)
  let ?st = "fold run_callback (it_callbacks it 0) st"
  have cb: "list_all sane_callback (it_callbacks it 0)" using Cons.prems(2) by (simp add: sane_iteration_def)
  have "ready_with cv ?st" using safe_loop.callbacks_keep [OF Cons.prems(1) cb] .
  then have "ReceiveMotorPackets env (it_recv it) ?st \<noteq> None"
    using receive_total(2) [of ?st "it_recv it" env] Cons.prems(3) by (simp add: app_ready_def)
  then obtain r1 s1 where "ReceiveMotorPackets env (it_recv it) ?st = Some (r1, s1)" by force
  then have "run_iteration env pow it st \<noteq> None" by (cases r1) (simp_all add: run_iteration_def del: not_None_eq)
  then obtain out r st1 where it: "run_iteration env pow it st = Some (out, r, st1)" by (metis option.exhaust prod_cases3)
  have "ready_with cv st1" using run_iteration_ready [OF Cons.prems(1) _ it] Cons.prems(2) by simp
  with Cons.IH [of st1] Cons.prems(2,3) it show ?case by (auto split: outcome.splits)
qed

section \<open>How often a handler sends\<close>

text \<open>What each handler may emit, and which of the times it keeps.\<close>

definition send_times :: "BridgeApp \<Rightarrow> BridgeConfig \<times> int \<times> int" where
  "send_times st = (app_config st, lastFdmSendTime st, lastMavlinkHeartbeatTime st)"

lemma times_updates [simp]:
  "send_times (st\<lparr>motorTimedOut := b\<rparr>) = send_times st"
  "send_times (st\<lparr>lastStatusLogTime := t\<rparr>) = send_times st"
  "send_times (st\<lparr>app_odometry := om\<rparr>) = send_times st"
  "send_times (st\<lparr>app_rangefinders := rm, app_kernel := k\<rparr>) = send_times st"
  by (simp_all add: send_times_def)

lemma Publish_shape:
  assumes "PublishMotorCommandIfNeeded now st = (r, st')"
  shows "send_times st' = send_times st" and "r = Ok out \<Longrightarrow> \<exists>a. out = [ActuatorMsg a]"
proof -
  have "st' = (if hasMotorPacket st \<and> \<not> current_command now st then st\<lparr>motorTimedOut := True\<rparr> else st)"
    using assms unfolding PublishMotorCommandIfNeeded_def Let_def current_command_def by simp
  then show "send_times st' = send_times st" by simp
  show "r = Ok out \<Longrightarrow> \<exists>a. out = [ActuatorMsg a]"
    using assms unfolding PublishMotorCommandIfNeeded_def Let_def by (auto simp: obind_eq_Ok)
qed

lemma SendFdm_shape:
  assumes "SendFdmIfNeeded env pow sendto now now' st = (r, st')"
  shows "(\<exists>d b. r = Ok [FdmDatagram d] \<and> \<not> seconds (now - lastFdmSendTime st) < 1 / fdm_rateHz (fdm (app_config st)) \<and>
      st' = st\<lparr>lastFdmSendTime := now, fdmPackets := fdmPackets st + 1, loggedFirstFdm := b\<rparr>) \<or>
    st' = st \<and> (\<forall>out. r = Ok out \<longrightarrow> out = [])"
proof (cases "seconds (now - lastFdmSendTime st) < 1 / fdm_rateHz (fdm (app_config st)) \<or> Snapshot (stateSubscriber st) = None")
  case True
  with assms show ?thesis by (auto simp: SendFdmIfNeeded_def split: if_splits)
next
  case False
  then obtain s where s: "Snapshot (stateSubscriber st) = Some s" by blast
  let ?b = "FdmPacket_bytes (Build pow (fdm (app_config st)) s (SecondsSince now' (startTime st)))"
  from False assms s show ?thesis
    by (cases "Send env (sendto ?b) ?b (fdmSocket st)") (auto simp: SendFdmIfNeeded_def Let_def)
qed

lemma Heartbeat_shape:
  assumes "SendMavlinkHeartbeatIfNeeded env message sendto now st = (r, st')"
  shows "(\<exists>d. r = Ok [HeartbeatDatagram d] \<and> hasMavlinkOutput st \<and> 1000000000 \<le> now - lastMavlinkHeartbeatTime st \<and>
      st' = st\<lparr>lastMavlinkHeartbeatTime := now\<rparr>) \<or>
    st' = st \<and> (\<forall>out. r = Ok out \<longrightarrow> out = [])"
  using assms unfolding SendMavlinkHeartbeatIfNeeded_def Let_def by (auto split: if_splits outcome.splits)

lemma Log_shape:
  assumes "LogStatusIfNeeded now st = (r, st')"
  shows "send_times st' = send_times st" and "r = Ok out \<Longrightarrow> \<forall>em \<in> set out. \<exists>a b c d e f. em = StatusLog a b c d e f"
  using assms unfolding LogStatusIfNeeded_def Let_def by (auto split: if_splits)

lemma Odometry_shape:
  assumes "UpdateOdometry it st = (r, st')"
  shows "send_times st' = send_times st" and "r = Ok out \<Longrightarrow> \<forall>em \<in> set out. \<exists>d. em = MavlinkDatagram d"
  using assms by (auto simp: UpdateOdometry_def obind_eq_Ok split: prod.splits option.splits)

lemma Rangefinders_shape:
  assumes "UpdateRangefinders it st = (out, r, st')"
  shows "send_times st' = send_times st"
    and "\<forall>em \<in> set out. (\<exists>n f. em = TfminiFrame n f) \<or> (\<exists>d. em = MavlinkDatagram d)"
  using assms by (auto simp: UpdateRangefinders_def split: prod.splits)

definition is_fdm :: "emission \<Rightarrow> bool" where
  "is_fdm em = (case em of FdmDatagram _ \<Rightarrow> True | _ \<Rightarrow> False)"

definition is_heartbeat :: "emission \<Rightarrow> bool" where
  "is_heartbeat em = (case em of HeartbeatDatagram _ \<Rightarrow> True | _ \<Rightarrow> False)"

lemma is_simps [simp]:
  "\<not> is_fdm (ActuatorMsg a)" "is_fdm (FdmDatagram d)" "\<not> is_fdm (HeartbeatDatagram d)" "\<not> is_fdm (MavlinkDatagram d)"
  "\<not> is_fdm (TfminiFrame n f)" "\<not> is_fdm (StatusLog x y z u v w)"
  "\<not> is_heartbeat (ActuatorMsg a)" "\<not> is_heartbeat (FdmDatagram d)" "is_heartbeat (HeartbeatDatagram d)"
  "\<not> is_heartbeat (MavlinkDatagram d)" "\<not> is_heartbeat (TfminiFrame n f)" "\<not> is_heartbeat (StatusLog x y z u v w)"
  by (simp_all add: is_fdm_def is_heartbeat_def)

lemma callback_times [simp]: "send_times (run_callback c st) = send_times st"
  by (cases c; simp add: send_times_def Let_def)

lemma callbacks_times [simp]: "send_times (fold run_callback cs st) = send_times st"
  by (induction cs arbitrary: st) simp_all

lemma motor_input_times [simp]: "send_times (motor_input ds st) = send_times st"
  by (simp add: motor_input_def send_times_def Let_def)

text \<open>A sender that keeps the times and emits nothing of the kind is quiet.\<close>

lemma obeys_times:
  assumes "\<And>st r st'. h st = (r, st') \<Longrightarrow> send_times st' = send_times st"
    and "\<And>st st' out em. h st = (Ok out, st') \<Longrightarrow> em \<in> set out \<Longrightarrow> \<not> X em"
    and "\<And>st st'. send_times st' = send_times st \<Longrightarrow> I st \<Longrightarrow> I st'"
  shows "sender_obeys I (\<lambda>em. \<not> X em) (\<lambda>_. True) h"
  unfolding sender_obeys_def
proof (intro allI impI)
  fix st r st'
  assume "I st" "h st = (r, st')"
  with assms(1) [of st r st'] assms(2) [of st _ st'] assms(3) [of st' st]
  show "I st' \<and> (case r of Ok out \<Rightarrow> list_all (\<lambda>em. \<not> X em) out | Throw e \<Rightarrow> True | Undefined \<Rightarrow> True)"
    by (cases r) (auto simp: list_all_iff)
qed

lemma run_iteration_split:
  assumes "run_iteration env pow it st = Some (out, r, st')"
  obtains (failed) "send_times st' = send_times st" "out = []"
    | (handled) st1 where "send_times st1 = send_times st" "run_handlers (it_callbacks it) 1 (handlers env pow it) st1 = (out, r, st')"
proof -
  let ?st = "fold run_callback (it_callbacks it 0) st"
  obtain r1 st1 where R: "ReceiveMotorPackets env (it_recv it) ?st = Some (r1, st1)"
    using assms by (auto simp: run_iteration_def split: option.splits)
  from Receive_state(1) [OF R] have t: "send_times st1 = send_times st" by auto
  show ?thesis
  proof (cases r1)
    case (Ok u)
    with assms R have "run_handlers (it_callbacks it) 1 (handlers env pow it) st1 = (out, r, st')"
      by (simp add: run_iteration_def)
    with t show ?thesis by (rule handled)
  qed (use assms R t failed in \<open>auto simp: run_iteration_def\<close>)
qed

text \<open>One handler of the sequence sends messages of kind \<open>X\<close> and keeps the time in \<open>last_sent\<close>; the others
  and the callbacks touch neither.\<close>

locale periodic_sender =
  fixes inv :: "BridgeApp \<Rightarrow> bool" and last_sent :: "BridgeApp \<Rightarrow> int" and X :: "emission \<Rightarrow> bool" and due :: "int \<Rightarrow> bool"
  assumes keeps_times: "send_times st' = send_times st \<Longrightarrow> inv st' = inv st \<and> last_sent st' = last_sent st"
    and kinds: "X em \<Longrightarrow> is_fdm em \<or> is_heartbeat em"
begin

abbreviation state_at :: "int \<Rightarrow> BridgeApp \<Rightarrow> bool" where
  "state_at t st \<equiv> inv st \<and> last_sent st = t"

abbreviation quiet :: "handler \<Rightarrow> bool" where
  "quiet h \<equiv> \<forall>t. obeys (state_at t) (\<lambda>em. \<not> X em) (\<lambda>_. True) h"

lemma callbacks_last: "inv (fold run_callback cs st) = inv st \<and> last_sent (fold run_callback cs st) = last_sent st"
  by (rule keeps_times) simp

lemma quietI:
  assumes "\<And>st r st'. h st = (r, st') \<Longrightarrow> send_times st' = send_times st"
    and "\<And>st st' out. h st = (Ok out, st') \<Longrightarrow> \<forall>em \<in> set out. \<not> X em"
  shows "quiet (emits h)"
proof (rule allI, rule obeys_emits, rule obeys_times)
  show "send_times st' = send_times st" if "h st = (r, st')" for st r st' by (rule assms(1) [OF that])
  show "\<not> X em" if "h st = (Ok out, st')" "em \<in> set out" for st st' out em using assms(2) [OF that(1)] that(2) by blast
  show "state_at t st'" if "send_times st' = send_times st" "state_at t st" for t st st' using keeps_times [OF that(1)] that(2) by simp
qed

lemma not_X: "\<not> X (ActuatorMsg a)" "\<not> X (MavlinkDatagram d)" "\<not> X (TfminiFrame n f)" "\<not> X (StatusLog x y z u v w)"
  using kinds by fastforce+

lemma quiet_everywhere:
  "quiet (emits (PublishMotorCommandIfNeeded now))" "quiet (UpdateRangefinders it)" "quiet (emits (UpdateOdometry it))"
  "quiet (emits (LogStatusIfNeeded now))"
proof -
  show "quiet (emits (PublishMotorCommandIfNeeded now))"
    by (rule quietI [OF Publish_shape(1)]) (auto dest!: Publish_shape(2) [OF _ refl] simp: not_X)
  show "quiet (UpdateRangefinders it)"
    unfolding obeys_def
  proof (intro allI impI)
    fix t st out r st' assume s: "state_at t st" and h: "UpdateRangefinders it st = (out, r, st')"
    from Rangefinders_shape(2) [OF h] have "list_all (\<lambda>em. \<not> X em) out" using not_X by (fastforce simp: list_all_iff)
    with keeps_times [OF Rangefinders_shape(1) [OF h]] s
    show "state_at t st' \<and> list_all (\<lambda>em. \<not> X em) out \<and> (r = Ok () \<or> True)" by simp
  qed
  show "quiet (emits (UpdateOdometry it))"
  proof (rule quietI [OF Odometry_shape(1)])
    fix st st' out assume "UpdateOdometry it st = (Ok out, st')"
    from Odometry_shape(2) [OF this refl] show "\<forall>em \<in> set out. \<not> X em" using not_X by fastforce
  qed
  show "quiet (emits (LogStatusIfNeeded now))"
  proof (rule quietI [OF Log_shape(1)])
    fix st st' out assume "LogStatusIfNeeded now st = (Ok out, st')"
    from Log_shape(2) [OF this refl] show "\<forall>em \<in> set out. \<not> X em" using not_X by fastforce
  qed
qed

lemma quiet_handlers:
  assumes "list_all quiet hs" "state_at t st" "run_handlers cb i hs st = (out, r, st')"
  shows "state_at t st' \<and> \<not> list_ex X out"
proof -
  have loop: "main_loop (state_at t) (\<lambda>_. True)"
    by (rule main_loop.intro) (metis keeps_times callback_times)
  have "list_all (obeys (state_at t) (\<lambda>em. \<not> X em) (\<lambda>_. True)) hs" using assms(1) by (simp add: list_all_iff)
  from main_loop.run_handlers_obey [OF loop this _ assms(2,3)] show ?thesis
    by (auto simp: list_ex_iff list_all_iff)
qed

lemma one_sender:
  assumes "list_all quiet pre" "list_all quiet post"
    and h: "\<And>st r st'. inv st \<Longrightarrow> h st = (r, st') \<Longrightarrow> inv st' \<and>
      (due (now - last_sent st) \<and> last_sent st' = now \<and> (\<exists>out. r = Ok out \<and> list_ex X out) \<or>
       last_sent st' = last_sent st \<and> (\<forall>out. r = Ok out \<longrightarrow> \<not> list_ex X out))"
    and "state_at t st" "run_handlers cb i (pre @ emits h # post) st = (out, r, st')"
  shows "list_ex X out \<and> due (now - t) \<and> state_at now st' \<or> \<not> list_ex X out \<and> state_at t st'"
  using assms(1,4,5)
proof (induction pre arbitrary: i st out)
  case Nil
  let ?st = "fold run_callback (cb i) st"
  obtain r1 st1 where e: "h ?st = (r1, st1)" by force
  have s: "state_at t ?st" using Nil.prems(2) callbacks_last by simp
  show ?case
  proof (cases r1)
    case (Ok out1)
    obtain out2 r2 st2 where rest: "run_handlers cb (Suc i) post st1 = (out2, r2, st2)" by (metis prod.collapse)
    have o: "out = out1 @ out2" "st' = st2" using Nil.prems(3) e Ok rest by (auto simp: emits_def)
    have "state_at (last_sent st1) st2 \<and> \<not> list_ex X out2"
      using quiet_handlers [OF assms(2) _ rest] h [OF _ e] s by blast
    with h [OF _ e] s Ok o show ?thesis by auto
  qed (use Nil.prems(3) e h [OF _ e] s in \<open>auto simp: emits_def\<close>)
next
  case (Cons h1 pre)
  let ?st = "fold run_callback (cb i) st"
  obtain out1 r1 st1 where e: "h1 ?st = (out1, r1, st1)" by (metis prod.collapse)
  have s: "state_at t ?st" using Cons.prems(2) callbacks_last by simp
  have q: "state_at t st1 \<and> \<not> list_ex X out1"
    using obeysD [of "state_at t" "\<lambda>em. \<not> X em" "\<lambda>_. True" h1, OF _ s e] Cons.prems(1)
    by (auto simp: list_ex_iff list_all_iff)
  show ?case
  proof (cases r1)
    case (Ok u)
    obtain out2 r2 st2 where rest: "run_handlers cb (Suc i) (pre @ emits h # post) st1 = (out2, r2, st2)" by (metis prod.collapse)
    have o: "out = out1 @ out2" "st' = st2" "r = r2" using Cons.prems(3) e Ok rest by auto
    from Cons.IH [of st1 "Suc i" out2] Cons.prems(1) q rest o Ok show ?thesis by auto
  qed (use Cons.prems(3) e q in auto)
qed

lemma iteration_step:
  assumes "handlers env pow it = pre @ emits h # post" "list_all quiet pre" "list_all quiet post"
    and "\<And>st r st'. inv st \<Longrightarrow> h st = (r, st') \<Longrightarrow> inv st' \<and>
      (due (now - last_sent st) \<and> last_sent st' = now \<and> (\<exists>out. r = Ok out \<and> list_ex X out) \<or>
       last_sent st' = last_sent st \<and> (\<forall>out. r = Ok out \<longrightarrow> \<not> list_ex X out))"
    and "inv st" "run_iteration env pow it st = Some (out, r, st')"
  shows "list_ex X out \<and> due (now - last_sent st) \<and> state_at now st' \<or> \<not> list_ex X out \<and> state_at (last_sent st) st'"
  using assms(6)
proof (cases rule: run_iteration_split)
  case failed
  then show ?thesis using keeps_times [of st' st] assms(5) by simp
next
  case (handled st1)
  have "state_at (last_sent st) st1" using keeps_times [OF handled(1)] assms(5) by simp
  with one_sender [OF assms(2-4) _ handled(2) [unfolded assms(1)]] show ?thesis by blast
qed

end

text \<open>Iterations as events of a rate limiter: the time of the message of kind \<open>X\<close>, if one was sent.\<close>

definition sends_at ::
  "(emission \<Rightarrow> bool) \<Rightarrow> (iteration \<Rightarrow> int) \<Rightarrow> os \<Rightarrow> (double \<Rightarrow> double \<Rightarrow> double) \<Rightarrow> iteration \<Rightarrow> BridgeApp \<Rightarrow> int option \<times> BridgeApp" where
  "sends_at X clock env pow it st = (case run_iteration env pow it st of
       None \<Rightarrow> (None, st)
     | Some (out, r, st') \<Rightarrow> (if list_ex X out then Some (clock it) else None, st'))"

definition fdm_rate_is :: "double \<Rightarrow> BridgeApp \<Rightarrow> bool" where
  "fdm_rate_is rate st \<longleftrightarrow> fdm_rateHz (fdm (app_config st)) = rate"

interpretation fdm_sender: periodic_sender "fdm_rate_is rate" lastFdmSendTime is_fdm "\<lambda>dt. \<not> seconds dt < 1 / rate"
  by unfold_locales (simp_all add: fdm_rate_is_def send_times_def)

interpretation heartbeat_sender: periodic_sender "\<lambda>_. True" lastMavlinkHeartbeatTime is_heartbeat "\<lambda>dt. 1000000000 \<le> dt"
  by unfold_locales (simp_all add: send_times_def)

text \<open>The two senders as events.\<close>

lemma SendFdm_sends:
  assumes "fdm_rate_is rate st" "SendFdmIfNeeded env pow sendto now now' st = (r, st')"
  shows "fdm_rate_is rate st' \<and>
    (\<not> seconds (now - lastFdmSendTime st) < 1 / rate \<and> lastFdmSendTime st' = now \<and> (\<exists>out. r = Ok out \<and> list_ex is_fdm out) \<or>
     lastFdmSendTime st' = lastFdmSendTime st \<and> (\<forall>out. r = Ok out \<longrightarrow> \<not> list_ex is_fdm out))"
  using SendFdm_shape [OF assms(2)]
proof
  assume "st' = st \<and> (\<forall>out. r = Ok out \<longrightarrow> out = [])"
  then have "lastFdmSendTime st' = lastFdmSendTime st" "\<And>out. r = Ok out \<Longrightarrow> \<not> list_ex is_fdm out" "fdm_rate_is rate st'"
    using assms(1) by (simp_all add: list_ex_iff)
  then show ?thesis by blast
next
  assume "\<exists>d b. r = Ok [FdmDatagram d] \<and> \<not> seconds (now - lastFdmSendTime st) < 1 / fdm_rateHz (fdm (app_config st)) \<and>
      st' = st\<lparr>lastFdmSendTime := now, fdmPackets := fdmPackets st + 1, loggedFirstFdm := b\<rparr>"
  then obtain d b where r: "r = Ok [FdmDatagram d]" and n: "\<not> seconds (now - lastFdmSendTime st) < 1 / rate"
    and st': "st' = st\<lparr>lastFdmSendTime := now, fdmPackets := fdmPackets st + 1, loggedFirstFdm := b\<rparr>"
    using assms(1) unfolding fdm_rate_is_def by blast
  have "lastFdmSendTime st' = now" "fdm_rate_is rate st'" using assms(1) by (simp_all add: st' fdm_rate_is_def)
  moreover have "\<exists>out. r = Ok out \<and> list_ex is_fdm out" by (simp add: r)
  ultimately show ?thesis using n by blast
qed

lemma Heartbeat_sends:
  assumes "SendMavlinkHeartbeatIfNeeded env message sendto now st = (r, st')"
  shows "True \<and> (1000000000 \<le> now - lastMavlinkHeartbeatTime st \<and> lastMavlinkHeartbeatTime st' = now \<and>
      (\<exists>out. r = Ok out \<and> list_ex is_heartbeat out) \<or>
     lastMavlinkHeartbeatTime st' = lastMavlinkHeartbeatTime st \<and> (\<forall>out. r = Ok out \<longrightarrow> \<not> list_ex is_heartbeat out))"
  using Heartbeat_shape [OF assms]
proof
  assume "st' = st \<and> (\<forall>out. r = Ok out \<longrightarrow> out = [])"
  then have "lastMavlinkHeartbeatTime st' = lastMavlinkHeartbeatTime st" "\<And>out. r = Ok out \<Longrightarrow> \<not> list_ex is_heartbeat out"
    by (simp_all add: list_ex_iff)
  then show ?thesis by blast
next
  assume "\<exists>d. r = Ok [HeartbeatDatagram d] \<and> hasMavlinkOutput st \<and> 1000000000 \<le> now - lastMavlinkHeartbeatTime st \<and>
      st' = st\<lparr>lastMavlinkHeartbeatTime := now\<rparr>"
  then obtain d where r: "r = Ok [HeartbeatDatagram d]" and n: "1000000000 \<le> now - lastMavlinkHeartbeatTime st"
    and st': "st' = st\<lparr>lastMavlinkHeartbeatTime := now\<rparr>" by blast
  have "lastMavlinkHeartbeatTime st' = now" by (simp add: st')
  moreover have "\<exists>out. r = Ok out \<and> list_ex is_heartbeat out" by (simp add: r)
  ultimately show ?thesis using n by blast
qed

text \<open>Neither of the two senders disturbs the other.\<close>

lemma Heartbeat_no_fdm:
  assumes "SendMavlinkHeartbeatIfNeeded env message sendto now st = (r, st')"
  shows "app_config st' = app_config st \<and> lastFdmSendTime st' = lastFdmSendTime st \<and>
    (\<forall>out. r = Ok out \<longrightarrow> list_all (\<lambda>em. \<not> is_fdm em) out)"
  using Heartbeat_shape [OF assms]
proof
  assume "st' = st \<and> (\<forall>out. r = Ok out \<longrightarrow> out = [])"
  then have "st' = st" "\<And>out. r = Ok out \<Longrightarrow> list_all (\<lambda>em. \<not> is_fdm em) out" by simp_all
  then show ?thesis by blast
next
  assume "\<exists>d. r = Ok [HeartbeatDatagram d] \<and> hasMavlinkOutput st \<and> 1000000000 \<le> now - lastMavlinkHeartbeatTime st \<and>
      st' = st\<lparr>lastMavlinkHeartbeatTime := now\<rparr>"
  then obtain d where r: "r = Ok [HeartbeatDatagram d]" and st': "st' = st\<lparr>lastMavlinkHeartbeatTime := now\<rparr>" by blast
  have "list_all (\<lambda>em. \<not> is_fdm em) [HeartbeatDatagram d]" by simp
  then show ?thesis by (simp add: r st')
qed

lemma SendFdm_no_heartbeat:
  assumes "SendFdmIfNeeded env pow sendto now now' st = (r, st')"
  shows "lastMavlinkHeartbeatTime st' = lastMavlinkHeartbeatTime st \<and>
    (\<forall>out. r = Ok out \<longrightarrow> list_all (\<lambda>em. \<not> is_heartbeat em) out)"
  using SendFdm_shape [OF assms]
proof
  assume "st' = st \<and> (\<forall>out. r = Ok out \<longrightarrow> out = [])"
  then have "st' = st" "\<And>out. r = Ok out \<Longrightarrow> list_all (\<lambda>em. \<not> is_heartbeat em) out" by simp_all
  then show ?thesis by blast
next
  assume "\<exists>d b. r = Ok [FdmDatagram d] \<and> \<not> seconds (now - lastFdmSendTime st) < 1 / fdm_rateHz (fdm (app_config st)) \<and>
      st' = st\<lparr>lastFdmSendTime := now, fdmPackets := fdmPackets st + 1, loggedFirstFdm := b\<rparr>"
  then obtain d b where r: "r = Ok [FdmDatagram d]"
    and st': "st' = st\<lparr>lastFdmSendTime := now, fdmPackets := fdmPackets st + 1, loggedFirstFdm := b\<rparr>" by blast
  have "list_all (\<lambda>em. \<not> is_heartbeat em) [FdmDatagram d]" by simp
  then show ?thesis by (simp add: r st')
qed

lemma obeys_quietI:
  assumes "I st'" "\<forall>out. r = Ok out \<longrightarrow> list_all Q out"
  shows "I st' \<and> (case r of Ok out \<Rightarrow> list_all Q out | Throw e \<Rightarrow> True | Undefined \<Rightarrow> True)"
  using assms by (cases r) simp_all

lemma fdm_step:
  assumes "fdm_rate_is rate st" "run_iteration env pow it st = Some (out, r, st')"
  shows "list_ex is_fdm out \<and> \<not> seconds (it_fdm_now it - lastFdmSendTime st) < 1 / rate \<and> fdm_rate_is rate st' \<and> lastFdmSendTime st' = it_fdm_now it \<or>
    \<not> list_ex is_fdm out \<and> fdm_rate_is rate st' \<and> lastFdmSendTime st' = lastFdmSendTime st"
proof (rule fdm_sender.iteration_step [OF _ _ _ _ assms])
  let ?hb = "SendMavlinkHeartbeatIfNeeded env (it_heartbeat_pack it) (it_heartbeat_sendto it) (it_heartbeat_now it)"
  show "handlers env pow it = [emits (PublishMotorCommandIfNeeded (it_publish_now it))] @
      emits (SendFdmIfNeeded env pow (it_fdm_sendto it) (it_fdm_now it) (it_fdm_stamp it)) #
      [UpdateRangefinders it, emits (UpdateOdometry it), emits ?hb, emits (LogStatusIfNeeded (it_log_now it))]"
    by (simp add: handlers_def)
  show "list_all (fdm_sender.quiet rate) [emits (PublishMotorCommandIfNeeded (it_publish_now it))]"
    using fdm_sender.quiet_everywhere by simp
  have "obeys (fdm_sender.state_at rate t) (\<lambda>em. \<not> is_fdm em) (\<lambda>_. True) (emits ?hb)" for t
  proof (rule obeys_emits, unfold sender_obeys_def, intro allI impI)
    fix st r st' assume s: "fdm_sender.state_at rate t st" and h: "?hb st = (r, st')"
    have "fdm_sender.state_at rate t st'" using s Heartbeat_no_fdm [OF h] unfolding fdm_rate_is_def by metis
    then show "fdm_sender.state_at rate t st' \<and>
        (case r of Ok out \<Rightarrow> list_all (\<lambda>em. \<not> is_fdm em) out | Throw e \<Rightarrow> True | Undefined \<Rightarrow> True)"
      by (rule obeys_quietI [OF _ Heartbeat_no_fdm [OF h, THEN conjunct2, THEN conjunct2]])
  qed
  then show "list_all (fdm_sender.quiet rate) [UpdateRangefinders it, emits (UpdateOdometry it), emits ?hb, emits (LogStatusIfNeeded (it_log_now it))]"
    using fdm_sender.quiet_everywhere by simp
  fix st r st'
  assume "fdm_rate_is rate st" "SendFdmIfNeeded env pow (it_fdm_sendto it) (it_fdm_now it) (it_fdm_stamp it) st = (r, st')"
  then show "fdm_rate_is rate st' \<and>
      (\<not> seconds (it_fdm_now it - lastFdmSendTime st) < 1 / rate \<and> lastFdmSendTime st' = it_fdm_now it \<and>
        (\<exists>out. r = Ok out \<and> list_ex is_fdm out) \<or>
       lastFdmSendTime st' = lastFdmSendTime st \<and> (\<forall>out. r = Ok out \<longrightarrow> \<not> list_ex is_fdm out))"
    by (rule SendFdm_sends)
qed

lemma heartbeat_step:
  assumes "run_iteration env pow it st = Some (out, r, st')"
  shows "list_ex is_heartbeat out \<and> 1000000000 \<le> it_heartbeat_now it - lastMavlinkHeartbeatTime st \<and>
      lastMavlinkHeartbeatTime st' = it_heartbeat_now it \<or>
    \<not> list_ex is_heartbeat out \<and> lastMavlinkHeartbeatTime st' = lastMavlinkHeartbeatTime st"
proof -
  let ?fdm = "SendFdmIfNeeded env pow (it_fdm_sendto it) (it_fdm_now it) (it_fdm_stamp it)"
  let ?hb = "SendMavlinkHeartbeatIfNeeded env (it_heartbeat_pack it) (it_heartbeat_sendto it) (it_heartbeat_now it)"
  let ?pre = "[emits (PublishMotorCommandIfNeeded (it_publish_now it)), emits ?fdm, UpdateRangefinders it, emits (UpdateOdometry it)]"
  have h: "handlers env pow it = ?pre @ emits ?hb # [emits (LogStatusIfNeeded (it_log_now it))]" by (simp add: handlers_def)
  have "obeys (heartbeat_sender.state_at t) (\<lambda>em. \<not> is_heartbeat em) (\<lambda>_. True) (emits ?fdm)" for t
  proof (rule obeys_emits, unfold sender_obeys_def, intro allI impI)
    fix st r st' assume s: "heartbeat_sender.state_at t st" and h: "?fdm st = (r, st')"
    have "heartbeat_sender.state_at t st'" using s SendFdm_no_heartbeat [OF h] by metis
    then show "heartbeat_sender.state_at t st' \<and>
        (case r of Ok out \<Rightarrow> list_all (\<lambda>em. \<not> is_heartbeat em) out | Throw e \<Rightarrow> True | Undefined \<Rightarrow> True)"
      by (rule obeys_quietI [OF _ SendFdm_no_heartbeat [OF h, THEN conjunct2]])
  qed
  then have q: "list_all heartbeat_sender.quiet ?pre" "list_all heartbeat_sender.quiet [emits (LogStatusIfNeeded (it_log_now it))]"
    using heartbeat_sender.quiet_everywhere by simp_all
  have "list_ex is_heartbeat out \<and> 1000000000 \<le> it_heartbeat_now it - lastMavlinkHeartbeatTime st \<and>
      heartbeat_sender.state_at (it_heartbeat_now it) st' \<or>
    \<not> list_ex is_heartbeat out \<and> heartbeat_sender.state_at (lastMavlinkHeartbeatTime st) st'"
    by (rule heartbeat_sender.iteration_step [OF h q _ _ assms]) (erule Heartbeat_sends, rule TrueI)
  then show ?thesis by blast
qed

interpretation fdm_limit: rate_limiter "fdm_rate_is rate" lastFdmSendTime "\<lambda>dt. \<not> seconds dt < 1 / rate" "sends_at is_fdm it_fdm_now env pow"
proof
  fix st t st' it
  assume i: "fdm_rate_is rate st" and s: "sends_at is_fdm it_fdm_now env pow it st = (Some t, st')"
  then obtain out r where "run_iteration env pow it st = Some (out, r, st')" "list_ex is_fdm out" "t = it_fdm_now it"
    by (auto simp: sends_at_def split: option.splits if_splits)
  with fdm_step [OF i] show "\<not> seconds (t - lastFdmSendTime st) < 1 / rate \<and> lastFdmSendTime st' = t" by blast
next
  fix st st' it
  assume i: "fdm_rate_is rate st" and s: "sends_at is_fdm it_fdm_now env pow it st = (None, st')"
  with fdm_step [OF i] show "lastFdmSendTime st' = lastFdmSendTime st"
    by (fastforce simp: sends_at_def split: option.splits if_splits)
next
  fix st r st' it
  assume i: "fdm_rate_is rate st" and s: "sends_at is_fdm it_fdm_now env pow it st = (r, st')"
  with fdm_step [OF i] show "fdm_rate_is rate st'"
    by (fastforce simp: sends_at_def split: option.splits if_splits)
qed

interpretation heartbeat_limit: rate_limiter "\<lambda>_. True" lastMavlinkHeartbeatTime "\<lambda>dt. 1000000000 \<le> dt"
  "sends_at is_heartbeat it_heartbeat_now env pow"
proof
  fix st t st' it
  assume s: "sends_at is_heartbeat it_heartbeat_now env pow it st = (Some t, st')"
  then obtain out r where "run_iteration env pow it st = Some (out, r, st')" "list_ex is_heartbeat out" "t = it_heartbeat_now it"
    by (auto simp: sends_at_def split: option.splits if_splits)
  with heartbeat_step show "1000000000 \<le> t - lastMavlinkHeartbeatTime st \<and> lastMavlinkHeartbeatTime st' = t" by blast
next
  fix st st' it
  assume s: "sends_at is_heartbeat it_heartbeat_now env pow it st = (None, st')"
  with heartbeat_step show "lastMavlinkHeartbeatTime st' = lastMavlinkHeartbeatTime st"
    by (fastforce simp: sends_at_def split: option.splits if_splits)
qed simp

section \<open>Runs one after the other\<close>

lemma Run_append:
  assumes "Run env pow its st = Some (out', Ok n, st1)"
  shows "\<exists>out. out' = out @ [ActuatorMsg (Publish ZeroMotors)] \<and>
    (\<forall>rest_its outs r st2. Run env pow rest_its st1 = Some (outs, r, st2) \<longrightarrow>
      Run env pow (its @ rest_its) st = Some (out @ outs, r, st2))"
  using assms
proof (induction its arbitrary: st out')
  case Nil
  then show ?case by (intro exI [of _ "[]"]) auto
next
  case (Cons it its)
  from Cons.prems obtain out1 st0 outs where it: "run_iteration env pow it st = Some (out1, Ok (), st0)"
    and rest: "Run env pow its st0 = Some (outs, Ok n, st1)" "out' = out1 @ outs"
    by (auto split: option.splits outcome.splits)
  from Cons.IH [OF rest(1)] obtain out where "outs = out @ [ActuatorMsg (Publish ZeroMotors)]"
    and m: "\<And>rest_its outs r st2. Run env pow rest_its st1 = Some (outs, r, st2) \<Longrightarrow> Run env pow (its @ rest_its) st0 = Some (out @ outs, r, st2)"
    by blast
  with rest(2) it show ?case by (intro exI [of _ "out1 @ out"]) auto
qed

lemma callbacks_motor_socket: "motorSocket (fold run_callback cs st) = motorSocket st"
proof -
  have "motorSocket (run_callback c st) = motorSocket st" for c st by (cases c) (simp_all add: Let_def)
  then show ?thesis by (induction cs arbitrary: st) simp_all
qed

section \<open>Properties\<close>

text \<open>C3: from a ready object (sockets open and aimed, finite velocity bounds in order), and as long as the
  laser scans carry readings the distance conversions accept (\<open>sane_iteration\<close>; outside it the conversion is
  undefined, see C21), the behaviour of the main loop is defined whatever the network, the clocks and the
  callbacks do.  It ends either normally, with the value 0 and the zero command as its last message, or with
  an error of \<^verbatim>\<open>recvfrom\<close> or \<^verbatim>\<open>sendto\<close>.  Every actuator message before that has four velocities from the
  configured minimum to the configured maximum, which rounding can exceed by one part in \<open>2 ^ 51\<close> when the
  minimum is not 0 (\<open>in_range\<close>).  It does end when the motor queue runs empty at some point of every
  iteration.\<close>

theorem run_outcome:
  assumes "app_ready st" "list_all sane_iteration its"
  shows "(list_all (\<lambda>it. \<exists>i. failing (fst (it_recv it i))) its \<longrightarrow> Run env pow its st \<noteq> None) \<and>
    (\<forall>out r st'. Run env pow its st = Some (out, r, st') \<longrightarrow>
      (\<exists>pub. list_all (message_in_range (velocityConverter st)) pub \<and>
        (r = Ok 0 \<and> out = pub @ [ActuatorMsg (Publish ZeroMotors)] \<or> out = pub \<and> (\<exists>e. r = Throw e \<and> io_error e))))"
  using Run_ready [OF _ _ assms(2), where cv = "velocityConverter st"] Run_returns [OF _ assms(2), where cv = "velocityConverter st"] assms(1)
  unfolding list_all_iff by blast

definition sample_iteration :: iteration where
  "sample_iteration = \<lparr>it_callbacks = (\<lambda>_. []), it_recv = (\<lambda>_. (Failed EAGAIN, 0)), it_publish_now = 0, it_fdm_now = 0,
     it_fdm_stamp = 0, it_fdm_sendto = (\<lambda>b. int (length b)), it_tcp = (\<lambda>_. sample_tcp), it_range = sample_renv,
     it_tfmini_now = 0, it_range_now = 0, it_odometry = sample_oenv, it_odometry_now = 0,
     it_heartbeat_pack = (\<lambda>_ _ _. [0]), it_heartbeat_sendto = (\<lambda>b. int (length b)), it_heartbeat_now = 0, it_log_now = 0\<rparr>"

lemma sample_ready: "app_ready sample_app" "sane_iteration sample_iteration" "failing (fst (it_recv sample_iteration 0))"
  using sample_app_ready
  by (simp_all add: app_ready_def sane_iteration_def sample_iteration_def failing_def)
    (simp_all add: sample_app_def range_ready_def range_sane_def)

theorem run_outcome_witness:
  "\<exists>out r st'. Run sample_os (\<lambda>b _. b) [sample_iteration, sample_iteration] sample_app = Some (out, r, st') \<and>
     (\<exists>pub. list_all (message_in_range (velocityConverter sample_app)) pub \<and>
       (r = Ok 0 \<and> out = pub @ [ActuatorMsg (Publish ZeroMotors)] \<or> out = pub \<and> (\<exists>e. r = Throw e \<and> io_error e)))"
proof -
  let ?its = "[sample_iteration, sample_iteration]"
  have s: "list_all sane_iteration ?its" using sample_ready(2) by simp
  have "list_all (\<lambda>it. \<exists>i. failing (fst (it_recv it i))) ?its" using sample_ready(3) by auto
  then have "Run sample_os (\<lambda>b _. b) ?its sample_app \<noteq> None" using run_outcome [OF sample_ready(1) s] by blast
  then obtain out r st' where R: "Run sample_os (\<lambda>b _. b) ?its sample_app = Some (out, r, st')"
    by (metis option.exhaust prod_cases3)
  with run_outcome [OF sample_ready(1) s] show ?thesis by blast
qed

text \<open>C31: in a run of any length FDM datagrams are never closer together than the period of the configured rate,
  counted from the start and whatever happens in between.\<close>

theorem fdm_rate_limited:
  "spaced (\<lambda>dt. \<not> seconds dt < 1 / fdm_rateHz (fdm (app_config st)))
     (lastFdmSendTime st # firings (sends_at is_fdm it_fdm_now env pow) its st)"
  by (rule fdm_limit.spaced_firings) (simp add: fdm_rate_is_def)

text \<open>In a run of any length heartbeats are at least one second apart.\<close>

lemma heartbeats_spaced:
  "spaced (\<lambda>dt. 1000000000 \<le> dt)
     (lastMavlinkHeartbeatTime st # firings (sends_at is_heartbeat it_heartbeat_now env pow) its st)"
  by (rule heartbeat_limit.spaced_firings) simp

text \<open>C37: an error of \<^verbatim>\<open>recvfrom\<close> leaves \<^verbatim>\<open>Run\<close> without the zero command the normal end publishes: after any run
  that could have ended normally, the actuators keep the last velocities they got.\<close>

theorem error_skips_zero_command:
  assumes "Run env pow its st = Some (out @ [ActuatorMsg (Publish ZeroMotors)], Ok 0, st1)" "0 \<le> fd (motorSocket st1)"
    and "fst (it_recv it 0) = Failed e" "e \<noteq> EAGAIN" "e \<noteq> EWOULDBLOCK"
  shows "\<exists>st'. Run env pow (its @ it # rest_its) st = Some (out, Throw (''recvfrom failed: '' @ os_strerror env), st')"
proof -
  let ?st = "fold run_callback (it_callbacks it 0) st1"
  have "0 \<le> fd (motorSocket ?st)" using assms(2) by (simp add: callbacks_motor_socket)
  from receive_up_to [where rs = "it_recv it" and env = env, OF this _ assms(3)] assms(4,5)
  have "ReceiveMotorPackets env (it_recv it) ?st = Some (Throw (''recvfrom failed: '' @ os_strerror env), motor_input (waiting (it_recv it) 0) ?st)"
    by simp
  then have "Run env pow (it # rest_its) st1 = Some ([], Throw (''recvfrom failed: '' @ os_strerror env), motor_input (waiting (it_recv it) 0) ?st)"
    by (simp add: run_iteration_def)
  with Run_append [OF assms(1)] show ?thesis by force
qed

theorem error_skips_zero_command_witness:
  "\<exists>st'. Run sample_os (\<lambda>b _. b) ([] @ sample_iteration\<lparr>it_recv := (\<lambda>_. (Failed 5, 0))\<rparr> # []) sample_app =
     Some ([], Throw (''recvfrom failed: '' @ os_strerror sample_os), st')"
  by (rule error_skips_zero_command [of _ _ "[]" sample_app "[]" sample_app _ 5])
    (simp_all add: sample_app_ready EAGAIN_def EWOULDBLOCK_def)

end
