(* ===== verification/BridgeStart.thy ===== *)
theory BridgeStart
  imports BridgeRun
begin

text \<open>
  The constructor \<^verbatim>\<open>BridgeApp::BridgeApp\<close>: when it succeeds, what state it leaves for \<^verbatim>\<open>Run\<close>, and that a
  constructor that throws half way closes every socket the members before had opened.
\<close>

section \<open>Descriptors of the members\<close>

lemma SetDestination_slot:
  assumes "fresh_sockets env" "owned_once (h(a := fd u)) k" "SetDestination env ad port (u, k) = (r, u', k')"
  shows "owned_once (h(a := fd u')) k'" and "r \<noteq> Undefined"
proof -
  show "owned_once (h(a := fd u')) k'"
    using disciplinedD [OF SetDestination_disciplined [OF assms(1), of ad port] _ assms(2), of u' k'] assms(3) by simp
  have "fst (ensure_socket env (u, k)) \<noteq> Undefined"
    by (auto simp: ensure_socket_def CreateSocket_def Let_def)
  then show "r \<noteq> Undefined"
    using assms(3) by (auto simp: SetDestination_def act_bind_def Let_def split: prod.splits outcome.splits option.splits)
qed

lemma Bind_slot:
  assumes "fresh_sockets env" "owned_once (h(a := fd u)) k" "Bind env port (u, k) = (r, u', k')"
  shows "owned_once (h(a := fd u')) k'" and "r \<noteq> Undefined"
proof -
  show "owned_once (h(a := fd u')) k'"
    using disciplinedD [OF Bind_disciplined [OF assms(1), of port] _ assms(2), of u' k'] assms(3) by simp
  have "fst (ensure_socket env (u, k)) \<noteq> Undefined"
    by (auto simp: ensure_socket_def CreateSocket_def Let_def)
  then show "r \<noteq> Undefined"
    using assms(3) by (auto simp: Bind_def act_bind_def split: prod.splits outcome.splits if_splits)
qed

lemma Close_slot:
  assumes "owned_once (h(a := fd u)) k"
  shows "owned_once (h(a := - 1)) (snd (Close (u, k)))"
proof -
  obtain u' k' where c: "Close (u, k) = (u', k')" by force
  have "owned_once (h(a := fd u')) k'" using disciplinedD [OF Close_disciplined _ assms c] by simp
  from owned_none [OF this Close_closed [OF c], of "- 1"] show ?thesis by (simp add: c)
qed

lemma new_fd [simp]: "fd new_UdpSocket = - 1"
  by (simp add: new_UdpSocket_def)

lemma subscribe_all_no_ub: "subscribe_all subscribe cs \<noteq> Undefined"
  by (induction cs) (auto simp: no_ub)

lemma new_RangefinderManager_owned:
  assumes "fresh_sockets env" "owned_once (h(a := - 1)) k" "new_RangefinderManager env subscribe cs mav st k = (r, k')"
  shows "case r of Ok rm \<Rightarrow> owned_once (h(a := fd (rm_udp rm))) k' | Throw e \<Rightarrow> owned_once (h(a := - 1)) k' | Undefined \<Rightarrow> False"
proof -
  obtain r1 u k1 where s: "(if has_mavlink cs then SetDestination env (mav_address mav) (mav_port mav) (new_UdpSocket, k)
       else (Ok (), new_UdpSocket, k)) = (r1, u, k1)" by (metis prod.collapse)
  have o: "owned_once (h(a := fd u)) k1 \<and> r1 \<noteq> Undefined"
  proof (cases "has_mavlink cs")
    case True
    with s have "SetDestination env (mav_address mav) (mav_port mav) (new_UdpSocket, k) = (r1, u, k1)" by simp
    from SetDestination_slot [OF assms(1) _ this] assms(2) show ?thesis by simp
  next
    case False
    with s assms(2) show ?thesis by auto
  qed
  then have "owned_once (h(a := - 1)) (snd (Close (u, k1)))" by (blast intro: Close_slot)
  then show ?thesis
    using assms(3) o subscribe_all_no_ub [of subscribe cs] unfolding new_RangefinderManager_def s
    by (auto split: outcome.splits)
qed

lemma new_OdometryManager_owned:
  assumes "fresh_sockets env" "owned_once (h(a := - 1)) k" "new_OdometryManager env subscribe c mav k = (r, k')"
  shows "case r of Ok om \<Rightarrow> owned_once (h(a := fd (udp om))) k' | Throw e \<Rightarrow> owned_once (h(a := - 1)) k' | Undefined \<Rightarrow> False"
proof -
  obtain r1 u k1 where s: "SetDestination env (mav_address mav) (mav_port mav) (new_UdpSocket, k) = (r1, u, k1)"
    by (metis prod.collapse)
  from SetDestination_slot [OF assms(1) _ s] assms(2)
  have o: "owned_once (h(a := fd u)) k1" "r1 \<noteq> Undefined" by simp_all
  have "owned_once (h(a := - 1)) (snd (Close (u, k1)))" by (rule Close_slot [OF o(1)])
  then show ?thesis
    using assms(2,3) o by (auto simp: new_OdometryManager_def s Let_def split: if_splits outcome.splits)
qed

text \<open>The descriptors of the five sockets, by position in the order of construction.\<close>

definition slots :: "int list \<Rightarrow> nat \<Rightarrow> int" where
  "slots ds a = (if a < length ds then ds ! a else - 1)"

lemma slots_upd: "a < length ds \<Longrightarrow> (slots ds)(a := d) = slots (ds[a := d])"
  by (auto simp: slots_def)

lemma slots_none [simp]: "slots [- 1, - 1, - 1, - 1, - 1] = (\<lambda>_. - 1)"
  by (rule ext) (auto simp: slots_def nth_Cons split: nat.split)

lemma distinct_filterI:
  assumes "\<And>i j. i < j \<Longrightarrow> j < length xs \<Longrightarrow> P (xs ! i) \<Longrightarrow> xs ! i \<noteq> xs ! j"
  shows "distinct (filter P xs)"
  using assms
proof (induction xs)
  case (Cons x xs)
  have "distinct (filter P xs)"
    by (rule Cons.IH) (use Cons.prems [of "Suc i" "Suc j" for i j] in simp)
  moreover have "x \<notin> set xs" if "P x"
    using Cons.prems [of 0 "Suc j" for j] that by (auto simp: in_set_conv_nth)
  ultimately show ?case by simp
qed simp

lemma distinct_filter_slots:
  assumes "owned_once (slots ds) k"
  shows "distinct (filter (\<lambda>d. 0 \<le> d) ds)"
proof (rule distinct_filterI)
  fix i j assume ij: "i < j" "j < length ds" "0 \<le> ds ! i"
  then show "ds ! i \<noteq> ds ! j"
    using owned_onceD(3) [OF assms, of i j] by (auto simp: slots_def)
qed

lemma open_sockets_owned:
  assumes "fresh_sockets env" "owned_once (slots [a, b, - 1, - 1, - 1]) k" "open_sockets env c k = (r, ms, fs, vs, k')"
  shows "owned_once (slots [a, b, fd ms, fd fs, fd vs]) k'" and "r \<noteq> Undefined"
proof -
  obtain r1 u1 k1 where b: "Bind env (sitl_motorPort (sitl c)) (new_UdpSocket, k) = (r1, u1, k1)" by (metis prod.collapse)
  obtain r2 u2 k2 where f: "SetDestination env (sitl_address (sitl c)) (sitl_fdmPort (sitl c)) (new_UdpSocket, k1) = (r2, u2, k2)"
    by (metis prod.collapse)
  obtain r3 u3 k3 where v: "SetDestination env (mav_address (mavlink c)) (mav_port (mavlink c)) (new_UdpSocket, k2) = (r3, u3, k3)"
    by (metis prod.collapse)
  have B: "owned_once (slots [a, b, fd u1, - 1, - 1]) k1" "r1 \<noteq> Undefined"
    using Bind_slot [of env "slots [a, b, - 1, - 1, - 1]" 2, OF assms(1) _ b] assms(2) by (simp_all add: slots_upd)
  have F: "owned_once (slots [a, b, fd u1, fd u2, - 1]) k2" "r2 \<noteq> Undefined"
    using SetDestination_slot [of env "slots [a, b, fd u1, - 1, - 1]" 3, OF assms(1) _ f] B by (simp_all add: slots_upd)
  have V: "owned_once (slots [a, b, fd u1, fd u2, fd u3]) k3" "r3 \<noteq> Undefined"
    using SetDestination_slot [of env "slots [a, b, fd u1, fd u2, - 1]" 4, OF assms(1) _ v] F by (simp_all add: slots_upd)
  from assms(3) have "r = r1 \<and> ms = u1 \<and> fd fs = - 1 \<and> fd vs = - 1 \<and> k' = k1 \<or>
      r = r2 \<and> ms = u1 \<and> fs = u2 \<and> fd vs = - 1 \<and> k' = k2 \<or>
      r = Ok () \<and> ms = u1 \<and> fs = u2 \<and> fd vs = - 1 \<and> k' = k2 \<or>
      r = r3 \<and> ms = u1 \<and> fs = u2 \<and> vs = u3 \<and> k' = k3"
    by (auto simp: open_sockets_def b f v split: outcome.splits if_splits)
  then show "owned_once (slots [a, b, fd ms, fd fs, fd vs]) k'" "r \<noteq> Undefined" using B F V by auto
qed

lemma close_all:
  assumes "owned_once (slots [fd u1, fd u2, fd u3, fd u4, fd u5]) k"
  shows "owned_once (\<lambda>_. - 1) (close_sockets [u2, u1, u5, u4, u3] k)"
proof -
  let ?c = "\<lambda>u k. snd (Close (u, k))"
  have s: "owned_once (slots (ds[a := - 1])) (?c u k)" if "owned_once (slots ds) k" "a < length ds" "ds ! a = fd u" for ds a u k
  proof -
    have "(slots ds)(a := fd u) = slots ds" using that(2,3) by (auto simp: slots_def)
    with that(1) have "owned_once ((slots ds)(a := fd u)) k" by simp
    from Close_slot [OF this] show ?thesis by (simp add: slots_upd that(2))
  qed
  have "owned_once (slots [fd u1, - 1, fd u3, fd u4, fd u5]) (?c u2 k)" using s [OF assms, of 1 u2] by simp
  from s [OF this, of 0 u1] have "owned_once (slots [- 1, - 1, fd u3, fd u4, fd u5]) (?c u1 (?c u2 k))" by simp
  from s [OF this, of 4 u5] have "owned_once (slots [- 1, - 1, fd u3, fd u4, - 1]) (?c u5 (?c u1 (?c u2 k)))" by simp
  from s [OF this, of 3 u4] have "owned_once (slots [- 1, - 1, fd u3, - 1, - 1]) (?c u4 (?c u5 (?c u1 (?c u2 k))))" by simp
  from s [OF this, of 2 u3] have "owned_once (slots [- 1, - 1, - 1, - 1, - 1]) (?c u3 (?c u4 (?c u5 (?c u1 (?c u2 k)))))" by simp
  then show ?thesis by (simp add: close_sockets_def)
qed

section \<open>The constructor\<close>

lemma new_GazeboStateSubscriber_no_ub: "new_GazeboStateSubscriber subscribe c \<noteq> Undefined"
  by (auto simp: new_GazeboStateSubscriber_def Let_def no_ub split: option.splits)

lemma new_converter_no_ub: "new_converter lo hi \<noteq> Undefined"
  by (simp add: new_converter_def)

definition app_fds :: "BridgeApp \<Rightarrow> int list" where
  "app_fds st = [fd (rm_udp (app_rangefinders st)), fd (udp (app_odometry st)), fd (motorSocket st), fd (fdmSocket st),
     fd (mavlinkSocket st)]"

lemma new_BridgeApp_parts:
  assumes "new_BridgeApp env gz now c k = (Ok st, k')"
  obtains sub cv rm k1 om k2 where
    "new_GazeboStateSubscriber (gz_subscribe gz) (gazebo c) = Ok sub" "new_ActuatorPublisher (gz_advertise gz) (gazebo c) = Ok ()"
    "new_converter (mot_minRotorVelocityRadS (motors c)) (mot_maxRotorVelocityRadS (motors c)) = Ok cv"
    "new_RangefinderManager env (gz_subscribe gz) (rangefinders c) (mavlink c) now k = (Ok rm, k1)"
    "new_OdometryManager env (gz_subscribe gz) (odometry c) (mavlink c) k1 = (Ok om, k2)"
    "open_sockets env c k2 = (Ok (), motorSocket st, fdmSocket st, mavlinkSocket st, k')"
    "app_config st = c" "stateSubscriber st = sub" "velocityConverter st = cv" "lastMotorCommand st = ZeroMotors"
    "app_rangefinders st = rm" "app_odometry st = om" "hasMavlinkOutput st = any_mavlink c" "hasMotorPacket st = False"
    "app_kernel st = k'"
  using assms unfolding new_BridgeApp_def
  by (auto simp: obind_eq_Ok split: outcome.splits prod.splits)

lemma new_BridgeApp_owned:
  assumes "fresh_sockets env" "owned_once (\<lambda>_. - 1) k" "new_BridgeApp env gz now c k = (r, k')"
  shows "case r of Ok st \<Rightarrow> owned_once (slots (app_fds st)) k' | Throw e \<Rightarrow> owned_once (\<lambda>_. - 1) k' | Undefined \<Rightarrow> False"
proof -
  let ?pre = "obind (new_GazeboStateSubscriber (gz_subscribe gz) (gazebo c)) (\<lambda>sub.
           obind (new_ActuatorPublisher (gz_advertise gz) (gazebo c)) (\<lambda>_.
           obind (new_converter (mot_minRotorVelocityRadS (motors c)) (mot_maxRotorVelocityRadS (motors c))) (\<lambda>cv.
             Ok (sub, cv))))"
  have pre: "?pre \<noteq> Undefined"
    by (intro obind_no_ub) (simp_all add: new_GazeboStateSubscriber_no_ub new_converter_no_ub new_ActuatorPublisher_def)
  obtain r1 k1 where R: "new_RangefinderManager env (gz_subscribe gz) (rangefinders c) (mavlink c) now k = (r1, k1)" by force
  obtain r2 k2 where O: "new_OdometryManager env (gz_subscribe gz) (odometry c) (mavlink c) k1 = (r2, k2)" by force
  obtain r3 ms fs vs k3 where S: "open_sockets env c k2 = (r3, ms, fs, vs, k3)" by (metis prod.collapse)
  have k: "owned_once (slots [- 1, - 1, - 1, - 1, - 1]) k" using assms(2) by simp
  have R': "case r1 of Ok rm \<Rightarrow> owned_once (slots [fd (rm_udp rm), - 1, - 1, - 1, - 1]) k1
      | Throw e \<Rightarrow> owned_once (\<lambda>_. - 1) k1 | Undefined \<Rightarrow> False"
    using new_RangefinderManager_owned [of env "slots [- 1, - 1, - 1, - 1, - 1]" 0, OF assms(1) _ R] k
    by (simp add: slots_upd del: slots_none split: outcome.splits) simp
  show ?thesis
  proof (cases ?pre)
    case (Throw e)
    with assms(2,3) show ?thesis by (auto simp: new_BridgeApp_def)
  next
    case Undefined
    with pre show ?thesis by blast
  next
    case pre: (Ok p)
    show ?thesis
    proof (cases r1)
      case (Throw e)
      with assms(3) pre R R' show ?thesis by (auto simp: new_BridgeApp_def)
    next
      case Undefined
      with R' show ?thesis by simp
    next
      case rm: (Ok rm)
      have O': "case r2 of Ok om \<Rightarrow> owned_once (slots [fd (rm_udp rm), fd (udp om), - 1, - 1, - 1]) k2
          | Throw e \<Rightarrow> owned_once (slots [fd (rm_udp rm), - 1, - 1, - 1, - 1]) k2 | Undefined \<Rightarrow> False"
        using new_OdometryManager_owned [of env "slots [fd (rm_udp rm), - 1, - 1, - 1, - 1]" 1, OF assms(1) _ O] R' rm
        by (simp add: slots_upd split: outcome.splits)
      show ?thesis
      proof (cases r2)
        case (Throw e)
        have "owned_once (slots [- 1, - 1, - 1, - 1, - 1]) (snd (Close (rm_udp rm, k2)))"
          using Close_slot [of "slots [fd (rm_udp rm), - 1, - 1, - 1, - 1]" 0 "rm_udp rm" k2] O' Throw
          by (simp add: slots_upd del: slots_none)
        with assms(3) pre R rm O Throw show ?thesis by (auto simp: new_BridgeApp_def close_sockets_def)
      next
        case Undefined
        with O' show ?thesis by simp
      next
        case om: (Ok om)
        have S': "owned_once (slots [fd (rm_udp rm), fd (udp om), fd ms, fd fs, fd vs]) k3" "r3 \<noteq> Undefined"
          using open_sockets_owned [OF assms(1) _ S] O' om by simp_all
        show ?thesis
        proof (cases r3)
          case (Throw e)
          from close_all [OF S'(1)] assms(3) pre R rm O om S Throw show ?thesis by (auto simp: new_BridgeApp_def)
        next
          case Undefined
          with S' show ?thesis by simp
        next
          case (Ok u)
          with assms(3) pre R rm O om S S'(1) show ?thesis
            by (auto simp: new_BridgeApp_def app_fds_def split: prod.splits)
        qed
      qed
    qed
  qed
qed

section \<open>Readiness after construction\<close>

lemma open_sockets_ready:
  assumes "open_sockets env c k = (Ok (), ms, fs, vs, k')"
  shows "0 \<le> fd ms" and "socket_ready fs" and "any_mavlink c \<Longrightarrow> socket_ready vs"
proof -
  have ready: "socket_ready u" if "SetDestination env ad port x = (Ok (), u, k1)" for ad port x u k1
    using SetDestination_Ok [OF that] SetDestination_Ok_fd [OF that] by (auto simp: socket_ready_def)
  show "0 \<le> fd ms" "socket_ready fs" "any_mavlink c \<Longrightarrow> socket_ready vs"
    using assms by (auto simp: open_sockets_def dest: Bind_Ok_fd ready split: outcome.splits prod.splits if_splits)
qed

lemma valid_sane: "valid_rangefinders cs \<Longrightarrow> list_all sane_config cs"
  by (auto simp: valid_rangefinders_def list_all_iff valid_rangefinder_def sane_config_def)

text \<open>What the constructor establishes for every valid configuration: the map is a permutation, the last
  command can be converted, and every socket is open and aimed.  Only the velocity bounds are missing for
  \<open>app_ready\<close>: Validate rejects by comparison, so they may be NaN or infinite.\<close>

definition app_wired :: "BridgeApp \<Rightarrow> bool" where
  "app_wired st \<longleftrightarrow> valid_map (mot_map (motors (app_config st))) \<and> arr4_all isfinite (lastMotorCommand st) \<and>
     0 \<le> fd (motorSocket st) \<and> socket_ready (fdmSocket st) \<and>
     (hasMavlinkOutput st \<longrightarrow> socket_ready (mavlinkSocket st)) \<and> range_ready (app_rangefinders st) \<and>
     range_sane (app_rangefinders st) \<and> (enabled (app_odometry st) \<longrightarrow> socket_ready (udp (app_odometry st)))"

lemma app_ready_wired:
  "app_ready st \<longleftrightarrow> app_wired st \<and>
     proper_range (minVelocityRadS (velocityConverter st)) (maxVelocityRadS (velocityConverter st))"
  by (auto simp: app_ready_def app_wired_def motors_ready_def)

abbreviation configured_bounds :: "BridgeConfig \<Rightarrow> MotorVelocityConverter" where
  "configured_bounds c \<equiv> \<lparr>minVelocityRadS = mot_minRotorVelocityRadS (motors c),
     maxVelocityRadS = mot_maxRotorVelocityRadS (motors c)\<rparr>"

lemma new_converter_valid:
  "valid_config inet_pton c \<Longrightarrow>
     new_converter (mot_minRotorVelocityRadS (motors c)) (mot_maxRotorVelocityRadS (motors c)) = Ok (configured_bounds c)"
  by (simp add: valid_config_def new_converter_def)

lemma construction_wired:
  assumes "valid_config inet_pton c" "new_BridgeApp env gz now c k = (Ok st, k')"
  shows "app_wired st" and "app_config st = c" and "lastMotorCommand st = ZeroMotors" and "\<not> hasMotorPacket st"
    and "velocityConverter st = configured_bounds c"
proof -
  obtain cv rm k1 om k2 where P:
    "new_converter (mot_minRotorVelocityRadS (motors c)) (mot_maxRotorVelocityRadS (motors c)) = Ok cv"
    "new_RangefinderManager env (gz_subscribe gz) (rangefinders c) (mavlink c) now k = (Ok rm, k1)"
    "new_OdometryManager env (gz_subscribe gz) (odometry c) (mavlink c) k1 = (Ok om, k2)"
    "open_sockets env c k2 = (Ok (), motorSocket st, fdmSocket st, mavlinkSocket st, k')"
    "app_config st = c" "velocityConverter st = cv" "lastMotorCommand st = ZeroMotors"
    "app_rangefinders st = rm" "app_odometry st = om" "hasMavlinkOutput st = any_mavlink c" "hasMotorPacket st = False"
    by (rule new_BridgeApp_parts [OF assms(2)]) blast
  have v: "valid_map (mot_map (motors c))" "valid_rangefinders (rangefinders c)"
    using assms(1) by (simp_all add: valid_config_def)
  note rm = new_RangefinderManager_ready [OF P(2)]
  have "list_all sane_mapping (rm_mappings rm)"
    using valid_sane [OF v(2)] sane_new by (auto simp: rm(2) list_all_iff)
  then have "range_sane (app_rangefinders st)" by (simp add: range_sane_def P)
  moreover have "enabled om \<longrightarrow> socket_ready (udp om)" using odometry_ready(2) [OF P(3)] by (simp add: socket_ready_def)
  ultimately show "app_wired st"
    using v(1) rm(1) open_sockets_ready [OF P(4)] by (simp add: app_wired_def P ZeroMotors_def zero_fp_def)
  show "app_config st = c" "lastMotorCommand st = ZeroMotors" "\<not> hasMotorPacket st"
    "velocityConverter st = configured_bounds c"
    using P(1) new_converter_valid [OF assms(1)] by (simp_all add: P)
qed

lemma construction_ready:
  assumes "valid_config inet_pton c" "proper_range (mot_minRotorVelocityRadS (motors c)) (mot_maxRotorVelocityRadS (motors c))"
    and "new_BridgeApp env gz now c k = (Ok st, k')"
  shows "app_ready st" and "app_config st = c" and "lastMotorCommand st = ZeroMotors" and "\<not> hasMotorPacket st"
    and "velocityConverter st = configured_bounds c"
  using construction_wired [OF assms(1,3)] assms(2) by (simp_all add: app_ready_wired)

section \<open>When construction succeeds\<close>

text \<open>An operating system with descriptors left, and a Gazebo that accepts every topic.\<close>

definition os_works :: "os \<Rightarrow> bool" where
  "os_works env \<longleftrightarrow> (\<forall>S d port. (finite S \<longrightarrow> 0 \<le> os_socket env S) \<and> 0 \<le> os_getfl env d \<and> 0 \<le> os_setfl env d \<and> 0 \<le> os_bind env d port)"

definition gz_works :: "gz_env \<Rightarrow> bool" where
  "gz_works gz \<longleftrightarrow> (\<forall>topic. gz_subscribe gz topic \<and> gz_advertise gz topic)"

lemma ensure_socket_works:
  assumes "os_works env" "finite (open_fds k)"
  shows "\<exists>u k'. ensure_socket env (new_UdpSocket, k) = (Ok (), u, k') \<and> finite (open_fds k')"
proof -
  have "\<not> os_socket env (open_fds k) < 0" "\<not> os_getfl env d < 0" "\<not> os_setfl env d < 0" for d
    using assms by (auto simp: os_works_def not_less)
  then show ?thesis using assms(2)
    by (simp add: ensure_socket_def CreateSocket_def Let_def sys_open_def)
qed

lemma SetDestination_works:
  assumes "os_works env" "finite (open_fds k)" "os_pton env ad \<noteq> None"
  obtains u k' where "SetDestination env ad port (new_UdpSocket, k) = (Ok (), u, k')" "finite (open_fds k')"
proof -
  obtain u k' a where "ensure_socket env (new_UdpSocket, k) = (Ok (), u, k')" "finite (open_fds k')" "os_pton env ad = Some a"
    using ensure_socket_works [OF assms(1,2)] assms(3) by blast
  then show ?thesis using that by (simp add: SetDestination_def act_bind_def Let_def)
qed

lemma Bind_works:
  assumes "os_works env" "finite (open_fds k)"
  obtains u k' where "Bind env port (new_UdpSocket, k) = (Ok (), u, k')" "finite (open_fds k')"
proof -
  obtain u k' where e: "ensure_socket env (new_UdpSocket, k) = (Ok (), u, k')" "finite (open_fds k')"
    using ensure_socket_works [OF assms] by blast
  have "\<not> os_bind env (fd u) port < 0" using assms(1) by (auto simp: os_works_def not_less)
  with e show ?thesis using that by (simp add: Bind_def act_bind_def)
qed

lemma subscribe_all_works: "gz_works gz \<Longrightarrow> \<exists>ms. subscribe_all (gz_subscribe gz) cs = Ok ms"
  by (induction cs) (auto simp: gz_works_def)

lemma new_RangefinderManager_works:
  assumes "os_works env" "gz_works gz" "finite (open_fds k)" "os_pton env (mav_address mav) \<noteq> None"
  obtains rm k' where "new_RangefinderManager env (gz_subscribe gz) cs mav now k = (Ok rm, k')" "finite (open_fds k')"
proof -
  obtain u k1 where u: "SetDestination env (mav_address mav) (mav_port mav) (new_UdpSocket, k) = (Ok (), u, k1)" "finite (open_fds k1)"
    using SetDestination_works [OF assms(1,3,4)] by blast
  obtain ms where "subscribe_all (gz_subscribe gz) cs = Ok ms" using subscribe_all_works [OF assms(2)] by blast
  with u assms(3) that show ?thesis by (cases "has_mavlink cs") (simp_all add: new_RangefinderManager_def)
qed

lemma new_OdometryManager_works:
  assumes "os_works env" "gz_works gz" "finite (open_fds k)" "os_pton env (mav_address mav) \<noteq> None"
  obtains om k' where "new_OdometryManager env (gz_subscribe gz) c mav k = (Ok om, k')" "finite (open_fds k')"
proof -
  obtain u k1 where "SetDestination env (mav_address mav) (mav_port mav) (new_UdpSocket, k) = (Ok (), u, k1)" "finite (open_fds k1)"
    using SetDestination_works [OF assms(1,3,4)] by blast
  moreover have "gz_subscribe gz (odo_gazeboTopic c)" using assms(2) by (simp add: gz_works_def)
  ultimately show ?thesis using assms(3) that by (cases "odo_enabled c") (simp_all add: new_OdometryManager_def Let_def)
qed

lemma construction_works:
  assumes "os_works env" "gz_works gz" "finite (open_fds k)" "valid_config (os_pton env) c" "os_pton env (sitl_address (sitl c)) \<noteq> None"
  shows "\<exists>st k'. new_BridgeApp env gz now c k = (Ok st, k')"
proof -
  have mav: "os_pton env (mav_address (mavlink c)) \<noteq> None" using assms(4) by (simp add: valid_config_def)
  obtain rm k1 where R: "new_RangefinderManager env (gz_subscribe gz) (rangefinders c) (mavlink c) now k = (Ok rm, k1)"
    and k1: "finite (open_fds k1)" using new_RangefinderManager_works [OF assms(1-3) mav] by blast
  obtain om k2 where O: "new_OdometryManager env (gz_subscribe gz) (odometry c) (mavlink c) k1 = (Ok om, k2)"
    and k2: "finite (open_fds k2)" using new_OdometryManager_works [OF assms(1,2) k1 mav] by blast
  obtain ms k3 where B: "Bind env (sitl_motorPort (sitl c)) (new_UdpSocket, k2) = (Ok (), ms, k3)"
    and k3: "finite (open_fds k3)" using Bind_works [OF assms(1) k2] by blast
  obtain fs k4 where F: "SetDestination env (sitl_address (sitl c)) (sitl_fdmPort (sitl c)) (new_UdpSocket, k3) = (Ok (), fs, k4)"
    and k4: "finite (open_fds k4)" using SetDestination_works [OF assms(1) k3 assms(5)] by blast
  obtain vs k5 where V: "SetDestination env (mav_address (mavlink c)) (mav_port (mavlink c)) (new_UdpSocket, k4) = (Ok (), vs, k5)"
    using SetDestination_works [OF assms(1) k4 mav] by blast
  have "\<exists>vs k'. open_sockets env c k2 = (Ok (), ms, fs, vs, k')"
    by (simp add: open_sockets_def B F V)
  then obtain vs k' where S: "open_sockets env c k2 = (Ok (), ms, fs, vs, k')" by blast
  have "\<exists>sub. new_GazeboStateSubscriber (gz_subscribe gz) (gazebo c) = Ok sub"
    using assms(2) by (auto simp: new_GazeboStateSubscriber_def gz_works_def Let_def split: option.split)
  moreover have "new_ActuatorPublisher (gz_advertise gz) (gazebo c) = Ok ()"
    using assms(2) by (simp add: new_ActuatorPublisher_def gz_works_def)
  ultimately show ?thesis
    using new_converter_valid [OF assms(4)] R O S by (auto simp: new_BridgeApp_def)
qed

section \<open>Properties\<close>


definition working_os :: os where
  "working_os = \<lparr>os_socket = (\<lambda>S. if finite S then Max (insert 2 S) + 1 else - 1), os_getfl = (\<lambda>_. 2), os_setfl = (\<lambda>_. 0),
     os_bind = (\<lambda>_ _. 0), os_pton = loopback_only, os_strerror = ''''\<rparr>"

lemma working_os_facts: "os_works working_os" "fresh_sockets working_os"
proof -
  have m: "2 \<le> Max (insert 2 S)" "\<And>x. x \<in> S \<Longrightarrow> x \<le> Max (insert 2 S)" if "finite S" for S :: "int set"
    by (rule Max_ge; use that in simp)+
  have "0 \<le> os_socket working_os S" if "finite S" for S
  proof -
    have "0 \<le> Max (insert 2 S) + 1" using m(1) [OF that] by linarith
    with that show ?thesis by (simp add: working_os_def)
  qed
  then show "os_works working_os" by (simp add: os_works_def) (simp add: working_os_def)
  have "os_socket working_os S \<notin> S" if "0 \<le> os_socket working_os S" for S
  proof
    assume s: "os_socket working_os S \<in> S"
    have f: "finite S" using that by (simp add: working_os_def split: if_splits)
    from m(2) [OF f s] f show False by (simp add: working_os_def)
  qed
  then show "fresh_sockets working_os" by (simp add: fresh_sockets_def)
qed

lemma default_proper: "proper_range (mot_minRotorVelocityRadS (motors default_config)) (mot_maxRotorVelocityRadS (motors default_config))"
  by (simp add: default_config_def default_motors_def zero_fp_def lit_def fp_eval proper_range_def)

definition sample_gz :: gz_env where
  "sample_gz = \<lparr>gz_subscribe = (\<lambda>_. True), gz_advertise = (\<lambda>_. True)\<rparr>"


text \<open>No constructor of a member leaks: when one throws, the process has no socket open, when none does it has
  open exactly the descriptors of the five sockets, each held once; nothing is closed twice and
  construction is never undefined.\<close>

lemma constructor_no_leak:
  assumes "fresh_sockets env"
  shows "case new_BridgeApp env gz now c \<lparr>open_fds = {}, bad_close = False\<rparr> of
      (Ok st, k') \<Rightarrow> \<not> bad_close k' \<and> open_fds k' = {d \<in> set (app_fds st). 0 \<le> d} \<and> distinct (filter (\<lambda>d. 0 \<le> d) (app_fds st))
    | (Throw e, k') \<Rightarrow> \<not> bad_close k' \<and> open_fds k' = {}
    | (Undefined, k') \<Rightarrow> False"
proof -
  have k: "owned_once (\<lambda>_. - 1) \<lparr>open_fds = {}, bad_close = False\<rparr>" by (auto simp: owned_once_def)
  obtain r k' where n: "new_BridgeApp env gz now c \<lparr>open_fds = {}, bad_close = False\<rparr> = (r, k')" by force
  note O = new_BridgeApp_owned [OF assms k n]
  show ?thesis
  proof (cases r)
    case (Ok st)
    with O have o: "owned_once (slots (app_fds st)) k'" by simp
    have "d \<in> open_fds k' \<longleftrightarrow> 0 \<le> d \<and> d \<in> set (app_fds st)" for d
      using owned_onceD(2) [OF o, of d] by (auto simp: slots_def in_set_conv_nth split: if_splits)
    moreover have "distinct (filter (\<lambda>d. 0 \<le> d) (app_fds st))"
      by (rule distinct_filter_slots [OF o])
    ultimately show ?thesis using owned_onceD(1) [OF o] by (auto simp: n Ok)
  qed (use O in \<open>auto simp: n owned_once_def\<close>)
qed

end
