(* ===== verification/MainCli.thy ===== *)
theory MainCli
  imports BridgeStart BridgeRun
begin

text \<open>
  \<^verbatim>\<open>src/main.cpp\<close>: the command line, the log level and \<^verbatim>\<open>main\<close> itself, which loads the configuration,
  constructs the \<^verbatim>\<open>BridgeApp\<close>, runs it and turns every exception into the exit code 1.
\<close>

section \<open>The command line\<close>

text \<open>What \<^verbatim>\<open>std::filesystem\<close> answers: \<^verbatim>\<open>canonical("/proc/self/exe")\<close>, \<^verbatim>\<open>absolute\<close>, which throws when the
  working directory is gone, \<^verbatim>\<open>parent_path\<close> and \<^verbatim>\<open>operator/\<close>.\<close>

record filesystem =
  fs_canonical_exe :: "string option"
  fs_absolute :: "string \<Rightarrow> string outcome"
  fs_parent_path :: "string \<Rightarrow> string"
  fs_append :: "string \<Rightarrow> string \<Rightarrow> string"

text \<open>\<open>argv0\<close> is \<^verbatim>\<open>None\<close> for the null pointer of an empty \<^verbatim>\<open>argv\<close>, which is no path.\<close>

definition ExecutableDirectory :: "filesystem \<Rightarrow> string option \<Rightarrow> string outcome" where
  "ExecutableDirectory fs argv0 = (case fs_canonical_exe fs of
       Some p \<Rightarrow> Ok (fs_parent_path fs p)
     | None \<Rightarrow> obind (defined argv0) (\<lambda>a. obind (fs_absolute fs a) (\<lambda>p. Ok (fs_parent_path fs p))))"

definition newline :: string where
  "newline = [CHR 0x0A]"

definition PrintUsage :: "string \<Rightarrow> string" where
  "PrintUsage program = ''Usage: '' @ program @ '' [--config path/to/bridge.yaml] [--version]'' @ newline"

text \<open>The result of the parser: a path, or text printed before \<^verbatim>\<open>std::exit(0)\<close>.  \<open>version\<close> is the line of the
  generated \<^verbatim>\<open>Version.hh\<close>.\<close>

datatype command_line = ConfigPath string | ExitZero string

fun parse_args :: "string \<Rightarrow> string \<Rightarrow> string list \<Rightarrow> string \<Rightarrow> command_line outcome" where
  "parse_args version program [] configPath = Ok (ConfigPath configPath)"
| "parse_args version program (arg # rest) configPath = (
     if arg = ''--help'' \<or> arg = ''-h'' then Ok (ExitZero (PrintUsage program))
     else if arg = ''--version'' then Ok (ExitZero (version @ newline))
     else if arg = ''--config'' then (case rest of
         [] \<Rightarrow> Throw ''--config requires a file path''
       | p # rest' \<Rightarrow> parse_args version program rest' p)
     else Throw (''Unknown argument: '' @ arg))"

definition ParseConfigPath :: "filesystem \<Rightarrow> string \<Rightarrow> string list \<Rightarrow> command_line outcome" where
  "ParseConfigPath fs version argv =
     obind (ExecutableDirectory fs (case argv of [] \<Rightarrow> None | a # _ \<Rightarrow> Some a)) (\<lambda>dir.
       parse_args version (case argv of [] \<Rightarrow> '''' | a # _ \<Rightarrow> a) (drop 1 argv) (fs_append fs dir ''bridge.yaml''))"

section \<open>Logging\<close>

datatype level = Level_trace | Level_debug | Level_info | Level_warn | Level_err | Level_critical | Level_off

text \<open>\<open>from_str\<close> is spdlog's, which answers \<^verbatim>\<open>off\<close> for a name it does not know.\<close>

definition ConfigureLogging :: "(string \<Rightarrow> level) \<Rightarrow> string \<Rightarrow> level" where
  "ConfigureLogging from_str level = (let parsed = from_str level in
     if parsed = Level_off \<and> level \<noteq> ''off'' then Level_info else parsed)"

section \<open>main\<close>

text \<open>What a process did: the text on its two streams, the log level set, what it sent, and its exit code.\<close>

record process =
  p_stdout :: string
  p_stderr :: string
  p_level :: "level option"
  p_sent :: "emission list"
  p_code :: int

text \<open>The \<^verbatim>\<open>catch\<close>: the message on \<^verbatim>\<open>stderr\<close> and the code 1.\<close>

definition caught :: "level option \<Rightarrow> emission list \<Rightarrow> string \<Rightarrow> process" where
  "caught lvl sent e = \<lparr>p_stdout = '''', p_stderr = ''bridge error: '' @ e @ newline, p_level = lvl, p_sent = sent, p_code = 1\<rparr>"

text \<open>The surroundings of the process: the clock at construction and what each iteration of the loop meets.\<close>

record 'n world =
  w_fs :: filesystem
  w_version :: string
  w_yaml :: "'n yaml"
  w_from_str :: "string \<Rightarrow> level"
  w_os :: os
  w_gz :: gz_env
  w_pow :: "double \<Rightarrow> double \<Rightarrow> double"
  w_start :: int
  w_iterations :: "iteration list"

text \<open>\<^verbatim>\<open>main\<close>; \<open>None\<close> when it does not return.\<close>

definition main_entry :: "'n world \<Rightarrow> string list \<Rightarrow> kernel \<Rightarrow> process outcome option" where
  "main_entry w argv k = (case ParseConfigPath (w_fs w) (w_version w) argv of
       Undefined \<Rightarrow> Some Undefined
     | Throw e \<Rightarrow> Some (Ok (caught None [] e))
     | Ok (ExitZero text) \<Rightarrow> Some (Ok \<lparr>p_stdout = text, p_stderr = '''', p_level = None, p_sent = [], p_code = 0\<rparr>)
     | Ok (ConfigPath path) \<Rightarrow> (case Load (w_yaml w) (os_pton (w_os w)) path of
         Undefined \<Rightarrow> Some Undefined
       | Throw e \<Rightarrow> Some (Ok (caught None [] e))
       | Ok c \<Rightarrow> (let lvl = Some (ConfigureLogging (w_from_str w) (log_level (logging c))) in
           (case new_BridgeApp (w_os w) (w_gz w) (w_start w) c k of
             (Undefined, _) \<Rightarrow> Some Undefined
           | (Throw e, _) \<Rightarrow> Some (Ok (caught lvl [] e))
           | (Ok app, _) \<Rightarrow> (case Run (w_os w) (w_pow w) (w_iterations w) app of
               None \<Rightarrow> None
             | Some (out, Undefined, _) \<Rightarrow> Some Undefined
             | Some (out, Throw e, _) \<Rightarrow> Some (Ok (caught lvl out e))
             | Some (out, Ok code, _) \<Rightarrow>
                 Some (Ok \<lparr>p_stdout = '''', p_stderr = '''', p_level = lvl, p_sent = out, p_code = code\<rparr>))))))"

section \<open>Lemmas\<close>

text \<open>A sequence of \<^verbatim>\<open>--config p\<close> pairs.\<close>

definition config_args :: "string list \<Rightarrow> string list" where
  "config_args ps = concat (map (\<lambda>p. [''--config'', p]) ps)"

lemma config_args_simps [simp]: "config_args [] = []" "config_args (p # ps) = ''--config'' # p # config_args ps"
  by (simp_all add: config_args_def)

text \<open>Every argument list is a sequence of such pairs and a rest that does not start with another.\<close>

lemma config_args_split: "\<exists>ps rest. args = config_args ps @ rest \<and> (\<forall>p r. rest \<noteq> ''--config'' # p # r)"
proof (induction args rule: induct_list012)
  case 1
  show ?case by (rule exI [of _ "[]"]) simp
next
  case (2 a)
  show ?case by (rule exI [of _ "[]"]) simp
next
  case (3 a b args)
  show ?case
  proof (cases "a = ''--config''")
    case True
    from 3(1) obtain ps rest where "args = config_args ps @ rest" "\<forall>p r. rest \<noteq> ''--config'' # p # r" by blast
    with True show ?thesis by (intro exI [of _ "b # ps"] exI [of _ rest]) simp
  next
    case False
    then show ?thesis by (intro exI [of _ "[]"] exI [of _ "a # b # args"]) simp
  qed
qed

lemma parse_config_args: "parse_args version program (config_args ps @ rest) d = parse_args version program rest (last (d # ps))"
  by (induction ps arbitrary: d) simp_all

lemma parse_args_no_ub [no_ub]: "parse_args version program args d \<noteq> Undefined"
  by (induction version program args d rule: parse_args.induct) (auto split: list.splits)

text \<open>Nothing is sent by a process that fails before the loop, and its code is 1.\<close>

lemma main_load_error:
  assumes "ParseConfigPath (w_fs w) (w_version w) argv = Ok (ConfigPath path)" "Load (w_yaml w) (os_pton (w_os w)) path = Throw e"
  shows "main_entry w argv k = Some (Ok (caught None [] e))"
  using assms by (simp add: main_entry_def)

lemma main_run:
  assumes "ParseConfigPath (w_fs w) (w_version w) argv = Ok (ConfigPath path)" "Load (w_yaml w) (os_pton (w_os w)) path = Ok c"
    and "new_BridgeApp (w_os w) (w_gz w) (w_start w) c k = (Ok app, k')"
    and "Run (w_os w) (w_pow w) (w_iterations w) app = Some (out, r, app')" "r \<noteq> Undefined"
  shows "\<exists>p. main_entry w argv k = Some (Ok p) \<and> p_sent p = out \<and>
    p_level p = Some (ConfigureLogging (w_from_str w) (log_level (logging c))) \<and>
    (case r of Ok code \<Rightarrow> p_code p = code | Throw e \<Rightarrow> p_code p = 1 \<and> p_stderr p = ''bridge error: '' @ e @ newline | Undefined \<Rightarrow> False)"
  using assms by (cases r) (simp_all add: main_entry_def caught_def)

section \<open>Properties\<close>

text \<open>C34: every command line is a sequence of \<^verbatim>\<open>--config p\<close> pairs and a rest that starts with no such pair.  The
  last pair wins, without one the path is \<^verbatim>\<open>bridge.yaml\<close> beside the executable; help and version exit with
  code 0 whatever follows them; a dangling \<^verbatim>\<open>--config\<close> and an unknown argument end \<^verbatim>\<open>main\<close> with code 1 before
  anything is sent.\<close>

theorem command_line_contract:
  assumes "fs_canonical_exe (w_fs w) = Some exe"
  shows "(\<forall>args. \<exists>ps rest. args = config_args ps @ rest \<and> (\<forall>p r. rest \<noteq> ''--config'' # p # r)) \<and>
    (\<forall>ps. ParseConfigPath (w_fs w) (w_version w) (program # config_args ps) =
       Ok (ConfigPath (last (fs_append (w_fs w) (fs_parent_path (w_fs w) exe) ''bridge.yaml'' # ps)))) \<and>
    (\<forall>ps a x. (\<forall>p r. a # x \<noteq> ''--config'' # p # r) \<longrightarrow>
       (\<exists>p. main_entry w (program # config_args ps @ a # x) k = Some (Ok p) \<and> p_sent p = [] \<and> p_level p = None \<and>
         (if a \<in> {''--help'', ''-h''} then p_code p = 0 \<and> p_stdout p = PrintUsage program
          else if a = ''--version'' then p_code p = 0 \<and> p_stdout p = w_version w @ newline
          else p_code p = 1 \<and> p_stderr p = ''bridge error: '' @
            (if a = ''--config'' then ''--config requires a file path'' else ''Unknown argument: '' @ a) @ newline)))"
proof (intro conjI allI impI)
  let ?d = "fs_append (w_fs w) (fs_parent_path (w_fs w) exe) ''bridge.yaml''"
  have P: "ParseConfigPath (w_fs w) (w_version w) (program # config_args ps @ rest) = parse_args (w_version w) program rest (last (?d # ps))" for ps rest
    by (simp add: ParseConfigPath_def ExecutableDirectory_def assms parse_config_args del: last.simps)
  show "\<exists>ps rest. args = config_args ps @ rest \<and> (\<forall>p r. rest \<noteq> ''--config'' # p # r)" for args
    by (rule config_args_split)
  show "ParseConfigPath (w_fs w) (w_version w) (program # config_args ps) = Ok (ConfigPath (last (?d # ps)))" for ps
    using P [of ps "[]"] by (simp del: last.simps)
  show "\<exists>p. main_entry w (program # config_args ps @ a # x) k = Some (Ok p) \<and> p_sent p = [] \<and> p_level p = None \<and>
         (if a \<in> {''--help'', ''-h''} then p_code p = 0 \<and> p_stdout p = PrintUsage program
          else if a = ''--version'' then p_code p = 0 \<and> p_stdout p = w_version w @ newline
          else p_code p = 1 \<and> p_stderr p = ''bridge error: '' @
            (if a = ''--config'' then ''--config requires a file path'' else ''Unknown argument: '' @ a) @ newline)"
    if "\<forall>p r. a # x \<noteq> ''--config'' # p # r" for ps a x
  proof -
    from that have "a = ''--config'' \<Longrightarrow> x = []" by (cases x) auto
    then show ?thesis by (auto simp: main_entry_def P caught_def simp del: last.simps)
  qed
qed

definition sample_fs :: filesystem where
  "sample_fs = \<lparr>fs_canonical_exe = Some ''/opt/bridge'', fs_absolute = Ok, fs_parent_path = (\<lambda>_. ''/opt''),
     fs_append = (\<lambda>d f. d @ ''/'' @ f)\<rparr>"

definition sample_world :: "ynode world" where
  "sample_world = \<lparr>w_fs = sample_fs, w_version = ''betaflight_gazebo_bridge 0.1.0'', w_yaml = tree_yaml bridge_yaml,
     w_from_str = (\<lambda>_. Level_info), w_os = working_os, w_gz = sample_gz, w_pow = (\<lambda>b _. b), w_start = 0, w_iterations = []\<rparr>"

theorem command_line_contract_witness:
  "ParseConfigPath sample_fs ''betaflight_gazebo_bridge 0.1.0'' [''bridge'', ''--config'', ''a.yaml'', ''--config'', ''b.yaml''] =
     Ok (ConfigPath ''b.yaml'') \<and>
   (\<exists>p. main_entry sample_world [''bridge'', ''--config'', ''a.yaml'', ''-x''] \<lparr>open_fds = {}, bad_close = False\<rparr> = Some (Ok p) \<and>
     p_code p = 1 \<and> p_stderr p = ''bridge error: Unknown argument: -x'' @ newline)"
proof -
  have "fs_canonical_exe (w_fs sample_world) = Some ''/opt/bridge''" by (simp add: sample_world_def sample_fs_def)
  note c = command_line_contract [OF this, of "''bridge''" "\<lparr>open_fds = {}, bad_close = False\<rparr>", THEN conjunct2]
  have "ParseConfigPath (w_fs sample_world) (w_version sample_world) [''bridge'', ''--config'', ''a.yaml'', ''--config'', ''b.yaml''] =
      Ok (ConfigPath ''b.yaml'')"
    using c [THEN conjunct1, rule_format, of "[''a.yaml'', ''b.yaml'']"] by simp
  moreover have "\<exists>p. main_entry sample_world [''bridge'', ''--config'', ''a.yaml'', ''-x''] \<lparr>open_fds = {}, bad_close = False\<rparr> = Some (Ok p) \<and>
     p_code p = 1 \<and> p_stderr p = ''bridge error: Unknown argument: -x'' @ newline"
    using c [THEN conjunct2, rule_format, of "''-x''" "[]" "[''a.yaml'']"] by auto
  ultimately show ?thesis by (simp add: sample_world_def)
qed

end
