(* ===== verification/MotorPath.thy ===== *)
theory MotorPath
  imports BridgeStart
begin

text \<open>
  The motor path of the bridge as one small machine: what reaches the actuators in a run, as a function of
  the datagrams and the clock alone, and that \<open>Run\<close> with all its handlers and callbacks refines it.
\<close>

section \<open>The abstract machine\<close>

text \<open>Its state is the last valid packet: the command in Betaflight's order and the time of arrival.\<close>

type_synonym pilot = "(double arr4 \<times> int) option"

definition pilot_receive :: "(u8 list \<times> int) list \<Rightarrow> pilot \<Rightarrow> pilot" where
  "pilot_receive ds p = (case filter (\<lambda>d. valid_datagram (fst d)) ds of
       [] \<Rightarrow> p
     | vs \<Rightarrow> Some (received_command (fst (last vs)), snd (last vs)))"

definition pilot_command :: "double \<Rightarrow> int \<Rightarrow> pilot \<Rightarrow> double arr4" where
  "pilot_command timeout now p = (case p of
       None \<Rightarrow> ZeroMotors
     | Some (c, t) \<Rightarrow> if seconds (now - t) \<le> timeout then c else ZeroMotors)"

text \<open>Actuator \<open>i\<close> turns with the velocity of the motor that the map names for it.\<close>

definition pilot_velocities :: "MotorConfig \<Rightarrow> double arr4 \<Rightarrow> double list" where
  "pilot_velocities mc c = map (\<lambda>i. velocity (mot_minRotorVelocityRadS mc) (mot_maxRotorVelocityRadS mc) (arr4_list c ! nat i))
     (arr4_list (mot_map mc))"

text \<open>One list of velocities per iteration; an iteration is its waiting datagrams and the clock of its
  publisher.\<close>

fun pilot_run :: "MotorConfig \<Rightarrow> ((u8 list \<times> int) list \<times> int) list \<Rightarrow> pilot \<Rightarrow> double list list" where
  "pilot_run mc [] p = []"
| "pilot_run mc ((ds, now) # its) p = (let p' = pilot_receive ds p in
     pilot_velocities mc (pilot_command (mot_timeoutSeconds mc) now p') # pilot_run mc its p')"

section \<open>The projection\<close>

definition pilot_of :: "BridgeApp \<Rightarrow> pilot" where
  "pilot_of st = (if hasMotorPacket st then Some (lastMotorCommand st, lastMotorPacketTime st) else None)"

text \<open>The part of the state the motor path reads.\<close>

definition motor_view :: "BridgeApp \<Rightarrow> pilot \<times> BridgeConfig" where
  "motor_view st = (pilot_of st, app_config st)"

definition actuators :: "emission list \<Rightarrow> double list list" where
  "actuators out = concat (map (\<lambda>em. case em of ActuatorMsg a \<Rightarrow> [act_velocity a] | _ \<Rightarrow> []) out)"

lemma actuators_simps [simp]:
  "actuators [] = []"
  "actuators (xs @ ys) = actuators xs @ actuators ys"
  "actuators (ActuatorMsg a # ys) = act_velocity a # actuators ys"
  by (simp_all add: actuators_def)

definition is_actuator :: "emission \<Rightarrow> bool" where
  "is_actuator em = (case em of ActuatorMsg a \<Rightarrow> True | _ \<Rightarrow> False)"

lemma actuators_none: "list_all (\<lambda>em. \<not> is_actuator em) out \<Longrightarrow> actuators out = []"
  by (induction out) (auto simp: actuators_def is_actuator_def split: emission.splits)

lemma view_updates [simp]:
  "motor_view (st\<lparr>motorTimedOut := b\<rparr>) = motor_view st"
  "motor_view (st\<lparr>lastStatusLogTime := t\<rparr>) = motor_view st"
  "motor_view (st\<lparr>app_odometry := om\<rparr>) = motor_view st"
  "motor_view (st\<lparr>app_rangefinders := rm, app_kernel := k\<rparr>) = motor_view st"
  "motor_view (st\<lparr>lastFdmSendTime := t, fdmPackets := n, loggedFirstFdm := b\<rparr>) = motor_view st"
  "motor_view (st\<lparr>lastMavlinkHeartbeatTime := t\<rparr>) = motor_view st"
  by (simp_all add: motor_view_def pilot_of_def)

lemma callback_view [simp]: "motor_view (run_callback c st) = motor_view st"
  by (cases c) (simp_all add: motor_view_def pilot_of_def Let_def)

lemma motor_input_view: "motor_view (motor_input ds st) = (pilot_receive ds (pilot_of st), app_config st)"
  by (cases "filter (\<lambda>d. valid_datagram (fst d)) ds")
    (simp_all add: motor_input_def motor_view_def pilot_of_def pilot_receive_def Let_def)

interpretation view_loop: main_loop "\<lambda>st. motor_view st = v" "\<lambda>_. True"
  by unfold_locales simp

section \<open>The other handlers leave the motor path alone\<close>

abbreviation aside :: "pilot \<times> BridgeConfig \<Rightarrow> handler \<Rightarrow> bool" where
  "aside v \<equiv> obeys (\<lambda>st. motor_view st = v) (\<lambda>em. \<not> is_actuator em) (\<lambda>_. True)"

lemma asideI:
  assumes "\<And>st r st'. h st = (r, st') \<Longrightarrow> motor_view st' = motor_view st"
    and "\<And>st st' out em. h st = (Ok out, st') \<Longrightarrow> em \<in> set out \<Longrightarrow> \<not> is_actuator em"
  shows "aside v (emits h)"
proof (rule obeys_emits, unfold sender_obeys_def, intro allI impI)
  fix st r st'
  assume "motor_view st = v" "h st = (r, st')"
  with assms(1) [of st r st'] assms(2) [of st _ st']
  show "motor_view st' = v \<and> (case r of Ok out \<Rightarrow> list_all (\<lambda>em. \<not> is_actuator em) out | Throw e \<Rightarrow> True | Undefined \<Rightarrow> True)"
    by (cases r) (auto simp: list_all_iff)
qed

lemma aside_handlers: "list_all (aside v) (tl (handlers env pow it))"
proof -
  have fdm: "aside v (emits (SendFdmIfNeeded env pow sendto now now'))" for sendto now now'
  proof (rule asideI)
    show "motor_view st' = motor_view st" if "SendFdmIfNeeded env pow sendto now now' st = (r, st')" for st r st'
      using SendFdm_shape [OF that] by auto
    show "\<not> is_actuator em" if "SendFdmIfNeeded env pow sendto now now' st = (Ok out, st')" "em \<in> set out" for st st' out em
      using SendFdm_shape [OF that(1)] that(2) by (auto simp: is_actuator_def)
  qed
  have beat: "aside v (emits (SendMavlinkHeartbeatIfNeeded env message sendto now))" for message sendto now
  proof (rule asideI)
    show "motor_view st' = motor_view st" if "SendMavlinkHeartbeatIfNeeded env message sendto now st = (r, st')" for st r st'
      using Heartbeat_shape [OF that] by auto
    show "\<not> is_actuator em" if "SendMavlinkHeartbeatIfNeeded env message sendto now st = (Ok out, st')" "em \<in> set out" for st st' out em
      using Heartbeat_shape [OF that(1)] that(2) by (auto simp: is_actuator_def)
  qed
  have range: "aside v (UpdateRangefinders it)"
    unfolding obeys_def
  proof (intro allI impI)
    fix st out r st' assume v: "motor_view st = v" and h: "UpdateRangefinders it st = (out, r, st')"
    have "motor_view st' = motor_view st" using h by (auto simp: UpdateRangefinders_def split: prod.splits)
    moreover have "list_all (\<lambda>em. \<not> is_actuator em) out"
      using Rangefinders_shape(2) [OF h] by (auto simp: is_actuator_def list_all_iff)
    ultimately show "motor_view st' = v \<and> list_all (\<lambda>em. \<not> is_actuator em) out \<and> (r = Ok () \<or> True)" using v by simp
  qed
  have odom: "aside v (emits (UpdateOdometry it))"
  proof (rule asideI)
    show "motor_view st' = motor_view st" if "UpdateOdometry it st = (r, st')" for st r st'
      using that by (auto simp: UpdateOdometry_def split: prod.splits)
    show "\<not> is_actuator em" if "UpdateOdometry it st = (Ok out, st')" "em \<in> set out" for st st' out em
      using Odometry_shape(2) [OF that(1) refl] that(2) by (auto simp: is_actuator_def)
  qed
  have log: "aside v (emits (LogStatusIfNeeded now))" for now
  proof (rule asideI)
    show "motor_view st' = motor_view st" if "LogStatusIfNeeded now st = (r, st')" for st r st'
      using that by (auto simp: LogStatusIfNeeded_def Let_def split: if_splits)
    show "\<not> is_actuator em" if "LogStatusIfNeeded now st = (Ok out, st')" "em \<in> set out" for st st' out em
      using Log_shape(2) [OF that(1) refl] that(2) by (auto simp: is_actuator_def)
  qed
  show ?thesis by (simp add: handlers_def fdm beat range odom log)
qed

section \<open>One iteration\<close>

text \<open>The datagrams an iteration finds: those before the first \<^verbatim>\<open>recvfrom\<close> that reports an empty queue.\<close>

definition finds :: "iteration \<Rightarrow> (u8 list \<times> int) list \<times> int \<Rightarrow> bool" where
  "finds it x \<longleftrightarrow> snd x = it_publish_now it \<and> (\<exists>n e. (\<forall>i < n. \<not> failing (fst (it_recv it i))) \<and>
     fst (it_recv it n) = Failed e \<and> (e = EAGAIN \<or> e = EWOULDBLOCK) \<and> fst x = waiting (it_recv it) n)"

lemma Apply_nth:
  assumes "Apply m c = Ok w"
  shows "arr4_list w = map (\<lambda>i. arr4_list c ! nat i) (arr4_list m)"
proof -
  have "defined (arr4_at c i) = Ok x \<Longrightarrow> x = arr4_list c ! nat i" for i x
    by (auto simp: arr4_at_def split: if_splits)
  with assms show ?thesis by (cases m) (auto simp: Apply_def obind_eq_Ok)
qed

text \<open>The state of a run: ready, and with the converter of its configuration.\<close>

definition pilot_ready :: "BridgeApp \<Rightarrow> bool" where
  "pilot_ready st \<longleftrightarrow> app_ready st \<and> velocityConverter st =
     \<lparr>minVelocityRadS = mot_minRotorVelocityRadS (motors (app_config st)), maxVelocityRadS = mot_maxRotorVelocityRadS (motors (app_config st))\<rparr>"

lemma Publish_pilot:
  assumes "pilot_ready st"
  shows "\<exists>b a. PublishMotorCommandIfNeeded now st = (Ok [ActuatorMsg a], st\<lparr>motorTimedOut := b\<rparr>) \<and>
    act_velocity a = pilot_velocities (motors (app_config st)) (pilot_command (mot_timeoutSeconds (motors (app_config st))) now (pilot_of st))"
proof -
  let ?m = "motors (app_config st)"
  have m: "motors_ready st" and cv: "app_velocity st = velocity (mot_minRotorVelocityRadS ?m) (mot_maxRotorVelocityRadS ?m)"
    using assms by (simp_all add: pilot_ready_def app_ready_def)
  let ?c = "if current_command now st then lastMotorCommand st else ZeroMotors"
  obtain w where w: "Apply (mot_map ?m) ?c = Ok w"
    and p: "PublishMotorCommandIfNeeded now st = (Ok [ActuatorMsg (Publish (map_arr4 (app_velocity st) w))],
      st\<lparr>motorTimedOut := motorTimedOut st \<or> hasMotorPacket st \<and> \<not> current_command now st\<rparr>)"
    using Publish_ready [OF m, of now] by blast
  have c: "?c = pilot_command (mot_timeoutSeconds ?m) now (pilot_of st)"
    by (simp add: pilot_command_def pilot_of_def current_command_def)
  have "act_velocity (Publish (map_arr4 (app_velocity st) w)) = pilot_velocities ?m ?c"
    using Apply_nth [OF w] by (simp add: Publish_def pilot_velocities_def cv)
  with p show ?thesis unfolding c by blast
qed

lemma run_handlers_pilot:
  assumes "pilot_ready (fold run_callback (cb i) st)" "run_handlers cb i (handlers env pow it) st = (out, r, st')"
  shows "motor_view st' = motor_view st \<and> actuators out =
    [pilot_velocities (motors (app_config st)) (pilot_command (mot_timeoutSeconds (motors (app_config st))) (it_publish_now it) (pilot_of st))]"
proof -
  let ?st = "fold run_callback (cb i) st"
  have v: "motor_view ?st = motor_view st" by (rule view_loop.callbacks_keep) (simp_all add: list_all_iff)
  then have "app_config ?st = app_config st" "pilot_of ?st = pilot_of st" by (simp_all add: motor_view_def)
  with Publish_pilot [OF assms(1), of "it_publish_now it"] obtain b a where
    p: "PublishMotorCommandIfNeeded (it_publish_now it) ?st = (Ok [ActuatorMsg a], ?st\<lparr>motorTimedOut := b\<rparr>)"
    and a: "act_velocity a = pilot_velocities (motors (app_config st))
      (pilot_command (mot_timeoutSeconds (motors (app_config st))) (it_publish_now it) (pilot_of st))" by auto
  obtain hs where h: "handlers env pow it = emits (PublishMotorCommandIfNeeded (it_publish_now it)) # hs" "hs = tl (handlers env pow it)"
    by (simp add: handlers_def)
  obtain outs r2 st2 where rest: "run_handlers cb (Suc i) hs (?st\<lparr>motorTimedOut := b\<rparr>) = (outs, r2, st2)" by (metis prod.collapse)
  have "motor_view st2 = motor_view st \<and> list_all (\<lambda>em. \<not> is_actuator em) outs"
    using view_loop.run_handlers_obey [where v = "motor_view st" and E = "\<lambda>_. True" and Q = "\<lambda>em. \<not> is_actuator em", OF _ _ _ rest]
      aside_handlers [of "motor_view st" env pow it] v h(2) by (simp add: list_all_iff)
  with assms(2) h(1) p rest a show ?thesis by (auto simp: actuators_none emits_def)
qed

lemma run_iteration_pilot:
  assumes "pilot_ready st" "sane_iteration it" "finds it x" "run_iteration env pow it st = Some (out, r, st')"
  shows "pilot_ready st'" and "motor_view st' = (pilot_receive (fst x) (pilot_of st), app_config st)"
    and "actuators out = [pilot_velocities (motors (app_config st))
      (pilot_command (mot_timeoutSeconds (motors (app_config st))) (snd x) (pilot_receive (fst x) (pilot_of st)))]"
proof -
  let ?st = "fold run_callback (it_callbacks it 0) st" and ?cv = "velocityConverter st"
  have cb: "list_all sane_callback (it_callbacks it j)" for j using assms(2) by (simp add: sane_iteration_def)
  have r: "ready_with ?cv st" using assms(1) by (simp add: pilot_ready_def)
  have s: "ready_with ?cv ?st" using safe_loop.callbacks_keep [OF r cb] .
  have v: "motor_view ?st = motor_view st" by (rule view_loop.callbacks_keep) (simp_all add: list_all_iff)
  obtain n e where x: "fst x = waiting (it_recv it) n" "snd x = it_publish_now it"
    and n: "\<And>i. i < n \<Longrightarrow> \<not> failing (fst (it_recv it i))" "fst (it_recv it n) = Failed e" "e = EAGAIN \<or> e = EWOULDBLOCK"
    using assms(3) by (auto simp: finds_def)
  let ?in = "motor_input (fst x) ?st"
  have "0 \<le> fd (motorSocket ?st)" using s by (simp add: app_ready_def)
  from receive_up_to [where rs = "it_recv it" and env = env, OF this n(1,2)] n(3)
  have "ReceiveMotorPackets env (it_recv it) ?st = Some (Ok (), ?in)" by (simp add: x)
  then have h: "run_handlers (it_callbacks it) 1 (handlers env pow it) ?in = (out, r, st')"
    using assms(4) by (simp add: run_iteration_def)
  have iv: "motor_view ?in = (pilot_receive (fst x) (pilot_of st), app_config st)"
    using v by (simp add: motor_input_view) (simp add: motor_view_def)
  have "ready_with ?cv ?in" using s motor_input_app_ready by simp
  then have "ready_with ?cv (fold run_callback (it_callbacks it 1) ?in)" by (rule safe_loop.callbacks_keep [OF _ cb])
  moreover have "motor_view (fold run_callback (it_callbacks it 1) ?in) = motor_view ?in"
    by (rule view_loop.callbacks_keep) (simp_all add: list_all_iff)
  ultimately have "pilot_ready (fold run_callback (it_callbacks it 1) ?in)"
    using assms(1) iv by (simp add: pilot_ready_def motor_view_def)
  from run_handlers_pilot [OF this h] iv x(2)
  show "motor_view st' = (pilot_receive (fst x) (pilot_of st), app_config st)"
    and "actuators out = [pilot_velocities (motors (app_config st))
      (pilot_command (mot_timeoutSeconds (motors (app_config st))) (snd x) (pilot_receive (fst x) (pilot_of st)))]"
    by (simp_all add: motor_view_def)
  then show "pilot_ready st'"
    using run_iteration_ready [OF r assms(2,4)] assms(1) by (simp add: pilot_ready_def motor_view_def)
qed

text \<open>The message of an iteration is the next one of the machine.\<close>

lemma run_iteration_head:
  assumes "pilot_ready st" "sane_iteration it" "finds it x" "run_iteration env pow it st = Some (out, r, st')"
  shows "pilot_run (motors (app_config st)) (x # ys) (pilot_of st) = actuators out @ pilot_run (motors (app_config st')) ys (pilot_of st')"
    and "length (actuators out) = 1"
proof -
  note I = run_iteration_pilot [OF assms]
  from I(2) have v: "pilot_of st' = pilot_receive (fst x) (pilot_of st)" "app_config st' = app_config st"
    by (simp_all add: motor_view_def)
  obtain ds now where "x = (ds, now)" by force
  then show "pilot_run (motors (app_config st)) (x # ys) (pilot_of st) = actuators out @ pilot_run (motors (app_config st')) ys (pilot_of st')"
    by (simp only: pilot_run.simps Let_def I(3) v fst_conv snd_conv append.simps)
  show "length (actuators out) = 1" by (simp only: I(3) list.size)
qed

section \<open>Properties\<close>

text \<open>C4: a run refines the abstract motor machine: whatever sensors, rangefinders, odometry, MAVLink, logging and the
  callbacks do, what reaches the actuators is one message per iteration, computed from the waiting datagrams
  and the clock alone, and the zero command at the normal end; a run that ends with an error has published
  a prefix of that.\<close>

theorem run_refines_pilot:
  assumes "pilot_ready st" "list_all sane_iteration its" "list_all2 finds its xs" "Run env pow its st = Some (out, r, st')"
  shows "(r = Ok 0 \<longrightarrow> actuators out = pilot_run (motors (app_config st)) xs (pilot_of st) @ [[0, 0, 0, 0]]) \<and>
    (\<forall>e. r = Throw e \<longrightarrow> (\<exists>n > 0. actuators out = take n (pilot_run (motors (app_config st)) xs (pilot_of st))))"
  using assms
proof (induction its arbitrary: xs st out)
  case Nil
  then show ?case by (auto simp: Publish_def ZeroMotors_def)
next
  case (Cons it its)
  from Cons.prems(3) obtain x ys where xs: "xs = x # ys" and x: "finds it x" and ys: "list_all2 finds its ys"
    by (auto simp: list_all2_Cons1)
  obtain out1 r1 st1 where it: "run_iteration env pow it st = Some (out1, r1, st1)"
    using Cons.prems(4) by (auto split: option.splits)
  have sane: "sane_iteration it" "list_all sane_iteration its" using Cons.prems(2) by simp_all
  note ready = run_iteration_pilot(1) [OF Cons.prems(1) sane(1) x it]
  note step = run_iteration_head(1) [OF Cons.prems(1) sane(1) x it, of ys, folded xs]
    and one = run_iteration_head(2) [OF Cons.prems(1) sane(1) x it]
  show ?case
  proof (cases r1)
    case (Ok u)
    then obtain outs where rest: "Run env pow its st1 = Some (outs, r, st')" "out = out1 @ outs"
      using Cons.prems(4) it by (auto split: option.splits)
    note IH = Cons.IH [OF ready sane(2) ys rest(1)]
    have "\<exists>n > 0. actuators out = take n (pilot_run (motors (app_config st)) xs (pilot_of st))" if e: "r = Throw e" for e
    proof -
      from IH e obtain n where "actuators outs = take n (pilot_run (motors (app_config st1)) ys (pilot_of st1))" by blast
      then have "actuators out = take (Suc n) (pilot_run (motors (app_config st)) xs (pilot_of st))"
        using one by (simp add: rest(2) step)
      then show ?thesis by blast
    qed
    with IH show ?thesis by (simp add: rest(2) step)
  next
    case (Throw e)
    then have "r = Throw e" "out = out1" using Cons.prems(4) it by auto
    moreover have "actuators out1 = take 1 (pilot_run (motors (app_config st)) xs (pilot_of st))" using one by (simp add: step)
    ultimately show ?thesis by (auto intro: exI [of _ 1])
  next
    case Undefined
    then have "r = Undefined" using Cons.prems(4) it by auto
    then show ?thesis by simp
  qed
qed

text \<open>An iteration that finds one servo packet, from the state the constructor leaves.\<close>

definition packet_iteration :: iteration where
  "packet_iteration = sample_iteration\<lparr>it_recv := (\<lambda>i. (if i = 0 then Received (ServoPacket_bytes \<lparr>motorSpeed = Arr4 (Fin 1) 0 0 0\<rparr>)
     else Failed EAGAIN, 0))\<rparr>"

lemma packet_iteration_facts:
  "sane_iteration packet_iteration" "failing (fst (it_recv packet_iteration 1))"
  "finds packet_iteration ([(ServoPacket_bytes \<lparr>motorSpeed = Arr4 (Fin 1) 0 0 0\<rparr>, 0)], 0)"
proof -
  show "sane_iteration packet_iteration" "failing (fst (it_recv packet_iteration 1))"
    using sample_ready(2) by (simp_all add: packet_iteration_def sane_iteration_def failing_def)
  show "finds packet_iteration ([(ServoPacket_bytes \<lparr>motorSpeed = Arr4 (Fin 1) 0 0 0\<rparr>, 0)], 0)"
    unfolding finds_def
    by (intro conjI exI [of _ 1] exI [of _ EAGAIN])
      (simp_all add: packet_iteration_def waiting_def failing_def sample_iteration_def)
qed

lemma default_ready:
  "\<exists>st k'. new_BridgeApp working_os sample_gz 0 default_config \<lparr>open_fds = {}, bad_close = False\<rparr> = (Ok st, k') \<and>
     pilot_ready st \<and> app_config st = default_config \<and> pilot_of st = None"
proof -
  have v: "valid_config (os_pton working_os) default_config"
    using default_config_valid [of loopback_only] by (simp add: working_os_def loopback_only_def)
  have "\<exists>st k'. new_BridgeApp working_os sample_gz 0 default_config \<lparr>open_fds = {}, bad_close = False\<rparr> = (Ok st, k')"
    by (rule construction_works [OF working_os_facts(1) _ _ v])
      (simp_all add: gz_works_def sample_gz_def working_os_def default_config_def default_sitl_def loopback_only_def)
  then obtain st k' where n: "new_BridgeApp working_os sample_gz 0 default_config \<lparr>open_fds = {}, bad_close = False\<rparr> = (Ok st, k')" by blast
  note R = construction_ready [OF v default_proper n]
  have "pilot_ready st \<and> app_config st = default_config \<and> pilot_of st = None"
    using R by (simp add: pilot_ready_def pilot_of_def)
  with n show ?thesis by blast
qed

theorem run_refines_pilot_witness:
  "\<exists>st out r st'. Run working_os (\<lambda>b _. b) [packet_iteration] st = Some (out, r, st') \<and>
     (r = Ok 0 \<longrightarrow> length (actuators out) = 2 \<and> hd (actuators out) = pilot_velocities default_motors
       (pilot_command (mot_timeoutSeconds default_motors) 0
         (pilot_receive [(ServoPacket_bytes \<lparr>motorSpeed = Arr4 (Fin 1) 0 0 0\<rparr>, 0)] None)))"
proof -
  obtain st where s: "pilot_ready st" "app_config st = default_config" "pilot_of st = None" using default_ready by blast
  have sane: "list_all sane_iteration [packet_iteration]" using packet_iteration_facts(1) by simp
  have "Run working_os (\<lambda>b _. b) [packet_iteration] st \<noteq> None"
    by (rule Run_returns [where cv = "velocityConverter st"])
      (use s(1) packet_iteration_facts in \<open>auto simp: pilot_ready_def\<close>)
  then obtain out r st' where R: "Run working_os (\<lambda>b _. b) [packet_iteration] st = Some (out, r, st')"
    by (metis option.exhaust prod_cases3)
  have m: "motors (app_config st) = default_motors" by (simp add: s default_config_def)
  from run_refines_pilot [OF s(1) sane _ R, of "[([(ServoPacket_bytes \<lparr>motorSpeed = Arr4 (Fin 1) 0 0 0\<rparr>, 0)], 0)]"]
    packet_iteration_facts(3)
  have "r = Ok 0 \<longrightarrow> length (actuators out) = 2 \<and> hd (actuators out) = pilot_velocities default_motors
       (pilot_command (mot_timeoutSeconds default_motors) 0
         (pilot_receive [(ServoPacket_bytes \<lparr>motorSpeed = Arr4 (Fin 1) 0 0 0\<rparr>, 0)] None))"
    by (simp add: m s(3) Let_def)
  with R show ?thesis by blast
qed

end
