(* ===== verification/BridgeLife.thy ===== *)
theory BridgeLife
  imports MotorPath
begin

text \<open>
  The descriptors of a \<^verbatim>\<open>BridgeApp\<close> over its whole life: construction, a run of any length with any result, and
  destruction.  The five UDP sockets and the TCP socket of every rangefinder are slots of one table, and
  \<open>owned_once\<close> holds of the table and the kernel at every moment.
\<close>

section \<open>The table of descriptors\<close>

definition tcp_fds :: "BridgeApp \<Rightarrow> int list" where
  "tcp_fds st = map tcp (rm_mappings (app_rangefinders st))"

definition app_owned :: "BridgeApp \<Rightarrow> bool" where
  "app_owned st \<longleftrightarrow> owned_once (slots (app_fds st @ tcp_fds st)) (app_kernel st) \<and>
     list_all tcp_good (rm_mappings (app_rangefinders st))"

lemma slots_self: "a < length ds \<Longrightarrow> ds ! a = d \<Longrightarrow> (slots ds)(a := d) = slots ds"
  by (auto simp: slots_def)

lemma slots_closed: "(\<And>d. d \<in> set ds \<Longrightarrow> d = - 1) \<Longrightarrow> slots ds = (\<lambda>_. - 1)"
  by (rule ext) (auto simp: slots_def)

text \<open>An operation of the owner in slot \<open>length xs\<close>.\<close>

lemma slot_step:
  assumes "disciplined good fd_of f" "good x" "owned_once (slots (xs @ fd_of x # ys)) k" "f (x, k) = (x', k')"
  shows "good x' \<and> owned_once (slots (xs @ fd_of x' # ys)) k'"
proof -
  have o: "owned_once ((slots (xs @ fd_of x # ys))(length xs := fd_of x)) k"
    using assms(3) by (subst slots_self) simp_all
  from disciplinedD [OF assms(1,2) o assms(4)] show ?thesis by (simp add: slots_upd)
qed

section \<open>The rangefinders\<close>

lemma tfmini_pass_owned:
  assumes "\<And>n. fresh_sockets (te_os (env n))" "list_all tcp_good ms" "owned_once (slots (xs @ map tcp ms)) k"
    and "tfmini_pass env now ms k = (out, r, ms', k')"
  shows "list_all tcp_good ms' \<and> owned_once (slots (xs @ map tcp ms')) k'"
  using assms(2,3,4)
proof (induction ms arbitrary: xs k out r ms' k')
  case Nil
  then show ?case by simp
next
  case (Cons mp ms)
  have rest: "list_all tcp_good ms1 \<and> owned_once (slots (xs @ tcp m # map tcp ms1)) k2"
    if "owned_once (slots (xs @ tcp m # map tcp ms)) k1" "tfmini_pass env now ms k1 = (o1, r1, ms1, k2)" for m k1 o1 r1 ms1 k2
    using Cons.IH [of "xs @ [tcp m]" k1 o1 r1 ms1 k2] that Cons.prems(1) by simp
  show ?case
  proof (cases "rf_output (config mp) = ''tfmini''")
    case False
    obtain o1 r1 ms1 k2 where t: "tfmini_pass env now ms k = (o1, r1, ms1, k2)" by (metis prod.collapse)
    with Cons.prems(3) False have "ms' = mp # ms1" "k' = k2" by auto
    with rest [OF _ t, of mp] Cons.prems(1,2) show ?thesis by simp
  next
    case True
    obtain r1 mp1 k1 where u: "UpdateTfmini (env (rf_name (config mp))) now (mp, k) = (r1, mp1, k1)" by (metis prod.collapse)
    have o: "tcp_good mp1 \<and> owned_once (slots (xs @ tcp mp1 # map tcp ms)) k1"
    proof (rule slot_step [OF tcp_owner.operate_disciplined])
      show "mapping_operate (env (rf_name (config mp)), DoUpdateTfmini now) (mp, k) = (mp1, k1)" by (simp add: u)
    qed (use Cons.prems(1,2) assms(1) in simp_all)
    show ?thesis
    proof (cases r1)
      case (Ok out)
      obtain o2 r2 ms1 k2 where t: "tfmini_pass env now ms k1 = (o2, r2, ms1, k2)" by (metis prod.collapse)
      with Cons.prems(3) True u Ok have "ms' = mp1 # ms1" "k' = k2" by auto
      with rest [OF _ t, of mp1] o show ?thesis by simp
    qed (use Cons.prems(1,3) True u o in auto)
  qed
qed

lemma range_Update_owned:
  assumes "\<And>n. fresh_sockets (te_os (tenv n))" "range_Update tenv env now1 now2 (rm, k) = (frames, sent, r, rm', k')"
    and "list_all tcp_good (rm_mappings rm)" "owned_once (slots (xs @ map tcp (rm_mappings rm))) k"
  shows "rm_udp rm' = rm_udp rm \<and> list_all tcp_good (rm_mappings rm') \<and> owned_once (slots (xs @ map tcp (rm_mappings rm'))) k'"
proof -
  obtain o1 r1 ms1 k1 where t: "tfmini_pass tenv now1 (rm_mappings rm) k = (o1, r1, ms1, k1)" by (metis prod.collapse)
  let ?f = "mavlink_step env (rm_mavlink rm) (rm_start rm) (rm_udp rm) now2"
  obtain o2 r2 ms2 where m: "each_mapping ?f ms1 = (o2, r2, ms2)" by (metis prod.collapse)
  have o: "list_all tcp_good ms1 \<and> owned_once (slots (xs @ map tcp ms1)) k1"
    by (rule tfmini_pass_owned [OF assms(1,3,4) t])
  have tcps: "map (\<lambda>mp. (tcp mp, connecting mp)) ms2 = map (\<lambda>mp. (tcp mp, connecting mp)) ms1"
  proof (rule each_mapping_state(2) [OF m])
    show "(tcp s', connecting s') = (tcp s, connecting s)" if "?f s = (r, s')" for s s' r
      using mavlink_step_state [OF that] by simp
  qed
  have "map tcp ms2 = map fst (map (\<lambda>mp. (tcp mp, connecting mp)) ms2)" by simp
  also have "\<dots> = map tcp ms1" unfolding tcps by simp
  finally have fds: "map tcp ms2 = map tcp ms1" .
  have good: "list_all tcp_good ms = list_all (\<lambda>(t, c). c \<longrightarrow> 0 \<le> t) (map (\<lambda>mp. (tcp mp, connecting mp)) ms)" for ms
    by (simp add: list_all_iff tcp_good_def)
  have "list_all tcp_good ms2" using o unfolding good tcps by simp
  with o fds have "list_all tcp_good ms2 \<and> owned_once (slots (xs @ map tcp ms2)) k1" by simp
  with o t m assms(2) show ?thesis
    by (cases r1) (auto simp: range_Update_def)
qed

section \<open>Handlers, iterations and runs\<close>

text \<open>What the descriptors depend on.\<close>

definition fd_view :: "BridgeApp \<Rightarrow> int list \<times> kernel \<times> RangefinderManager" where
  "fd_view st = (app_fds st, app_kernel st, app_rangefinders st)"

lemma fd_view_owned: "fd_view st' = fd_view st \<Longrightarrow> app_owned st \<Longrightarrow> app_owned st'"
  by (simp add: fd_view_def app_owned_def tcp_fds_def)

lemma fd_view_updates [simp]:
  "fd_view (st\<lparr>motorTimedOut := b\<rparr>) = fd_view st"
  "fd_view (st\<lparr>lastStatusLogTime := t\<rparr>) = fd_view st"
  "fd_view (st\<lparr>lastFdmSendTime := t, fdmPackets := n, loggedFirstFdm := b\<rparr>) = fd_view st"
  "fd_view (st\<lparr>lastMavlinkHeartbeatTime := t\<rparr>) = fd_view st"
  "udp om = udp (app_odometry st) \<Longrightarrow> fd_view (st\<lparr>app_odometry := om\<rparr>) = fd_view st"
  by (simp_all add: fd_view_def app_fds_def)

lemma callback_owned: "app_owned st \<Longrightarrow> app_owned (run_callback c st)"
proof (cases c)
  case (SensorCallback m)
  assume "app_owned st"
  moreover have "fd_view (run_callback c st) = fd_view st" by (simp add: SensorCallback fd_view_def app_fds_def)
  ultimately show ?thesis by (rule fd_view_owned [rotated])
next
  case (OdometryCallback now m)
  assume "app_owned st"
  moreover have "udp (OnOdometry now m (app_odometry st)) = udp (app_odometry st)"
    by (auto simp: OnOdometry_def Let_def split: option.splits prod.splits)
  then have "fd_view (run_callback c st) = fd_view st" by (simp add: OdometryCallback)
  ultimately show ?thesis by (rule fd_view_owned [rotated])
next
  case (ScanCallback i now scan)
  let ?ms = "rm_mappings (app_rangefinders st)"
  assume o: "app_owned st"
  show ?thesis
  proof (cases "i < length ?ms")
    case True
    have t: "map tcp (?ms[i := OnScan now scan (?ms ! i)]) = map tcp ?ms"
      by (simp add: map_update OnScan_def list_update_same_conv True)
    have "tcp_good (OnScan now scan (?ms ! i))"
      using o True by (simp add: app_owned_def list_all_length OnScan_def tcp_good_def)
    then have g: "list_all tcp_good (?ms[i := OnScan now scan (?ms ! i)])"
      using o by (auto simp: app_owned_def list_all_iff dest!: set_mp [OF set_update_subset_insert])
    with o t show ?thesis by (simp add: ScanCallback True Let_def app_owned_def tcp_fds_def app_fds_def)
  next
    case False
    with o show ?thesis by (simp add: ScanCallback Let_def)
  qed
qed

interpretation owned_loop: main_loop app_owned "\<lambda>_. True"
  by unfold_locales (rule callback_owned)

text \<open>What an iteration may meet: TCP sockets the kernel hands out are new.\<close>

definition fresh_iteration :: "iteration \<Rightarrow> bool" where
  "fresh_iteration it \<longleftrightarrow> (\<forall>n. fresh_sockets (te_os (it_tcp it n)))"

lemma handlers_owned:
  assumes "fresh_iteration it"
  shows "list_all (obeys app_owned (\<lambda>_. True) (\<lambda>_. True)) (handlers env pow it)"
proof -
  have view: "obeys app_owned (\<lambda>_. True) (\<lambda>_. True) (emits h)" if "\<And>st r st'. h st = (r, st') \<Longrightarrow> fd_view st' = fd_view st" for h
    by (rule obeys_emits, unfold sender_obeys_def) (use fd_view_owned [OF that] in \<open>auto simp: list_all_iff split: outcome.split\<close>)
  have publish: "fd_view st' = fd_view st" if "PublishMotorCommandIfNeeded now st = (r, st')" for now st r st'
  proof -
    have "st' = st \<or> st' = st\<lparr>motorTimedOut := True\<rparr>"
      using that unfolding PublishMotorCommandIfNeeded_def Let_def by auto
    then show ?thesis by auto
  qed
  have fdm: "fd_view st' = fd_view st" if "SendFdmIfNeeded env pow sendto now now' st = (r, st')" for sendto now now' st r st'
    using SendFdm_shape [OF that] by auto
  have beat: "fd_view st' = fd_view st" if "SendMavlinkHeartbeatIfNeeded env message sendto now st = (r, st')" for message sendto now st r st'
    using Heartbeat_shape [OF that] by auto
  have log: "fd_view st' = fd_view st" if "LogStatusIfNeeded now st = (r, st')" for now st r st'
    using that by (auto simp: LogStatusIfNeeded_def Let_def split: if_splits)
  have odom: "fd_view st' = fd_view st" if h: "UpdateOdometry it st = (r, st')" for st r st'
  proof -
    obtain r1 om where u: "odometry_Update (it_odometry it) (it_odometry_now it) (app_odometry st) = (r1, om)" by force
    from h have "st' = st\<lparr>app_odometry := om\<rparr>" by (simp add: UpdateOdometry_def u)
    with odometry_Update_state(2) [OF u] show ?thesis by simp
  qed
  have range: "obeys app_owned (\<lambda>_. True) (\<lambda>_. True) (UpdateRangefinders it)"
    unfolding obeys_def
  proof (intro allI impI conjI)
    fix st out r st'
    assume o: "app_owned st" and h: "UpdateRangefinders it st = (out, r, st')"
    obtain frames sent r1 rm k where u: "range_Update (it_tcp it) (it_range it) (it_tfmini_now it) (it_range_now it)
        (app_rangefinders st, app_kernel st) = (frames, sent, r1, rm, k)" by (metis prod.collapse)
    have st': "st' = st\<lparr>app_rangefinders := rm, app_kernel := k\<rparr>" using h by (simp add: UpdateRangefinders_def u)
    from o have "list_all tcp_good (rm_mappings (app_rangefinders st))"
      "owned_once (slots (app_fds st @ map tcp (rm_mappings (app_rangefinders st)))) (app_kernel st)"
      by (simp_all add: app_owned_def tcp_fds_def)
    from range_Update_owned [OF _ u this] assms
    show "app_owned st'" by (auto simp: st' app_owned_def tcp_fds_def app_fds_def fresh_iteration_def)
  qed (simp_all add: list_all_iff)
  show ?thesis
    by (simp add: handlers_def view [OF publish] view [OF fdm] range view [OF odom] view [OF beat] view [OF log])
qed

lemma run_iteration_owned:
  assumes "app_owned st" "fresh_iteration it" "run_iteration env pow it st = Some (out, r, st')"
  shows "app_owned st'"
proof -
  let ?st = "fold run_callback (it_callbacks it 0) st"
  have o: "app_owned ?st" by (rule owned_loop.callbacks_keep [OF assms(1)]) (simp add: list_all_iff)
  obtain r1 st1 where R: "ReceiveMotorPackets env (it_recv it) ?st = Some (r1, st1)"
    using assms(3) by (auto simp: run_iteration_def split: option.splits)
  have "fd_view (motor_input ds s) = fd_view s" for ds s
    by (simp add: motor_input_def Let_def fd_view_def app_fds_def)
  with Receive_state(1) [OF R] have "fd_view st1 = fd_view ?st" by auto
  from fd_view_owned [OF this o] have o1: "app_owned st1" .
  show ?thesis
  proof (cases r1)
    case (Ok u)
    then have "run_handlers (it_callbacks it) 1 (handlers env pow it) st1 = (out, r, st')"
      using assms(3) R by (simp add: run_iteration_def)
    from owned_loop.run_handlers_obey [OF handlers_owned [OF assms(2)] _ o1 this] show ?thesis by (simp add: list_all_iff)
  qed (use assms(3) R o1 in \<open>auto simp: run_iteration_def\<close>)
qed

lemma Run_owned:
  assumes "Run env pow its st = Some (out, r, st')" "app_owned st" "list_all fresh_iteration its"
  shows "app_owned st'"
  using assms
proof (induction its arbitrary: st out)
  case Nil
  then show ?case by simp
next
  case (Cons it its)
  obtain out1 r1 st1 where it: "run_iteration env pow it st = Some (out1, r1, st1)"
    using Cons.prems(1) by (auto split: option.splits)
  have o: "app_owned st1" using run_iteration_owned [OF Cons.prems(2) _ it] Cons.prems(3) by simp
  show ?case
  proof (cases r1)
    case (Ok u)
    then obtain outs where "Run env pow its st1 = Some (outs, r, st')"
      using Cons.prems(1) it by (auto split: option.splits)
    from Cons.IH [OF this o] Cons.prems(3) show ?thesis by simp
  qed (use Cons.prems(1) it o in auto)
qed

lemma constructed_owned:
  assumes "fresh_sockets env" "owned_once (\<lambda>_. - 1) k" "new_BridgeApp env gz now c k = (Ok st, k')"
  shows "app_owned st" and "app_kernel st = k'"
proof -
  obtain rm k1 where R: "new_RangefinderManager env (gz_subscribe gz) (rangefinders c) (mavlink c) now k = (Ok rm, k1)"
    and st: "app_rangefinders st = rm" "app_kernel st = k'"
    using new_BridgeApp_parts [OF assms(3)] by metis
  show "app_kernel st = k'" by (rule st(2))
  have ms: "rm_mappings (app_rangefinders st) = map new_Mapping (filter rf_enabled (rangefinders c))"
    using new_RangefinderManager_ready(2) [OF R] st(1) by simp
  have "slots (app_fds st @ tcp_fds st) = slots (app_fds st)"
    by (rule ext) (auto simp: slots_def tcp_fds_def ms new_Mapping_def nth_append)
  moreover have "list_all tcp_good (rm_mappings (app_rangefinders st))"
    by (simp add: ms list_all_iff tcp_good_def new_Mapping_def)
  ultimately show "app_owned st"
    using new_BridgeApp_owned [OF assms] st(2) by (simp add: app_owned_def)
qed

section \<open>Destruction\<close>

text \<open>The members in the reverse order of their declaration; of the rangefinders first the mappings, then the
  UDP socket.\<close>

definition destroy_mappings :: "Mapping list \<Rightarrow> kernel \<Rightarrow> kernel" where
  "destroy_mappings ms k = fold (\<lambda>mp k. snd (destroy_Mapping (mp, k))) ms k"

definition destroy_app :: "BridgeApp \<Rightarrow> kernel" where
  "destroy_app st = close_sockets [rm_udp (app_rangefinders st), mavlinkSocket st, fdmSocket st, motorSocket st]
     (destroy_mappings (rm_mappings (app_rangefinders st)) (close_sockets [udp (app_odometry st)] (app_kernel st)))"

lemma close_slot:
  assumes "owned_once (slots (xs @ fd u # ys)) k"
  shows "owned_once (slots (xs @ - 1 # ys)) (snd (Close (u, k)))"
proof -
  have "owned_once ((slots (xs @ fd u # ys))(length xs := fd u)) k" using assms by (subst slots_self) simp_all
  from Close_slot [OF this] show ?thesis by (simp add: slots_upd)
qed

lemma destroy_mappings_owned:
  assumes "owned_once (slots (xs @ map tcp ms)) k" "list_all tcp_good ms"
  shows "owned_once (slots (xs @ map (\<lambda>_. - 1) ms)) (destroy_mappings ms k)"
  using assms
proof (induction ms arbitrary: xs k)
  case Nil
  then show ?case by (simp add: destroy_mappings_def)
next
  case (Cons mp ms)
  obtain mp1 k1 where d: "destroy_Mapping (mp, k) = (mp1, k1)" by force
  have "tcp_good mp1 \<and> owned_once (slots (xs @ tcp mp1 # map tcp ms)) k1"
    by (rule slot_step [OF destroy_disciplined _ _ d]) (use Cons.prems in simp_all)
  then have o: "owned_once (slots (xs @ tcp mp1 # map tcp ms)) k1" by blast
  have "tcp mp1 < 0" using d by (auto simp: destroy_Mapping_def split: if_splits)
  moreover have "owned_once ((slots (xs @ tcp mp1 # map tcp ms))(length xs := tcp mp1)) k1"
    using o by (subst slots_self) simp_all
  ultimately have "owned_once (slots (xs @ - 1 # map tcp ms)) k1"
    using owned_none [of "slots (xs @ tcp mp1 # map tcp ms)" "length xs" "tcp mp1" k1 "- 1"] by (simp add: slots_upd)
  with Cons.IH [of "xs @ [- 1]" k1] Cons.prems(2) d show ?case by (simp add: destroy_mappings_def)
qed

lemma destroy_app_closed:
  assumes "app_owned st"
  shows "destroy_app st = \<lparr>open_fds = {}, bad_close = False\<rparr>"
proof -
  let ?ms = "rm_mappings (app_rangefinders st)" and ?rm = "rm_udp (app_rangefinders st)"
  let ?none = "map (\<lambda>_. - 1 :: int) ?ms"
  let ?c = "\<lambda>u k. snd (Close (u, k))"
  define k1 where "k1 = ?c (udp (app_odometry st)) (app_kernel st)"
  define k2 where "k2 = destroy_mappings ?ms k1"
  have o: "owned_once (slots (app_fds st @ map tcp ?ms)) (app_kernel st)" and g: "list_all tcp_good ?ms"
    using assms by (simp_all add: app_owned_def tcp_fds_def)
  have 1: "owned_once (slots ([fd ?rm, - 1, fd (motorSocket st), fd (fdmSocket st), fd (mavlinkSocket st)] @ map tcp ?ms)) k1"
    using close_slot [of "[fd ?rm]" "udp (app_odometry st)" "[fd (motorSocket st), fd (fdmSocket st), fd (mavlinkSocket st)] @ map tcp ?ms"] o
    by (simp add: k1_def app_fds_def)
  have 2: "owned_once (slots ([fd ?rm, - 1, fd (motorSocket st), fd (fdmSocket st), fd (mavlinkSocket st)] @ ?none)) k2"
    unfolding k2_def by (rule destroy_mappings_owned [OF 1 g])
  from close_slot [of "[]" ?rm "[- 1, fd (motorSocket st), fd (fdmSocket st), fd (mavlinkSocket st)] @ ?none" k2] 2
  have "owned_once (slots ([- 1, - 1, fd (motorSocket st), fd (fdmSocket st)] @ fd (mavlinkSocket st) # ?none)) (?c ?rm k2)" by simp
  from close_slot [OF this]
  have "owned_once (slots ([- 1, - 1, fd (motorSocket st)] @ fd (fdmSocket st) # [- 1] @ ?none)) (?c (mavlinkSocket st) (?c ?rm k2))" by simp
  from close_slot [OF this]
  have "owned_once (slots ([- 1, - 1] @ fd (motorSocket st) # [- 1, - 1] @ ?none)) (?c (fdmSocket st) (?c (mavlinkSocket st) (?c ?rm k2)))" by simp
  from close_slot [OF this]
  have "owned_once (slots ([- 1, - 1] @ - 1 # [- 1, - 1] @ ?none)) (destroy_app st)"
    by (simp add: destroy_app_def close_sockets_def k1_def k2_def)
  moreover have "slots ([- 1, - 1] @ - 1 # [- 1, - 1] @ ?none) = (\<lambda>_. - 1)" by (rule slots_closed) auto
  ultimately have "owned_once (\<lambda>_. - 1) (destroy_app st)" by simp
  from owned_onceD(1,2) [OF this] have "\<not> bad_close (destroy_app st)" "open_fds (destroy_app st) = {}" by auto
  then show ?thesis by (cases "destroy_app st") simp
qed

section \<open>Properties\<close>

text \<open>C13: over the life of a bridge no descriptor leaks and none is closed twice.  A constructor that throws leaves
  nothing open; after any run, ended in any way, the open descriptors are exactly those of the five UDP sockets
  and of the rangefinders' TCP connections, each held once; the destructor closes them all.\<close>

theorem descriptors_over_life:
  assumes "fresh_sockets env"
  shows "case new_BridgeApp env gz now c \<lparr>open_fds = {}, bad_close = False\<rparr> of
      (Ok st, k') \<Rightarrow> \<forall>its out r st'. list_all fresh_iteration its \<and> Run env pow its st = Some (out, r, st') \<longrightarrow>
        (let fds = filter (\<lambda>d. 0 \<le> d) (app_fds st' @ tcp_fds st') in
           distinct fds \<and> open_fds (app_kernel st') = set fds \<and> \<not> bad_close (app_kernel st')) \<and>
        destroy_app st' = \<lparr>open_fds = {}, bad_close = False\<rparr>
    | (Throw e, k') \<Rightarrow> k' = \<lparr>open_fds = {}, bad_close = False\<rparr>
    | (Undefined, k') \<Rightarrow> False"
proof -
  let ?k = "\<lparr>open_fds = {}, bad_close = False\<rparr>"
  have k: "owned_once (\<lambda>_. - 1) ?k" by (auto simp: owned_once_def)
  obtain r k' where n: "new_BridgeApp env gz now c ?k = (r, k')" by force
  note O = new_BridgeApp_owned [OF assms k n]
  show ?thesis
  proof (cases r)
    case (Ok st)
    have st: "app_owned st" by (rule constructed_owned(1) [OF assms k n [unfolded Ok]])
    have "(let fds = filter (\<lambda>d. 0 \<le> d) (app_fds st' @ tcp_fds st') in
           distinct fds \<and> open_fds (app_kernel st') = set fds \<and> \<not> bad_close (app_kernel st')) \<and>
        destroy_app st' = ?k" if its: "list_all fresh_iteration its" and R: "Run env pow its st = Some (out, q, st')" for its out q st'
    proof -
      have o: "app_owned st'" by (rule Run_owned [OF R st its])
      then have s: "owned_once (slots (app_fds st' @ tcp_fds st')) (app_kernel st')" by (simp add: app_owned_def)
      have "d \<in> open_fds (app_kernel st') \<longleftrightarrow> 0 \<le> d \<and> d \<in> set (app_fds st' @ tcp_fds st')" for d
        using owned_onceD(2) [OF s, of d] unfolding slots_def in_set_conv_nth by (auto split: if_splits)
      then have "open_fds (app_kernel st') = set (filter (\<lambda>d. 0 \<le> d) (app_fds st' @ tcp_fds st'))" by auto
      with destroy_app_closed [OF o] distinct_filter_slots [OF s] owned_onceD(1) [OF s] show ?thesis by (simp only: Let_def) simp
    qed
    then show ?thesis unfolding n Ok prod.case outcome.case by blast
  next
    case (Throw e)
    with O have "owned_once (\<lambda>_. - 1) k'" by simp
    from owned_onceD(1,2) [OF this] have "k' = ?k" by (cases k') auto
    then show ?thesis by (simp add: n Throw)
  next
    case Undefined
    with O show ?thesis by simp
  qed
qed

theorem descriptors_over_life_witness:
  "\<exists>st k' out r st'. new_BridgeApp working_os sample_gz 0 default_config \<lparr>open_fds = {}, bad_close = False\<rparr> = (Ok st, k') \<and>
     Run working_os (\<lambda>b _. b) [sample_iteration] st = Some (out, r, st') \<and>
     open_fds (app_kernel st') = set (filter (\<lambda>d. 0 \<le> d) (app_fds st' @ tcp_fds st')) \<and>
     destroy_app st' = \<lparr>open_fds = {}, bad_close = False\<rparr>"
proof -
  obtain st k' where n: "new_BridgeApp working_os sample_gz 0 default_config \<lparr>open_fds = {}, bad_close = False\<rparr> = (Ok st, k')"
    and st: "pilot_ready st" using default_ready by blast
  have "Run working_os (\<lambda>b _. b) [sample_iteration] st \<noteq> None"
    by (rule Run_returns [where cv = "velocityConverter st"]) (use st sample_ready(2,3) in \<open>auto simp: pilot_ready_def\<close>)
  then obtain out r st' where R: "Run working_os (\<lambda>b _. b) [sample_iteration] st = Some (out, r, st')"
    by (metis option.exhaust prod_cases3)
  have f: "list_all fresh_iteration [sample_iteration]"
    by (auto simp: fresh_iteration_def sample_iteration_def sample_tcp_def fresh_sockets_def sample_os_def)
  note c = descriptors_over_life [OF working_os_facts(2), where gz = sample_gz and now = 0 and c = default_config and pow = "\<lambda>b _. b",
      unfolded n prod.case outcome.case, THEN spec, THEN spec, THEN spec, THEN spec, THEN mp, OF conjI [OF f R]]
  from n R c [THEN conjunct2] c [THEN conjunct1, unfolded Let_def, THEN conjunct2, THEN conjunct1] show ?thesis by blast
qed

end
