(* ===== verification/BridgeSignals.thy ===== *)
theory BridgeSignals
  imports MotorPath
begin

text \<open>
  The stop flag of \<^verbatim>\<open>BridgeApp.cc\<close>: \<^verbatim>\<open>Run\<close> as the loop it is, over an endless supply of iterations, with
  signals arriving at any time.  The list of iterations that \<open>Run\<close> takes is what the flag lets through.
\<close>

section \<open>The flag and the loop\<close>

definition SignalHandler :: "bool \<Rightarrow> bool" where
  "SignalHandler g_stopRequested = True"

text \<open>\<open>signals i\<close> tells how many signals arrive before the \<open>i\<close>-th check of the flag and after the one before.
  A loop that never ends is \<open>None\<close>.\<close>

partial_function (option) run_while ::
  "os \<Rightarrow> (double \<Rightarrow> double \<Rightarrow> double) \<Rightarrow> (nat \<Rightarrow> iteration) \<Rightarrow> (nat \<Rightarrow> nat) \<Rightarrow> nat \<Rightarrow> bool \<Rightarrow> BridgeApp \<Rightarrow>
     (emission list \<times> int outcome \<times> BridgeApp) option" where
  "run_while env pow its signals i g_stopRequested st =
     (if (SignalHandler ^^ signals i) g_stopRequested then Some ([ActuatorMsg (Publish ZeroMotors)], Ok 0, st)
      else (case run_iteration env pow (its i) st of
        None \<Rightarrow> None
      | Some (out, r, st') \<Rightarrow> (case r of
          Throw e \<Rightarrow> Some (out, Throw e, st')
        | Undefined \<Rightarrow> Some (out, Undefined, st')
        | Ok _ \<Rightarrow> Option.bind (run_while env pow its signals (Suc i) False st') (\<lambda>(outs, q). Some (out @ outs, q)))))"

definition Run_signalled ::
  "os \<Rightarrow> (double \<Rightarrow> double \<Rightarrow> double) \<Rightarrow> (nat \<Rightarrow> iteration) \<Rightarrow> (nat \<Rightarrow> nat) \<Rightarrow> BridgeApp \<Rightarrow>
     (emission list \<times> int outcome \<times> BridgeApp) option" where
  "Run_signalled env pow its signals st = run_while env pow its signals 0 False st"

section \<open>Lemmas\<close>

lemma signals_set: "(SignalHandler ^^ n) b \<longleftrightarrow> b \<or> 0 < n"
  by (induction n) (auto simp: SignalHandler_def)

text \<open>Up to the first signal the loop is \<open>Run\<close> on the iterations before it.\<close>

lemma run_while_until:
  assumes "\<And>j. i \<le> j \<Longrightarrow> j < n \<Longrightarrow> signals j = 0" "0 < signals n" "i \<le> n"
  shows "run_while env pow its signals i False st = Run env pow (map its [i..<n]) st"
  using assms(3,1)
proof (induction arbitrary: st rule: inc_induct)
  case base
  then show ?case using assms(2) by (subst run_while.simps) (simp add: signals_set)
next
  case (step k)
  have "signals k = 0" using step.prems step.hyps by simp
  moreover have "run_while env pow its signals (Suc k) False s = Run env pow (map its [Suc k..<n]) s" for s
    by (rule step.IH) (use step.prems in simp)
  moreover have "map its [k..<n] = its k # map its [Suc k..<n]" using step.hyps by (simp add: upt_conv_Cons)
  ultimately show ?case
    by (subst run_while.simps) (auto simp: signals_set split: option.splits outcome.splits)
qed

text \<open>Without a signal the loop returns only by an error.\<close>

lemma run_while_unsignalled:
  assumes "run_while env pow its signals i False st = Some (out, r, st')" "\<And>j. i \<le> j \<Longrightarrow> signals j = 0"
  shows "\<forall>v. r \<noteq> Ok v"
proof -
  have "b = False \<longrightarrow> (\<forall>j \<ge> i. signals j = 0) \<longrightarrow> (\<forall>v. fst (snd x) \<noteq> Ok v)"
    if "run_while env pow its signals i b st = Some x" for b x
  proof (rule run_while.raw_induct [where P = "\<lambda>env pow its signals i b st x. b = False \<longrightarrow> (\<forall>j \<ge> i. signals j = 0) \<longrightarrow> (\<forall>v. fst (snd x) \<noteq> Ok v)",
      OF _ that], intro impI)
    fix loop and env :: os and pow its signals i b st x
    assume IH: "\<And>env pow its signals i b st x. loop env pow its signals i b st = Some x \<Longrightarrow>
        b = False \<longrightarrow> (\<forall>j \<ge> i. signals j = 0) \<longrightarrow> (\<forall>v. fst (snd x) \<noteq> (Ok v :: int outcome))"
      and eq: "(if (SignalHandler ^^ signals i) b then Some ([ActuatorMsg (Publish ZeroMotors)], Ok 0, st)
        else (case run_iteration env pow (its i) st of
          None \<Rightarrow> None
        | Some (out, r, st') \<Rightarrow> (case r of
            Throw e \<Rightarrow> Some (out, Throw e, st')
          | Undefined \<Rightarrow> Some (out, Undefined, st')
          | Ok _ \<Rightarrow> Option.bind (loop env pow its signals (Suc i) False st') (\<lambda>(outs, q). Some (out @ outs, q))))) = Some x"
      and b: "b = False" and s: "\<forall>j \<ge> i. signals j = 0"
    have "signals i = 0" using s by simp
    then have "\<not> (SignalHandler ^^ signals i) b" using b by (simp add: signals_set)
    with eq obtain out r st' where it: "run_iteration env pow (its i) st = Some (out, r, st')"
      by (auto split: option.splits)
    show "\<forall>v. fst (snd x) \<noteq> Ok v"
    proof (cases r)
      case (Ok u)
      with eq it \<open>\<not> (SignalHandler ^^ signals i) b\<close> obtain outs q where
        l: "loop env pow its signals (Suc i) False st' = Some (outs, q)" "x = (out @ outs, q)"
        by (auto simp: bind_eq_Some_conv)
      have "\<forall>v. fst (snd (outs, q)) \<noteq> Ok v" using IH [OF l(1)] s by simp
      with l(2) show ?thesis by simp
    qed (use eq it \<open>\<not> (SignalHandler ^^ signals i) b\<close> in auto)
  qed
  from this [of False "(out, r, st')"] assms show ?thesis by auto
qed

section \<open>Properties\<close>

text \<open>C5: the first signal ends the loop: if it arrives before check \<open>n\<close> of the flag, \<open>n\<close> iterations run, whole, and
  then the zero command is published; when the motor queue runs empty in each of them the loop does return.
  A loop that no signal reaches never returns normally.\<close>

theorem signal_ends_run:
  assumes "app_ready st" "\<And>i. sane_iteration (its i)"
  shows "(\<forall>n. (\<forall>j < n. signals j = 0) \<and> 0 < signals n \<longrightarrow>
      Run_signalled env pow its signals st = Run env pow (map its [0..<n]) st \<and>
      ((\<forall>j < n. \<exists>i. failing (fst (it_recv (its j) i))) \<longrightarrow> (\<exists>out r st'. Run_signalled env pow its signals st = Some (out, r, st') \<and>
        (r = Ok 0 \<and> last out = ActuatorMsg (Publish ZeroMotors) \<or> (\<exists>e. r = Throw e \<and> io_error e))))) \<and>
    ((\<forall>j. signals j = 0) \<longrightarrow> (\<forall>out v st'. Run_signalled env pow its signals st \<noteq> Some (out, Ok v, st')))"
proof (intro conjI allI impI)
  fix n assume n: "(\<forall>j < n. signals j = 0) \<and> 0 < signals n"
  show R: "Run_signalled env pow its signals st = Run env pow (map its [0..<n]) st"
    unfolding Run_signalled_def by (rule run_while_until) (use n in auto)
  have sane: "list_all sane_iteration (map its [0..<n])" using assms(2) by (simp add: list_all_iff)
  have ready: "ready_with (velocityConverter st) st" using assms(1) by simp
  assume "\<forall>j < n. \<exists>i. failing (fst (it_recv (its j) i))"
  then have "Run env pow (map its [0..<n]) st \<noteq> None"
    by (intro Run_returns [OF ready sane]) auto
  then obtain out r st' where r: "Run env pow (map its [0..<n]) st = Some (out, r, st')" by (metis option.exhaust prod_cases3)
  from Run_ready [OF r ready sane]
  have "r = Ok 0 \<and> last out = ActuatorMsg (Publish ZeroMotors) \<or> (\<exists>e. r = Throw e \<and> io_error e)" by auto
  with R r show "\<exists>out r st'. Run_signalled env pow its signals st = Some (out, r, st') \<and>
        (r = Ok 0 \<and> last out = ActuatorMsg (Publish ZeroMotors) \<or> (\<exists>e. r = Throw e \<and> io_error e))" by auto
next
  fix out v st' assume "\<forall>j. signals j = 0"
  then show "Run_signalled env pow its signals st \<noteq> Some (out, Ok v, st')"
    using run_while_unsignalled [of env pow its signals 0 st out "Ok v" st'] by (auto simp: Run_signalled_def)
qed

theorem signal_ends_run_witness:
  "\<exists>out r st'. Run_signalled sample_os (\<lambda>b _. b) (\<lambda>_. sample_iteration) (\<lambda>j. if j = 2 then 1 else 0) sample_app = Some (out, r, st') \<and>
     (r = Ok 0 \<and> last out = ActuatorMsg (Publish ZeroMotors) \<or> (\<exists>e. r = Throw e \<and> io_error e))"
proof -
  let ?sig = "\<lambda>j::nat. if j = 2 then 1 else 0 :: nat"
  note c = signal_ends_run [of sample_app "\<lambda>_. sample_iteration" ?sig sample_os "\<lambda>b _. b", OF sample_ready(1,2), THEN conjunct1, THEN spec, of 2]
  have s: "(\<forall>j < 2. ?sig j = 0) \<and> 0 < ?sig 2" by simp
  have f: "\<forall>j < (2::nat). \<exists>i. failing (fst (it_recv sample_iteration i))" using sample_ready(3) by blast
  from mp [OF c s, THEN conjunct2, THEN mp, OF f] show ?thesis .
qed

end
