(* ===== verification/GzImgSrc.thy ===== *)
theory GzImgSrc
  imports Prelude
begin

text \<open>
  \<^verbatim>\<open>gst/gst_gzimgsrc/src/gstgzimgsrc.cpp\<close>: the GStreamer source element that turns Gazebo images into
  video buffers.  First the checks on an image and the frame made of it, then the protocol between the
  threads that share a \<^verbatim>\<open>SourceState\<close>: Gazebo's callback, the streaming thread in \<^verbatim>\<open>create\<close>, and the
  application in \<^verbatim>\<open>start\<close> and \<^verbatim>\<open>stop\<close>.
\<close>

section \<open>Images and frames\<close>

text \<open>\<^verbatim>\<open>gz::msgs::PixelFormatType\<close>; the formats the element does not name are one constructor.\<close>

datatype PixelFormatType = RGB_INT8 | BGR_INT8 | RGBA_INT8 | BGRA_INT8 | L_INT8 | L_INT16 | OTHER_FORMAT nat

record Image =
  img_pixel_format :: PixelFormatType
  img_width :: u32
  img_height :: u32
  img_step :: u32
  img_data :: "u8 list"

record FormatInfo =
  fi_gstFormat :: string
  fi_bytesPerPixel :: u32

definition formatInfoFromGazebo :: "PixelFormatType \<Rightarrow> FormatInfo option" where
  "formatInfoFromGazebo pixelFormat = (case pixelFormat of
       RGB_INT8 \<Rightarrow> Some \<lparr>fi_gstFormat = ''RGB'', fi_bytesPerPixel = 3\<rparr>
     | BGR_INT8 \<Rightarrow> Some \<lparr>fi_gstFormat = ''BGR'', fi_bytesPerPixel = 3\<rparr>
     | RGBA_INT8 \<Rightarrow> Some \<lparr>fi_gstFormat = ''RGBA'', fi_bytesPerPixel = 4\<rparr>
     | BGRA_INT8 \<Rightarrow> Some \<lparr>fi_gstFormat = ''BGRA'', fi_bytesPerPixel = 4\<rparr>
     | L_INT8 \<Rightarrow> Some \<lparr>fi_gstFormat = ''GRAY8'', fi_bytesPerPixel = 1\<rparr>
     | L_INT16 \<Rightarrow> Some \<lparr>fi_gstFormat = ''GRAY16_LE'', fi_bytesPerPixel = 2\<rparr>
     | OTHER_FORMAT n \<Rightarrow> None)"

text \<open>\<^verbatim>\<open>guint\<close> is 32 bits wide and \<^verbatim>\<open>std::size_t\<close> 64, as on the hosts the plugin is built for.\<close>

definition checkedMultiply :: "u32 \<Rightarrow> u32 \<Rightarrow> u64 option" where
  "checkedMultiply a b = (if a \<noteq> 0 \<and> (- 1 :: u64) div ucast a < ucast b then None else Some (ucast a * ucast b))"

definition validateFrameShape :: "Image \<Rightarrow> FormatInfo \<Rightarrow> bool" where
  "validateFrameShape msg formatInfo = (
     if img_width msg = 0 \<or> img_height msg = 0 then False
     else case checkedMultiply (img_width msg) (fi_bytesPerPixel formatInfo) of
       None \<Rightarrow> False
     | Some minimumStride \<Rightarrow>
         if ucast (img_step msg) < minimumStride then False
         else case checkedMultiply (img_step msg) (img_height msg) of
           None \<Rightarrow> False
         | Some expectedSize \<Rightarrow> \<not> (of_nat (length (img_data msg)) < expectedSize))"

definition GST_CLOCK_TIME_NONE :: u64 where
  "GST_CLOCK_TIME_NONE = - 1"

record Frame =
  fr_data :: "u8 list"
  fr_width :: u32
  fr_height :: u32
  fr_stride :: u32
  fr_gstFormat :: string
  fr_pts :: u64
  fr_duration :: u64

definition make_frame :: "u64 \<Rightarrow> Image \<Rightarrow> FormatInfo \<Rightarrow> Frame" where
  "make_frame now msg formatInfo = \<lparr>fr_data = img_data msg, fr_width = img_width msg, fr_height = img_height msg,
     fr_stride = img_step msg, fr_gstFormat = fi_gstFormat formatInfo, fr_pts = now, fr_duration = GST_CLOCK_TIME_NONE\<rparr>"

section \<open>The shared state\<close>

text \<open>The fields of \<^verbatim>\<open>SourceState\<close>; \<open>mutex_owner\<close> is the thread that holds its mutex.\<close>

record SourceState =
  mutex_owner :: "nat option"
  st_frame :: "Frame option"
  running :: bool
  lastFrameTime :: u64
  activeUsers :: u32

definition new_SourceState :: SourceState where
  "new_SourceState = \<lparr>mutex_owner = None, st_frame = None, running = True, lastFrameTime = GST_CLOCK_TIME_NONE, activeUsers = 0\<rparr>"

text \<open>What the callback does inside its lock when the source is running.\<close>

definition store_frame :: "Frame \<Rightarrow> SourceState \<Rightarrow> SourceState" where
  "store_frame frame st = (let
     now = fr_pts frame;
     duration = (if lastFrameTime st \<noteq> GST_CLOCK_TIME_NONE \<and> lastFrameTime st < now
       then now - lastFrameTime st else GST_CLOCK_TIME_NONE)
     in st\<lparr>lastFrameTime := now, st_frame := Some (frame\<lparr>fr_duration := duration\<rparr>)\<rparr>)"

text \<open>The caps of \<^verbatim>\<open>updateCaps\<close>: a \<^verbatim>\<open>guint\<close> passed as \<^verbatim>\<open>G_TYPE_INT\<close> is read as an \<^verbatim>\<open>int\<close>.\<close>

record Caps =
  caps_format :: string
  caps_width :: int
  caps_height :: int
  caps_framerate :: "int \<times> int"

definition frame_caps :: "Frame \<Rightarrow> Caps" where
  "frame_caps frame = \<lparr>caps_format = fr_gstFormat frame, caps_width = sint (fr_width frame), caps_height = sint (fr_height frame),
     caps_framerate = (0, 1)\<rparr>"

record GstBuffer =
  buf_data :: "u8 list"
  buf_pts :: u64
  buf_dts :: u64
  buf_duration :: u64

datatype GstFlowReturn = GST_FLOW_OK Caps GstBuffer | GST_FLOW_FLUSHING | GST_FLOW_NOT_NEGOTIATED | GST_FLOW_ERROR

text \<open>The end of \<^verbatim>\<open>create\<close>, after it took the frame: \<open>set_caps\<close> and \<open>alloc\<close> are GStreamer's answers.\<close>

definition push_frame :: "(Caps \<Rightarrow> bool) \<Rightarrow> bool \<Rightarrow> Frame \<Rightarrow> GstFlowReturn" where
  "push_frame set_caps alloc frame = (
     if \<not> set_caps (frame_caps frame) then GST_FLOW_NOT_NEGOTIATED
     else if \<not> alloc then GST_FLOW_ERROR
     else GST_FLOW_OK (frame_caps frame) \<lparr>buf_data = fr_data frame, buf_pts = fr_pts frame, buf_dts = fr_pts frame,
       buf_duration = fr_duration frame\<rparr>)"

section \<open>Threads\<close>

text \<open>
  Where a thread is between two steps.  A step is one critical section of \<^verbatim>\<open>stateLock\<close> or one section
  under the state's mutex or the local work between them; the argument is the \<^verbatim>\<open>SourceState *\<close> of the
  thread.  \<open>Cb_leaving\<close> and \<open>Cr_leaving\<close> are the branches for a source that was stopped: they have released
  the state and still hold its mutex, which the lock guard unlocks on return.  \<open>Sr_\<close> are the points of
  \<^verbatim>\<open>start\<close>: the check is done, the state is created, published, the subscription has failed, the state is taken
  back.  \<open>Fi_checked\<close> is \<^verbatim>\<open>finalize\<close> that has found a state and calls \<^verbatim>\<open>stop\<close>, \<open>Fi_stopped\<close> is \<^verbatim>\<open>finalize\<close>
  behind that call or without it.
\<close>

datatype pc = Idle
  | Cb_acquired nat Image | Cb_rejected nat | Cb_checked nat Frame | Cb_locked nat Frame | Cb_stored nat | Cb_leaving nat
  | Cr_acquired nat | Cr_locked nat | Cr_waiting nat | Cr_taken nat Frame | Cr_leaving nat
  | St_swapped nat | St_locked nat | St_marked nat | St_deleting nat
  | Sr_checked | Sr_created nat | Sr_published nat | Sr_failed nat | Sr_unpublished nat
  | Fi_checked | Fi_stopped

text \<open>The state a thread has a pointer to and is going to use.\<close>

fun refers :: "pc \<Rightarrow> nat option" where
  "refers (Cb_acquired s m) = Some s" | "refers (Cb_rejected s) = Some s" | "refers (Cb_checked s f) = Some s"
| "refers (Cb_locked s f) = Some s" | "refers (Cb_stored s) = Some s" | "refers (Cb_leaving s) = Some s"
| "refers (Cr_acquired s) = Some s" | "refers (Cr_locked s) = Some s" | "refers (Cr_waiting s) = Some s"
| "refers (Cr_taken s f) = Some s" | "refers (Cr_leaving s) = Some s"
| "refers (St_swapped s) = Some s" | "refers (St_locked s) = Some s" | "refers (St_marked s) = Some s"
| "refers (St_deleting s) = Some s"
| "refers (Sr_created s) = Some s" | "refers (Sr_published s) = Some s" | "refers (Sr_failed s) = Some s"
| "refers (Sr_unpublished s) = Some s"
| "refers _ = None"

text \<open>The element and the threads that use it: the fields of \<^verbatim>\<open>GstGzImgSrc\<close>, the allocated states by address,
  the threads, what \<^verbatim>\<open>create\<close> and \<^verbatim>\<open>start\<close> have returned, the threads inside \<^verbatim>\<open>finalize\<close>, and whether
  \<^verbatim>\<open>stateLock\<close> and \<^verbatim>\<open>stateIdle\<close> have been cleared.\<close>

record GstGzImgSrc =
  self_topic :: "string option"
  self_state :: "nat option"
  states :: "nat \<Rightarrow> SourceState option"
  threads :: "pc list"
  results :: "GstFlowReturn list"
  start_results :: "bool list"
  finalizing :: "nat set"
  cleared :: bool
  undefined_behaviour :: bool

text \<open>The properties of the element.\<close>

datatype prop_id = PROP_TOPIC | PROP_OTHER nat

text \<open>The calls, and the next step of a call with what it may depend on from outside: the clock and GStreamer's
  answers for the callback and \<^verbatim>\<open>create\<close>; for \<^verbatim>\<open>start\<close> the address \<^verbatim>\<open>new\<close> returns and what \<^verbatim>\<open>Subscribe\<close> answers.\<close>

datatype input =
    OnImage Image | Create | Start | Stop | SetProperty prop_id "string option" | Finalize
  | Continue u64 "Caps \<Rightarrow> bool" bool | StartStep nat "string \<Rightarrow> bool"

definition kDefaultTopic :: string where
  "kDefaultTopic = ''/camera/image''"

definition goto :: "nat \<Rightarrow> pc \<Rightarrow> GstGzImgSrc \<Rightarrow> GstGzImgSrc" where
  "goto i p g = g\<lparr>threads := (threads g)[i := p]\<rparr>"

text \<open>A read or write through a state pointer: undefined once the state is deleted.\<close>

definition access :: "nat \<Rightarrow> (SourceState \<Rightarrow> GstGzImgSrc option) \<Rightarrow> GstGzImgSrc \<Rightarrow> GstGzImgSrc option" where
  "access s f g = (case states g s of None \<Rightarrow> Some (g\<lparr>undefined_behaviour := True\<rparr>) | Some st \<Rightarrow> f st)"

definition put_state :: "nat \<Rightarrow> SourceState \<Rightarrow> GstGzImgSrc \<Rightarrow> GstGzImgSrc" where
  "put_state s st g = g\<lparr>states := (states g)(s \<mapsto> st)\<rparr>"

text \<open>A section under \<^verbatim>\<open>stateLock\<close>: undefined once the lock is cleared.\<close>

definition with_lock :: "GstGzImgSrc option \<Rightarrow> GstGzImgSrc \<Rightarrow> GstGzImgSrc option" where
  "with_lock section g = (if cleared g then Some (g\<lparr>undefined_behaviour := True\<rparr>) else section)"

text \<open>\<^verbatim>\<open>delete state\<close>: undefined when its mutex is held, and when another thread still has a pointer to the
  state, which its next use of that pointer will meet freed (or already used for something else).\<close>

definition delete_state :: "nat \<Rightarrow> nat \<Rightarrow> pc \<Rightarrow> GstGzImgSrc \<Rightarrow> GstGzImgSrc option" where
  "delete_state i s next g = access s (\<lambda>st. Some (goto i next (g\<lparr>states := (states g)(s := None),
     undefined_behaviour := undefined_behaviour g \<or> mutex_owner st \<noteq> None \<or>
       list_ex (\<lambda>j. j \<noteq> i \<and> refers (threads g ! j) = Some s) [0..<length (threads g)]\<rparr>))) g"

definition acquireState :: "nat \<Rightarrow> (nat \<Rightarrow> pc) \<Rightarrow> GstFlowReturn list \<Rightarrow> GstGzImgSrc \<Rightarrow> GstGzImgSrc option" where
  "acquireState i next none g = with_lock (case self_state g of
       None \<Rightarrow> Some (g\<lparr>results := none @ results g\<rparr>)
     | Some s \<Rightarrow> access s (\<lambda>st. Some (goto i (next s) (put_state s (st\<lparr>activeUsers := activeUsers st + 1\<rparr>) g))) g) g"

definition releaseState :: "nat \<Rightarrow> nat \<Rightarrow> pc \<Rightarrow> GstGzImgSrc \<Rightarrow> GstGzImgSrc option" where
  "releaseState i s next g = with_lock
     (access s (\<lambda>st. Some (goto i next (put_state s (st\<lparr>activeUsers := activeUsers st - 1\<rparr>) g))) g) g"

text \<open>Taking the mutex blocks while another thread holds it.\<close>

definition lock_state :: "nat \<Rightarrow> nat \<Rightarrow> pc \<Rightarrow> GstGzImgSrc \<Rightarrow> GstGzImgSrc option" where
  "lock_state i s next g = access s (\<lambda>st. case mutex_owner st of
       None \<Rightarrow> Some (goto i next (put_state s (st\<lparr>mutex_owner := Some i\<rparr>) g))
     | Some j \<Rightarrow> None) g"

definition unlock_state :: "nat \<Rightarrow> nat \<Rightarrow> pc \<Rightarrow> GstGzImgSrc \<Rightarrow> GstGzImgSrc option" where
  "unlock_state i s next g = access s (\<lambda>st.
     if mutex_owner st = Some i then Some (goto i next (put_state s (st\<lparr>mutex_owner := None\<rparr>) g))
     else Some (g\<lparr>undefined_behaviour := True\<rparr>)) g"

section \<open>The operations\<close>

text \<open>\<^verbatim>\<open>onGazeboImage\<close>.\<close>

definition onGazeboImage :: "nat \<Rightarrow> u64 \<Rightarrow> GstGzImgSrc \<Rightarrow> GstGzImgSrc option" where
  "onGazeboImage i now g = (case threads g ! i of
       Cb_acquired s msg \<Rightarrow> (case formatInfoFromGazebo (img_pixel_format msg) of
           None \<Rightarrow> Some (goto i (Cb_rejected s) g)
         | Some formatInfo \<Rightarrow> Some (goto i
             (if validateFrameShape msg formatInfo then Cb_checked s (make_frame now msg formatInfo) else Cb_rejected s) g))
     | Cb_rejected s \<Rightarrow> releaseState i s Idle g
     | Cb_checked s frame \<Rightarrow> lock_state i s (Cb_locked s frame) g
     | Cb_locked s frame \<Rightarrow> access s (\<lambda>st. if \<not> running st then releaseState i s (Cb_leaving s) g
         else unlock_state i s (Cb_stored s) (put_state s (store_frame frame st) g)) g
     | Cb_stored s \<Rightarrow> releaseState i s Idle g
     | Cb_leaving s \<Rightarrow> unlock_state i s Idle g
     | _ \<Rightarrow> None)"

text \<open>\<^verbatim>\<open>gst_gz_img_src_create\<close>; a waiting thread may wake at any time and then takes the mutex and looks
  again.\<close>

definition gst_gz_img_src_create :: "nat \<Rightarrow> (Caps \<Rightarrow> bool) \<Rightarrow> bool \<Rightarrow> GstGzImgSrc \<Rightarrow> GstGzImgSrc option" where
  "gst_gz_img_src_create i set_caps alloc g = (case threads g ! i of
       Cr_acquired s \<Rightarrow> lock_state i s (Cr_locked s) g
     | Cr_locked s \<Rightarrow> access s (\<lambda>st.
         if running st then (case st_frame st of
             None \<Rightarrow> unlock_state i s (Cr_waiting s) g
           | Some frame \<Rightarrow> unlock_state i s (Cr_taken s frame) (put_state s (st\<lparr>st_frame := None\<rparr>) g))
         else releaseState i s (Cr_leaving s) g) g
     | Cr_waiting s \<Rightarrow> lock_state i s (Cr_locked s) g
     | Cr_taken s frame \<Rightarrow> releaseState i s Idle (g\<lparr>results := push_frame set_caps alloc frame # results g\<rparr>)
     | Cr_leaving s \<Rightarrow> unlock_state i s Idle (g\<lparr>results := GST_FLOW_FLUSHING # results g\<rparr>)
     | _ \<Rightarrow> None)"

text \<open>\<^verbatim>\<open>gst_gz_img_src_start\<close>: the check under the lock; the new state at an address that is free; its
  publication under the lock; \<^verbatim>\<open>Subscribe\<close> through the pointer to the state; and when that fails the
  publication is taken back and the state deleted, without a look at its users.\<close>

definition start_topic :: "string option \<Rightarrow> string" where
  "start_topic t = (case t of None \<Rightarrow> kDefaultTopic | Some n \<Rightarrow> if n = [] then kDefaultTopic else n)"

definition gst_gz_img_src_start :: "nat \<Rightarrow> nat \<Rightarrow> (string \<Rightarrow> bool) \<Rightarrow> GstGzImgSrc \<Rightarrow> GstGzImgSrc option" where
  "gst_gz_img_src_start i a subscribe g = (case threads g ! i of
       Idle \<Rightarrow> with_lock (Some (if self_state g \<noteq> None then g\<lparr>start_results := True # start_results g\<rparr>
         else goto i Sr_checked g)) g
     | Sr_checked \<Rightarrow> (if states g a \<noteq> None then None else Some (goto i (Sr_created a) (put_state a new_SourceState g)))
     | Sr_created s \<Rightarrow> with_lock (Some (goto i (Sr_published s) (g\<lparr>self_state := Some s\<rparr>))) g
     | Sr_published s \<Rightarrow> access s (\<lambda>st. Some (
         if subscribe (start_topic (self_topic g)) then goto i Idle (g\<lparr>start_results := True # start_results g\<rparr>)
         else goto i (Sr_failed s) g)) g
     | Sr_failed s \<Rightarrow> with_lock (Some (goto i (Sr_unpublished s) (g\<lparr>self_state := None\<rparr>))) g
     | Sr_unpublished s \<Rightarrow> delete_state i s Idle (g\<lparr>start_results := False # start_results g\<rparr>)
     | _ \<Rightarrow> None)"

text \<open>\<^verbatim>\<open>gst_gz_img_src_stop\<close>; a call that finds no state returns at once.  The same steps are the call of
  \<^verbatim>\<open>stop\<close> inside \<^verbatim>\<open>finalize\<close>: the thread then goes on with \<^verbatim>\<open>finalize\<close>.\<close>

definition swap_state :: "nat \<Rightarrow> pc \<Rightarrow> GstGzImgSrc \<Rightarrow> GstGzImgSrc option" where
  "swap_state i return g = with_lock (Some (case self_state g of
       None \<Rightarrow> goto i return g
     | Some s \<Rightarrow> goto i (St_swapped s) (g\<lparr>self_state := None\<rparr>))) g"

definition gst_gz_img_src_stop :: "nat \<Rightarrow> GstGzImgSrc \<Rightarrow> GstGzImgSrc option" where
  "gst_gz_img_src_stop i g = (let return = (if i \<in> finalizing g then Fi_stopped else Idle) in case threads g ! i of
       Idle \<Rightarrow> swap_state i return g
     | Fi_checked \<Rightarrow> swap_state i return g
     | St_swapped s \<Rightarrow> lock_state i s (St_locked s) g
     | St_locked s \<Rightarrow> access s (\<lambda>st. unlock_state i s (St_marked s)
         (put_state s (st\<lparr>running := False, st_frame := None\<rparr>) g)) g
     | St_marked s \<Rightarrow> with_lock (access s (\<lambda>st. if 0 < activeUsers st then None else Some (goto i (St_deleting s) g)) g) g
     | St_deleting s \<Rightarrow> delete_state i s return g
     | _ \<Rightarrow> None)"

text \<open>The topic property; \<^verbatim>\<open>g_value_dup_string\<close> copies a null string as null.\<close>

definition gst_gz_img_src_set_property :: "prop_id \<Rightarrow> string option \<Rightarrow> GstGzImgSrc \<Rightarrow> GstGzImgSrc" where
  "gst_gz_img_src_set_property propId v g = (case propId of PROP_TOPIC \<Rightarrow> g\<lparr>self_topic := v\<rparr> | PROP_OTHER n \<Rightarrow> g)"

definition gst_gz_img_src_get_property :: "prop_id \<Rightarrow> GstGzImgSrc \<Rightarrow> string option option" where
  "gst_gz_img_src_get_property propId g = (case propId of PROP_TOPIC \<Rightarrow> Some (self_topic g) | PROP_OTHER n \<Rightarrow> None)"

text \<open>\<^verbatim>\<open>gst_gz_img_src_finalize\<close>: with a state published it first does what \<^verbatim>\<open>stop\<close> does; then it frees the
  topic and clears the condition variable and the lock.  On an element that is already cleared it is undefined.\<close>

definition gst_gz_img_src_finalize :: "nat \<Rightarrow> GstGzImgSrc \<Rightarrow> GstGzImgSrc option" where
  "gst_gz_img_src_finalize i g = (if cleared g then Some (g\<lparr>undefined_behaviour := True\<rparr>) else case threads g ! i of
       Idle \<Rightarrow> Some (goto i (if self_state g \<noteq> None then Fi_checked else Fi_stopped) (g\<lparr>finalizing := insert i (finalizing g)\<rparr>))
     | Fi_checked \<Rightarrow> gst_gz_img_src_stop i g
     | Fi_stopped \<Rightarrow> Some (goto i Idle (g\<lparr>self_topic := None, cleared := True, finalizing := finalizing g - {i}\<rparr>))
     | _ \<Rightarrow> None)"

text \<open>A call on an idle thread, or the next step of the call the thread is in.\<close>

fun advance :: "nat \<Rightarrow> input \<Rightarrow> GstGzImgSrc \<Rightarrow> GstGzImgSrc option" where
  "advance i (Continue now set_caps alloc) g = (case threads g ! i of
       Idle \<Rightarrow> None
     | St_swapped s \<Rightarrow> gst_gz_img_src_stop i g | St_locked s \<Rightarrow> gst_gz_img_src_stop i g
     | St_marked s \<Rightarrow> gst_gz_img_src_stop i g | St_deleting s \<Rightarrow> gst_gz_img_src_stop i g
     | Cr_acquired s \<Rightarrow> gst_gz_img_src_create i set_caps alloc g | Cr_locked s \<Rightarrow> gst_gz_img_src_create i set_caps alloc g
     | Cr_waiting s \<Rightarrow> gst_gz_img_src_create i set_caps alloc g | Cr_taken s f \<Rightarrow> gst_gz_img_src_create i set_caps alloc g
     | Cr_leaving s \<Rightarrow> gst_gz_img_src_create i set_caps alloc g
     | Fi_checked \<Rightarrow> gst_gz_img_src_finalize i g | Fi_stopped \<Rightarrow> gst_gz_img_src_finalize i g
     | _ \<Rightarrow> onGazeboImage i now g)"
| "advance i (StartStep a subscribe) g = (if threads g ! i = Idle then None else gst_gz_img_src_start i a subscribe g)"
| "advance i call g = (if threads g ! i \<noteq> Idle then None else (case call of
       OnImage msg \<Rightarrow> acquireState i (\<lambda>s. Cb_acquired s msg) [] g
     | Create \<Rightarrow> acquireState i Cr_acquired [GST_FLOW_FLUSHING] g
     | Start \<Rightarrow> gst_gz_img_src_start i 0 (\<lambda>_. False) g
     | Stop \<Rightarrow> gst_gz_img_src_stop i g
     | SetProperty propId v \<Rightarrow> Some (gst_gz_img_src_set_property propId v g)
     | Finalize \<Rightarrow> gst_gz_img_src_finalize i g
     | _ \<Rightarrow> None))"

text \<open>Any thread may take any step at any time.\<close>

inductive gz_step :: "GstGzImgSrc \<Rightarrow> GstGzImgSrc \<Rightarrow> bool" where
  step: "i < length (threads g) \<Longrightarrow> \<not> undefined_behaviour g \<Longrightarrow> advance i inp g = Some g' \<Longrightarrow> gz_step g g'"

inductive_cases gz_stepE: "gz_step g g'"

text \<open>The callers' side: GStreamer holds the element's state lock around \<^verbatim>\<open>start\<close> and \<^verbatim>\<open>stop\<close>, and \<^verbatim>\<open>finalize\<close> runs when
  the last reference is gone.  So one such call is made at a time, and none of any kind after \<^verbatim>\<open>finalize\<close>.  What
  rests on this contract says so (\<open>lawful_step\<close>).\<close>

fun lifecycle :: "pc \<Rightarrow> bool" where
  "lifecycle (St_swapped s) = True" | "lifecycle (St_locked s) = True" | "lifecycle (St_marked s) = True"
| "lifecycle (St_deleting s) = True" | "lifecycle Sr_checked = True" | "lifecycle (Sr_created s) = True"
| "lifecycle (Sr_published s) = True" | "lifecycle (Sr_failed s) = True" | "lifecycle (Sr_unpublished s) = True"
| "lifecycle Fi_checked = True" | "lifecycle Fi_stopped = True" | "lifecycle _ = False"

fun permitted :: "input \<Rightarrow> GstGzImgSrc \<Rightarrow> bool" where
  "permitted Start g = (\<not> cleared g \<and> \<not> list_ex lifecycle (threads g))"
| "permitted Stop g = (\<not> cleared g \<and> \<not> list_ex lifecycle (threads g))"
| "permitted Finalize g = (\<not> cleared g \<and> \<not> list_ex lifecycle (threads g))"
| "permitted (OnImage msg) g = (\<not> cleared g)"
| "permitted Create g = (\<not> cleared g)"
| "permitted (SetProperty propId v) g = (\<not> cleared g)"
| "permitted (Continue now set_caps alloc) g = True"
| "permitted (StartStep a subscribe) g = True"

inductive lawful_step :: "GstGzImgSrc \<Rightarrow> GstGzImgSrc \<Rightarrow> bool" where
  lawful: "i < length (threads g) \<Longrightarrow> \<not> undefined_behaviour g \<Longrightarrow> permitted inp g \<Longrightarrow> advance i inp g = Some g' \<Longrightarrow> lawful_step g g'"

inductive_cases lawful_stepE: "lawful_step g g'"

definition gst_gz_img_src_init :: "nat \<Rightarrow> GstGzImgSrc" where
  "gst_gz_img_src_init n = \<lparr>self_topic = Some kDefaultTopic, self_state = None, states = (\<lambda>_. None), threads = replicate n Idle,
     results = [], start_results = [], finalizing = {}, cleared = False, undefined_behaviour = False\<rparr>"

section \<open>The checks on an image\<close>

lemma checkedMultiply_total: "checkedMultiply a b = Some (of_nat (unat a * unat b))" "unat a * unat b < 2 ^ 64"
proof -
  have ab: "unat a < 2 ^ 32" "unat b < 2 ^ 32" using unsigned_less [of a] unsigned_less [of b] by simp_all
  then have "unat a * unat b < 2 ^ 32 * 2 ^ 32" by (intro mult_strict_mono) simp_all
  then show p: "unat a * unat b < 2 ^ 64" by simp
  have ua: "unat (ucast a :: u64) = unat a" "unat (ucast b :: u64) = unat b"
    using ab by (simp_all add: unsigned_ucast_eq take_bit_nat_eq_self)
  have "unat b \<le> (2 ^ 64 - 1) div unat a" if "a \<noteq> 0"
  proof -
    have "0 < unat a" using that by (simp add: unat_gt_0)
    moreover have "unat b * unat a \<le> 2 ^ 64 - 1" using p by (simp add: mult.commute)
    ultimately show ?thesis by (simp add: less_eq_div_iff_mult_less_eq)
  qed
  then have "\<not> (- 1 :: u64) div ucast a < ucast b" if "a \<noteq> 0"
    using that ua by (simp add: word_less_nat_alt unat_div unsigned_minus_1_eq_mask mask_eq_exp_minus_1 not_less)
  moreover have "(ucast a * ucast b :: u64) = of_nat (unat a * unat b)"
    by (rule unsigned_word_eqI) (simp add: unat_word_ariths ua unat_of_nat)
  ultimately show "checkedMultiply a b = Some (of_nat (unat a * unat b))"
    by (auto simp: checkedMultiply_def)
qed

lemma frame_shape_iff:
  assumes "length (img_data msg) < 2 ^ 64"
  shows "validateFrameShape msg fi \<longleftrightarrow> (0 < unat (img_width msg) \<and> 0 < unat (img_height msg) \<and>
      unat (img_width msg) * unat (fi_bytesPerPixel fi) \<le> unat (img_step msg) \<and>
      unat (img_step msg) * unat (img_height msg) \<le> length (img_data msg))"
proof -
  let ?s = "unat (img_step msg)"
  have n: "unat (of_nat m :: u64) = m" if "m < 2 ^ 64" for m
    using that by (simp add: unat_of_nat)
  have u: "unat (of_nat (unat (a :: u32) * unat (b :: u32)) :: u64) = unat a * unat b" for a b
    by (rule n [OF checkedMultiply_total(2)])
  have s: "unat (ucast (img_step msg) :: u64) = ?s"
  proof -
    have "unat (img_step msg) < 2 ^ 64" using unsigned_less [of "img_step msg", where ?'a = nat] by simp
    then show ?thesis by (simp add: unsigned_ucast_eq take_bit_nat_eq_self)
  qed
  have d: "unat (of_nat (length (img_data msg)) :: u64) = length (img_data msg)"
    using assms by (simp add: unat_of_nat)
  show ?thesis
    unfolding validateFrameShape_def checkedMultiply_total option.case word_less_nat_alt u s d
    by (auto simp: unat_gt_0 not_less)
qed

section \<open>Properties\<close>

text \<open>C27: the 64-bit overflow checks never reject anything, and an image of a supported format is accepted exactly
  when it is not empty, a row fits its stride and the payload holds all rows; then every byte of every pixel
  lies inside the payload.\<close>

theorem frame_shape_exact:
  assumes "formatInfoFromGazebo (img_pixel_format msg) = Some fi" "length (img_data msg) < 2 ^ 64"
  shows "(validateFrameShape msg fi \<longleftrightarrow> (0 < unat (img_width msg) \<and> 0 < unat (img_height msg) \<and>
      unat (img_width msg) * unat (fi_bytesPerPixel fi) \<le> unat (img_step msg) \<and>
      unat (img_step msg) * unat (img_height msg) \<le> length (img_data msg))) \<and>
    (\<forall>x y c. validateFrameShape msg fi \<and> x < unat (img_width msg) \<and> y < unat (img_height msg) \<and> c < unat (fi_bytesPerPixel fi) \<longrightarrow>
      y * unat (img_step msg) + x * unat (fi_bytesPerPixel fi) + c < length (img_data msg))"
    (is "(?l \<longleftrightarrow> ?r) \<and> ?pixels")
proof -
  let ?w = "unat (img_width msg)" and ?h = "unat (img_height msg)" and ?s = "unat (img_step msg)" and ?b = "unat (fi_bytesPerPixel fi)"
  note iff = frame_shape_iff [OF assms(2), of fi]
  have "y * ?s + x * ?b + c < length (img_data msg)" if v: ?l and b: "x < ?w" "y < ?h" "c < ?b" for x y c
  proof -
  have "x * ?b + c < (x + 1) * ?b" using b(3) by simp
  also have "\<dots> \<le> ?w * ?b" using b(1) by (intro mult_right_mono) simp_all
  also have "\<dots> \<le> ?s" using v iff by blast
  finally have "y * ?s + (x * ?b + c) < y * ?s + ?s" by simp
  also have "\<dots> = (y + 1) * ?s" by simp
  also have "\<dots> \<le> ?h * ?s" using b(2) by (intro mult_right_mono) simp_all
  also have "\<dots> \<le> length (img_data msg)" using v iff by (simp add: mult.commute)
  finally show ?thesis by simp
  qed
  with iff show ?thesis by blast
qed

definition grey_pixel :: Image where
  "grey_pixel = \<lparr>img_pixel_format = L_INT8, img_width = 1, img_height = 1, img_step = 1, img_data = [7]\<rparr>"

lemma grey_pixel_accepted: "formatInfoFromGazebo L_INT8 = Some \<lparr>fi_gstFormat = ''GRAY8'', fi_bytesPerPixel = 1\<rparr>"
  "validateFrameShape grey_pixel \<lparr>fi_gstFormat = ''GRAY8'', fi_bytesPerPixel = 1\<rparr>"
  by (simp_all add: formatInfoFromGazebo_def validateFrameShape_def checkedMultiply_total grey_pixel_def)

theorem frame_shape_exact_witness:
  "validateFrameShape grey_pixel \<lparr>fi_gstFormat = ''GRAY8'', fi_bytesPerPixel = 1\<rparr> \<and>
   \<not> validateFrameShape (grey_pixel\<lparr>img_step := 0\<rparr>) \<lparr>fi_gstFormat = ''GRAY8'', fi_bytesPerPixel = 1\<rparr>"
  using frame_shape_exact [of grey_pixel "\<lparr>fi_gstFormat = ''GRAY8'', fi_bytesPerPixel = 1\<rparr>"]
    frame_shape_exact [of "grey_pixel\<lparr>img_step := 0\<rparr>" "\<lparr>fi_gstFormat = ''GRAY8'', fi_bytesPerPixel = 1\<rparr>"]
  by (simp add: grey_pixel_def formatInfoFromGazebo_def)

end
