(* ===== verification/GzImgThreads.thy ===== *)
theory GzImgThreads
  imports GzImgSrc
begin

text \<open>
  The threads of \<^verbatim>\<open>gstgzimgsrc.cpp\<close>: the invariant of the user count, the mutexes and the published state under
  every interleaving of the steps of callbacks, \<^verbatim>\<open>create\<close>, \<^verbatim>\<open>start\<close>, \<^verbatim>\<open>stop\<close>, property changes and \<^verbatim>\<open>finalize\<close>.
\<close>

section \<open>What the threads rely on\<close>

text \<open>The state a thread has counted itself a user of, the state whose mutex it holds, the state it is
  stopping or starting, and the state it is leaving without being counted.  A thread keeps a state that is not
  published: one it is stopping, or one of a \<^verbatim>\<open>start\<close> before its publication or after it was taken back.\<close>

fun counted :: "pc \<Rightarrow> nat option" where
  "counted (Cb_acquired s m) = Some s" | "counted (Cb_rejected s) = Some s" | "counted (Cb_checked s f) = Some s"
| "counted (Cb_locked s f) = Some s" | "counted (Cb_stored s) = Some s" | "counted (Cr_acquired s) = Some s"
| "counted (Cr_locked s) = Some s" | "counted (Cr_waiting s) = Some s" | "counted (Cr_taken s f) = Some s"
| "counted _ = None"

fun holds :: "pc \<Rightarrow> nat option" where
  "holds (Cb_locked s f) = Some s" | "holds (Cb_leaving s) = Some s" | "holds (Cr_locked s) = Some s"
| "holds (Cr_leaving s) = Some s" | "holds (St_locked s) = Some s" | "holds _ = None"

fun stopping :: "pc \<Rightarrow> nat option" where
  "stopping (St_swapped s) = Some s" | "stopping (St_locked s) = Some s" | "stopping (St_marked s) = Some s"
| "stopping (St_deleting s) = Some s" | "stopping _ = None"

fun starting :: "pc \<Rightarrow> nat option" where
  "starting (Sr_created s) = Some s" | "starting (Sr_published s) = Some s" | "starting (Sr_failed s) = Some s"
| "starting (Sr_unpublished s) = Some s" | "starting _ = None"

fun leaving :: "pc \<Rightarrow> nat option" where
  "leaving (Cb_leaving s) = Some s" | "leaving (Cr_leaving s) = Some s" | "leaving _ = None"

fun owns :: "pc \<Rightarrow> nat option" where
  "owns (St_swapped s) = Some s" | "owns (St_locked s) = Some s" | "owns (St_marked s) = Some s"
| "owns (St_deleting s) = Some s" | "owns (Sr_created s) = Some s" | "owns (Sr_unpublished s) = Some s"
| "owns _ = None"

lemma refers_cases:
  "refers p = Some s \<longleftrightarrow> counted p = Some s \<or> leaving p = Some s \<or> stopping p = Some s \<or> starting p = Some s"
  by (cases p) auto

lemma refers_parts [simp]:
  "counted p = Some s \<Longrightarrow> refers p = Some s" "holds p = Some s \<Longrightarrow> refers p = Some s" "stopping p = Some s \<Longrightarrow> refers p = Some s"
  "leaving p = Some s \<Longrightarrow> refers p = Some s" "starting p = Some s \<Longrightarrow> refers p = Some s" "owns p = Some s \<Longrightarrow> refers p = Some s"
  "stopping p = Some s \<Longrightarrow> owns p = Some s"
  by (cases p; simp)+

definition users :: "nat \<Rightarrow> pc list \<Rightarrow> nat" where
  "users s ts = length (filter (\<lambda>p. counted p = Some s) ts)"

lemma users_update:
  assumes "i < length ts"
  shows "users s (ts[i := p]) + (if counted (ts ! i) = Some s then 1 else 0) = users s ts + (if counted p = Some s then 1 else 0)"
  using assms unfolding users_def
proof (induction ts arbitrary: i)
  case (Cons t ts)
  show ?case
  proof (cases i)
    case (Suc j)
    with Cons.IH [of j] Cons.prems show ?thesis by auto
  qed auto
qed simp

lemma users_pos: "i < length ts \<Longrightarrow> counted (ts ! i) = Some s \<Longrightarrow> 0 < users s ts"
  unfolding users_def length_greater_0_conv filter_empty_conv by (metis nth_mem)

lemma users_none: "(\<And>i. i < length ts \<Longrightarrow> counted (ts ! i) \<noteq> Some s) \<Longrightarrow> users s ts = 0"
  unfolding users_def by (auto simp: filter_empty_conv in_set_conv_nth)

lemma users_le: "users s ts \<le> length ts"
  unfolding users_def by simp

text \<open>The invariant: the counter counts; a thread refers to live states only; the published state is live, running
  and kept by no thread; a created state is known to its thread only, and one thread stops a state; deletion by
  \<^verbatim>\<open>stop\<close> begins with no user left; and the owner of a mutex is the thread that holds it.\<close>

definition gz_inv :: "GstGzImgSrc \<Rightarrow> bool" where
  "gz_inv g \<longleftrightarrow> (let ts = threads g in
     (\<forall>s st. states g s = Some st \<longrightarrow> activeUsers st = of_nat (users s ts)) \<and>
     (\<forall>i s. i < length ts \<longrightarrow> refers (ts ! i) = Some s \<longrightarrow> states g s \<noteq> None) \<and>
     (\<forall>s. self_state g = Some s \<longrightarrow> (\<exists>st. states g s = Some st \<and> running st)) \<and>
     (\<forall>i s. i < length ts \<longrightarrow> owns (ts ! i) = Some s \<longrightarrow> self_state g \<noteq> Some s) \<and>
     (\<forall>i j s. i < length ts \<longrightarrow> j < length ts \<longrightarrow> stopping (ts ! i) = Some s \<longrightarrow> stopping (ts ! j) = Some s \<longrightarrow> j = i) \<and>
     (\<forall>i j s. i < length ts \<longrightarrow> j < length ts \<longrightarrow> ts ! i = Sr_created s \<longrightarrow> refers (ts ! j) = Some s \<longrightarrow> j = i) \<and>
     (\<forall>i s. i < length ts \<longrightarrow> ts ! i = St_deleting s \<longrightarrow> users s ts = 0) \<and>
     (\<forall>i s st. i < length ts \<longrightarrow> ts ! i = Sr_created s \<longrightarrow> states g s = Some st \<longrightarrow> running st) \<and>
     (\<forall>i s st. states g s = Some st \<longrightarrow> (mutex_owner st = Some i \<longleftrightarrow> i < length ts \<and> holds (ts ! i) = Some s)))"

lemma gz_invD:
  assumes "gz_inv g"
  shows "states g s = Some st \<Longrightarrow> activeUsers st = of_nat (users s (threads g))"
    and "i < length (threads g) \<Longrightarrow> refers (threads g ! i) = Some s \<Longrightarrow> states g s \<noteq> None"
    and "self_state g = Some s \<Longrightarrow> \<exists>st. states g s = Some st \<and> running st"
    and "i < length (threads g) \<Longrightarrow> owns (threads g ! i) = Some s \<Longrightarrow> self_state g \<noteq> Some s"
    and "i < length (threads g) \<Longrightarrow> j < length (threads g) \<Longrightarrow> stopping (threads g ! i) = Some s \<Longrightarrow>
      stopping (threads g ! j) = Some s \<Longrightarrow> j = i"
    and "i < length (threads g) \<Longrightarrow> j < length (threads g) \<Longrightarrow> threads g ! i = Sr_created s \<Longrightarrow>
      refers (threads g ! j) = Some s \<Longrightarrow> j = i"
    and "i < length (threads g) \<Longrightarrow> threads g ! i = St_deleting s \<Longrightarrow> users s (threads g) = 0"
    and "states g s = Some st \<Longrightarrow> mutex_owner st = Some i \<longleftrightarrow> i < length (threads g) \<and> holds (threads g ! i) = Some s"
    and "i < length (threads g) \<Longrightarrow> threads g ! i = Sr_created s \<Longrightarrow> states g s = Some st \<Longrightarrow> running st"
  using assms unfolding gz_inv_def Let_def by (elim conjE; metis)+

lemma gz_invI:
  assumes "\<And>s st. states g s = Some st \<Longrightarrow> activeUsers st = of_nat (users s (threads g))"
    and "\<And>i s. i < length (threads g) \<Longrightarrow> refers (threads g ! i) = Some s \<Longrightarrow> states g s \<noteq> None"
    and "\<And>s. self_state g = Some s \<Longrightarrow> \<exists>st. states g s = Some st \<and> running st"
    and "\<And>i s. i < length (threads g) \<Longrightarrow> owns (threads g ! i) = Some s \<Longrightarrow> self_state g \<noteq> Some s"
    and "\<And>i j s. i < length (threads g) \<Longrightarrow> j < length (threads g) \<Longrightarrow> stopping (threads g ! i) = Some s \<Longrightarrow>
      stopping (threads g ! j) = Some s \<Longrightarrow> j = i"
    and "\<And>i j s. i < length (threads g) \<Longrightarrow> j < length (threads g) \<Longrightarrow> threads g ! i = Sr_created s \<Longrightarrow>
      refers (threads g ! j) = Some s \<Longrightarrow> j = i"
    and "\<And>i s. i < length (threads g) \<Longrightarrow> threads g ! i = St_deleting s \<Longrightarrow> users s (threads g) = 0"
    and "\<And>i s st. i < length (threads g) \<Longrightarrow> threads g ! i = Sr_created s \<Longrightarrow> states g s = Some st \<Longrightarrow> running st"
    and "\<And>i s st. states g s = Some st \<Longrightarrow> mutex_owner st = Some i \<longleftrightarrow> i < length (threads g) \<and> holds (threads g ! i) = Some s"
  shows "gz_inv g"
  unfolding gz_inv_def Let_def by (intro conjI allI impI; (rule assms; assumption))

text \<open>A step of thread \<open>i\<close> to \<open>p\<close> that involves one state \<open>s\<close>: \<open>x\<close> is the state after it, \<open>q\<close> what is published.\<close>

lemma inv_move:
  assumes inv: "gz_inv g" and i: "i < length (threads g)" and old: "old = threads g ! i"
    and g': "threads g' = (threads g)[i := p]" "states g' = (states g)(s := x)" "self_state g' = q"
    and refs: "refers old = None \<or> refers old = Some s" "refers p = None \<or> refers p = Some s" "refers p = Some s \<Longrightarrow> x \<noteq> None"
    and dead: "\<And>j. x = None \<Longrightarrow> j < length (threads g) \<Longrightarrow> j \<noteq> i \<Longrightarrow> refers (threads g ! j) \<noteq> Some s"
    and count: "\<And>st. x = Some st \<Longrightarrow> activeUsers st = of_nat (users s ((threads g)[i := p]))"
    and mutex: "\<And>st j. x = Some st \<Longrightarrow> mutex_owner st = Some j \<longleftrightarrow> j < length (threads g) \<and> holds ((threads g)[i := p] ! j) = Some s"
    and publ: "\<And>s'. q = Some s' \<Longrightarrow> s' \<noteq> s \<Longrightarrow> self_state g = Some s'"
      "q = Some s \<Longrightarrow> (\<exists>st. x = Some st \<and> running st) \<and> owns p \<noteq> Some s \<and> (self_state g = Some s \<or> old = Sr_created s)"
    and enter: "refers p = Some s \<Longrightarrow> refers old = Some s \<or> self_state g = Some s \<or> states g s = None"
    and user: "counted p = Some s \<Longrightarrow> counted old = Some s \<or> self_state g = Some s"
    and stop: "stopping p = Some s \<Longrightarrow> stopping old = Some s \<or> self_state g = Some s"
    and new: "p = Sr_created s \<Longrightarrow> states g s = None" "\<And>st. p = Sr_created s \<Longrightarrow> x = Some st \<Longrightarrow> running st"
    and quiet: "refers old = None \<Longrightarrow> refers p = None \<Longrightarrow> x = states g s"
    and del: "p = St_deleting s \<Longrightarrow> users s ((threads g)[i := p]) = 0"
  shows "gz_inv g'"
proof (rule gz_invI)
  note D = gz_invD [OF inv]
  let ?ts = "(threads g)[i := p]"
  have nth: "?ts ! j = (if j = i then p else threads g ! j)" if "j < length (threads g)" for j
    using that i by (simp add: nth_list_update)
  have mine: "refers (threads g ! i) \<noteq> Some s'" "refers p \<noteq> Some s'" if "s' \<noteq> s" for s'
    using refs(1,2) that old by auto
  have other: "users s' ?ts = users s' (threads g)" if "s' \<noteq> s" for s'
  proof -
    have "counted (threads g ! i) \<noteq> Some s'" "counted p \<noteq> Some s'" using mine [OF that] refers_parts(1) by blast+
    with users_update [OF i, of s' p] show ?thesis by simp
  qed
  show "activeUsers st = of_nat (users s' (threads g'))" if "states g' s' = Some st" for s' st
    using that count D(1) other by (cases "s' = s") (simp_all add: g')
  show "states g' s' \<noteq> None" if "j < length (threads g')" "refers (threads g' ! j) = Some s'" for j s'
    using that nth [of j] D(2) [of j s'] mine(2) [of s'] refs(3) dead [of j] by (cases "s' = s"; cases "j = i") (auto simp: g')
  show "\<exists>st. states g' s' = Some st \<and> running st" if "self_state g' = Some s'" for s'
    using that publ D(3) [of s'] by (cases "s' = s") (auto simp: g')
  show "self_state g' \<noteq> Some s'" if "j < length (threads g')" "owns (threads g' ! j) = Some s'" for j s'
  proof
    assume q: "self_state g' = Some s'"
    show False
    proof (cases "s' = s")
      case False
      then have "self_state g = Some s'" "j \<noteq> i" using q publ(1) that nth [of j] mine(2) [OF False] refers_parts(6) [of p s'] by (auto simp: g')
      with that nth [of j] D(4) [of j s'] show False by (simp add: g')
    next
      case True
      with q publ(2) have k: "owns p \<noteq> Some s" "self_state g = Some s \<or> old = Sr_created s" by (simp_all add: g')
      with that True nth [of j] i have "j \<noteq> i" "owns (threads g ! j) = Some s" "j < length (threads g)" by (auto simp: g' split: if_splits)
      then show False using k(2) D(4) [of j s] D(6) [of i j s] old i by auto
    qed
  qed
  show "k = j" if "j < length (threads g')" "k < length (threads g')" "stopping (threads g' ! j) = Some s'" "stopping (threads g' ! k) = Some s'" for j k s'
  proof (rule ccontr)
    assume n: "k \<noteq> j"
    have no: "stopping (threads g ! l) \<noteq> Some s'" if "stopping p = Some s'" "l \<noteq> i" "l < length (threads g)" for l
    proof -
      have s': "s' = s" using refs(2) that(1) refers_parts(3) [of p s'] by auto
      show ?thesis using stop that D(5) [OF i that(3), of s] D(4) [OF that(3), of s] old unfolding s' by auto
    qed
    show False using that n nth [of j] nth [of k] D(5) [of j k s'] no [of j] no [of k] by (auto simp: g' split: if_splits)
  qed
  show "k = j" if "j < length (threads g')" "k < length (threads g')" "threads g' ! j = Sr_created s'" "refers (threads g' ! k) = Some s'" for j k s'
  proof (rule ccontr)
    assume n: "k \<noteq> j"
    show False
    proof (cases "j = i")
      case True
      with that nth [of j] have "p = Sr_created s'" by (simp add: g')
      then have "s' = s" "states g s = None" using refs(2) new by auto
      with that n True nth [of k] D(2) [of k s] show False by (simp add: g')
    next
      case j: False
      with that nth [of j] have at: "threads g ! j = Sr_created s'" "j < length (threads g)" by (simp_all add: g')
      show False
      proof (cases "k = i")
        case False
        with that n nth [of k] D(6) [of j k s'] at show False by (simp add: g')
      next
        case True
        with that nth [of k] have "refers p = Some s'" by (simp add: g')
        then have "s' = s" using refs(2) by auto
        with at n True i D(6) [of j i s] D(4) [of j s] D(2) [of j s] enter \<open>refers p = Some s'\<close> old show False by auto
      qed
    qed
  qed
  show "users s' (threads g') = 0" if "j < length (threads g')" "threads g' ! j = St_deleting s'" for j s'
  proof (cases "j = i")
    case True
    with that nth [of j] have "p = St_deleting s'" by (simp add: g')
    then show ?thesis using refs(2) del by (auto simp: g')
  next
    case False
    with that nth [of j] have at: "threads g ! j = St_deleting s'" "j < length (threads g)" by (simp_all add: g')
    then have z: "users s' (threads g) = 0" "self_state g \<noteq> Some s'" using D(7) [of j s'] D(4) [of j s'] by simp_all
    have "counted p \<noteq> Some s'"
    proof
      assume c: "counted p = Some s'"
      then have "s' = s" using refs(2) refers_parts(1) [of p s'] by auto
      with user c z(2) old have "counted (threads g ! i) = Some s'" by simp
      from users_pos [OF i this] z(1) show False by simp
    qed
    with users_update [OF i, of s' p] z(1) show ?thesis by (simp add: g')
  qed
  show "running st" if "j < length (threads g')" "threads g' ! j = Sr_created s'" "states g' s' = Some st" for j s' st
  proof (cases "j = i")
    case True
    with that nth [of j] have "p = Sr_created s'" by (simp add: g')
    then show ?thesis using refs(2) new(2) that(3) by (auto simp: g')
  next
    case False
    with that nth [of j] have at: "threads g ! j = Sr_created s'" "j < length (threads g)" by (simp_all add: g')
    have "states g s' = Some st"
    proof (cases "s' = s")
      case True
      have "refers old \<noteq> Some s" using D(6) [of j i s] at True False i old by auto
      moreover have "refers p \<noteq> Some s" using enter calculation D(4) [of j s] D(2) [of j s] at True by auto
      ultimately show ?thesis using quiet refs(1,2) that(3) True by (auto simp: g')
    next
      case False
      with that(3) show ?thesis by (simp add: g')
    qed
    with D(9) at show ?thesis by blast
  qed
  show "mutex_owner st = Some j \<longleftrightarrow> j < length (threads g') \<and> holds (threads g' ! j) = Some s'" if "states g' s' = Some st" for j s' st
  proof (cases "s' = s")
    case True
    with that mutex show ?thesis by (simp add: g')
  next
    case False
    then have "holds p \<noteq> Some s'" "holds (threads g ! i) \<noteq> Some s'"
      using mine [OF False] refers_parts(2) [of p s'] refers_parts(2) [of "threads g ! i" s'] by auto
    with False that D(8) [of s' st j] nth [of j] show ?thesis by (auto simp: g' split: if_splits)
  qed
qed


text \<open>A step on a live state that changes its counter, its mutex or its contents.\<close>

lemma gz_inv_step:
  assumes inv: "gz_inv g" and i: "i < length (threads g)" and s: "states g s = Some st"
    and old: "old = threads g ! i"
    and refs: "refers old \<in> {None, Some s}" "refers p \<in> {None, Some s}"
    and count: "activeUsers st' = activeUsers st + (if counted p = None then 0 else 1) - (if counted old = None then 0 else 1)"
    and enter: "refers p \<noteq> None \<Longrightarrow> refers old = None \<Longrightarrow> self_state g = Some s" "counted p \<noteq> None \<Longrightarrow> counted old = None \<Longrightarrow> self_state g = Some s"
    and run: "self_state g = Some s \<Longrightarrow> running st'"
    and keep: "owns p = owns old" "stopping p = stopping old" "\<And>s. p \<noteq> St_deleting s" "\<And>s. p \<noteq> Sr_created s"
    and quiet: "refers old = None \<Longrightarrow> refers p = None \<Longrightarrow> st' = st"
    and mutex: "mutex_owner st' = (if holds p = Some s then Some i else if holds old = Some s then None else mutex_owner st)"
      "holds p = Some s \<Longrightarrow> holds old \<noteq> Some s \<Longrightarrow> mutex_owner st = None"
  shows "gz_inv (goto i p (put_state s st' g))"
proof (rule inv_move [OF inv i old, where s = s and x = "Some st'" and q = "self_state g"])
  note D = gz_invD [OF inv]
  let ?ts = "(threads g)[i := p]"
  have nth: "?ts ! j = (if j = i then p else threads g ! j)" if "j < length (threads g)" for j
    using that i by (simp add: nth_list_update)
  have c: "counted old = None \<or> counted old = Some s" "counted p = None \<or> counted p = Some s"
    using refs refers_parts(1) by (metis empty_iff insert_iff not_None_eq option.inject)+
  show "activeUsers st'' = of_nat (users s ?ts)" if "Some st' = Some st''" for st''
  proof -
    have "users s ?ts + (if counted old = None then 0 else 1) = users s (threads g) + (if counted p = None then 0 else 1)"
      using users_update [OF i, of s p] c old by auto
    then have "(of_nat (users s ?ts + (if counted old = None then 0 else 1)) :: u32) = of_nat (users s (threads g) + (if counted p = None then 0 else 1))"
      by (simp only:)
    then show ?thesis using that count D(1) [OF s] by (auto split: if_splits simp: algebra_simps) (metis add_left_cancel)
  qed
  show "mutex_owner st'' = Some j \<longleftrightarrow> j < length (threads g) \<and> holds (?ts ! j) = Some s" if "Some st' = Some st''" for st'' j
    using that D(8) [OF s, of i] D(8) [OF s, of j] mutex nth [of j] i old by (auto split: if_splits)
  show "(\<exists>st. Some st' = Some st \<and> running st) \<and> owns p \<noteq> Some s \<and> (self_state g = Some s \<or> old = Sr_created s)" if "self_state g = Some s"
    using that run keep(1) D(4) [OF i, of s] old by auto
  show "counted p = Some s \<Longrightarrow> counted old = Some s \<or> self_state g = Some s" using enter(2) c by auto
qed (use assms in \<open>auto simp: goto_def put_state_def\<close>)

section \<open>Every step keeps the invariant\<close>

lemma put_state_twice [simp]: "put_state s st' (put_state s st g) = put_state s st' g"
  by (simp add: put_state_def)

lemma states_put [simp]: "states (put_state s st g) = (states g)(s \<mapsto> st)"
  by (simp add: put_state_def)

lemma put_state_same: "states g s = Some st \<Longrightarrow> put_state s st g = g"
  by (simp add: put_state_def fun_upd_idem)

lemma put_goto_simps [simp]:
  "undefined_behaviour (goto i p g) = undefined_behaviour g" "undefined_behaviour (put_state s st g) = undefined_behaviour g"
  "cleared (goto i p g) = cleared g" "cleared (put_state s st g) = cleared g"
  "self_state (goto i p g) = self_state g" "self_state (put_state s st g) = self_state g"
  "finalizing (goto i p g) = finalizing g" "finalizing (put_state s st g) = finalizing g"
  "threads (goto i p g) = (threads g)[i := p]" "threads (put_state s st g) = threads g" "states (goto i p g) = states g"
  by (simp_all add: goto_def put_state_def)

lemma gz_inv_fields [simp]:
  "gz_inv (g\<lparr>results := rs\<rparr>) = gz_inv g" "gz_inv (g\<lparr>start_results := bs\<rparr>) = gz_inv g" "gz_inv (g\<lparr>self_topic := w\<rparr>) = gz_inv g"
  "gz_inv (g\<lparr>finalizing := F\<rparr>) = gz_inv g" "gz_inv (g\<lparr>cleared := b\<rparr>) = gz_inv g"
  "gz_inv (goto i p (g\<lparr>results := rs\<rparr>)) = gz_inv (goto i p g)" "gz_inv (goto i p (g\<lparr>start_results := bs\<rparr>)) = gz_inv (goto i p g)"
  "gz_inv (goto i p (g\<lparr>finalizing := F\<rparr>)) = gz_inv (goto i p g)" "gz_inv (goto i p (g\<lparr>cleared := b\<rparr>)) = gz_inv (goto i p g)"
  "gz_inv (goto i p (g\<lparr>self_topic := w\<rparr>)) = gz_inv (goto i p g)"
  by (simp_all add: gz_inv_def goto_def)

lemma access_live [simp]: "states g s = Some st \<Longrightarrow> access s f g = f st"
  by (simp add: access_def)

lemma access_defined: "access s f g = Some g' \<Longrightarrow> \<not> undefined_behaviour g' \<Longrightarrow> \<exists>st. states g s = Some st \<and> f st = Some g'"
  by (auto simp: access_def split: option.splits)

lemma with_lock_cases:
  assumes "with_lock f g = Some g'"
  obtains "cleared g" "g' = g\<lparr>undefined_behaviour := True\<rparr>" | "\<not> cleared g" "f = Some g'"
  using assms by (auto simp: with_lock_def split: if_splits)

lemma owns_None: "owns p = None \<Longrightarrow> stopping p = None \<and> p \<noteq> St_deleting s \<and> p \<noteq> Sr_created s"
  by (cases p) auto

text \<open>A step is fine when it keeps the invariant and is defined, or when the element's lock is already cleared.\<close>

definition fine_step :: "GstGzImgSrc \<Rightarrow> GstGzImgSrc \<Rightarrow> bool" where
  "fine_step g g' \<longleftrightarrow> gz_inv g' \<and> \<not> undefined_behaviour g' \<or> cleared g \<and> undefined_behaviour g'"

lemma release_inv:
  assumes "gz_inv g" "\<not> undefined_behaviour g" "i < length (threads g)" "releaseState i s p g = Some g'"
    and "counted (threads g ! i) = Some s" "counted p = None" "holds p = holds (threads g ! i)" "refers p \<in> {None, Some s}"
    and "owns p = None" "owns (threads g ! i) = None"
  shows "fine_step g g'"
  using assms(4) unfolding releaseState_def
proof (cases rule: with_lock_cases)
  case 2
  have r: "refers (threads g ! i) = Some s" using assms(5) by simp
  obtain st where st: "states g s = Some st" using gz_invD(2) [OF assms(1,3) r] by blast
  let ?st = "st\<lparr>activeUsers := activeUsers st - 1\<rparr>"
  have g': "g' = goto i p (put_state s ?st g)" using 2(2) by (simp add: st)
  have "gz_inv (goto i p (put_state s ?st g))"
  proof (rule gz_inv_step [OF assms(1,3) st refl])
    show "running ?st" if "self_state g = Some s" using gz_invD(3) [OF assms(1) that] st by auto
    show "mutex_owner ?st = (if holds p = Some s then Some i else if holds (threads g ! i) = Some s then None else mutex_owner st)"
      using gz_invD(8) [OF assms(1) st, of i] assms(3,7) by auto
  qed (use assms r owns_None [OF assms(9)] owns_None [OF assms(10)] in auto)
  then show ?thesis using assms(2) by (simp add: g' fine_step_def)
qed (simp add: fine_step_def)

lemma lock_inv:
  assumes "gz_inv g" "\<not> undefined_behaviour g" "i < length (threads g)" "lock_state i s p g = Some g'"
    and "refers (threads g ! i) = Some s" "counted p = counted (threads g ! i)" "refers p = Some s"
    and "holds (threads g ! i) = None" "holds p = Some s" "owns p = owns (threads g ! i)" "stopping p = stopping (threads g ! i)"
    and "\<And>s. p \<noteq> St_deleting s" "\<And>s. p \<noteq> Sr_created s"
  shows "fine_step g g'"
proof -
  obtain st where st: "states g s = Some st" using gz_invD(2) [OF assms(1,3,5)] by blast
  let ?st = "st\<lparr>mutex_owner := Some i\<rparr>"
  have g': "g' = goto i p (put_state s ?st g)" and m: "mutex_owner st = None"
    using assms(4) by (auto simp: lock_state_def st split: option.splits)
  have "gz_inv (goto i p (put_state s ?st g))"
  proof (rule gz_inv_step [OF assms(1,3) st refl])
    show "running ?st" if "self_state g = Some s" using gz_invD(3) [OF assms(1) that] st by auto
  qed (use assms m in auto)
  then show ?thesis using assms(2) by (simp add: g' fine_step_def)
qed

text \<open>Releasing the mutex, possibly after a change of the state under it.\<close>

lemma unlock_inv:
  assumes "gz_inv g" "\<not> undefined_behaviour g" "i < length (threads g)" "states g s = Some st" "unlock_state i s p (put_state s st' g) = Some g'"
    and "holds (threads g ! i) = Some s" "holds p = None" "counted p = counted (threads g ! i)" "refers p \<in> {None, Some s}"
    and "owns p = owns (threads g ! i)" "stopping p = stopping (threads g ! i)" "\<And>s. p \<noteq> St_deleting s" "\<And>s. p \<noteq> Sr_created s"
    and "mutex_owner st' = mutex_owner st" "activeUsers st' = activeUsers st" "self_state g = Some s \<Longrightarrow> running st'"
  shows "fine_step g g'"
proof -
  have m: "mutex_owner st' = Some i" using gz_invD(8) [OF assms(1,4), of i] assms(3,6,14) by simp
  have r: "refers (threads g ! i) = Some s" using assms(6) by simp
  let ?st = "st'\<lparr>mutex_owner := None\<rparr>"
  have g': "g' = goto i p (put_state s ?st g)"
    using assms(5) by (simp add: unlock_state_def m)
  have "gz_inv (goto i p (put_state s ?st g))"
    by (rule gz_inv_step [OF assms(1,3,4) refl]) (use assms r in auto)
  then show ?thesis using assms(2) by (simp add: g' fine_step_def)
qed

text \<open>A thread that only moves on, on the same state.\<close>

lemma goto_inv:
  assumes "gz_inv g" "i < length (threads g)" "refers (threads g ! i) = Some s" "refers p \<in> {None, Some s}" "counted p = counted (threads g ! i)"
    and "holds (threads g ! i) = None" "holds p = None" "owns p = owns (threads g ! i)" "stopping p = stopping (threads g ! i)"
    and "\<And>s. p \<noteq> St_deleting s" "\<And>s. p \<noteq> Sr_created s"
  shows "gz_inv (goto i p g)"
proof -
  obtain st where st: "states g s = Some st" using gz_invD(2) [OF assms(1,2,3)] by blast
  have "gz_inv (goto i p (put_state s st g))"
  proof (rule gz_inv_step [OF assms(1,2) st refl])
    show "running st" if "self_state g = Some s" using gz_invD(3) [OF assms(1) that] st by auto
  qed (use assms in auto)
  then show ?thesis by (simp add: put_state_same [OF st])
qed

text \<open>A thread between two points at which it refers to no state.\<close>

lemma stroll_inv:
  assumes "gz_inv g" "i < length (threads g)" "refers (threads g ! i) = None" "refers p = None"
  shows "gz_inv (goto i p g)"
proof -
  have n: "counted q \<noteq> Some s" "holds q \<noteq> Some s" "owns q \<noteq> Some s" "stopping q \<noteq> Some s" if "refers q = None" for q s
    using that by (cases q; simp)+
  have u: "users s ((threads g)[i := p]) = users s (threads g)" for s
    using users_update [OF assms(2), of s p] n(1) [OF assms(3), of s] n(1) [OF assms(4), of s] by simp
  have h: "holds ((threads g)[i := p] ! j) = Some s \<longleftrightarrow> holds (threads g ! j) = Some s" for j s
    using n(2) [OF assms(3), of s] n(2) [OF assms(4), of s] assms(2) by (cases "j = i") simp_all
  show ?thesis
  proof (rule inv_move [OF assms(1,2) refl, where s = 0 and x = "states g 0" and q = "self_state g" and p = p])
    show "refers (threads g ! j) \<noteq> Some 0" if "states g 0 = None" "j < length (threads g)" for j
      using gz_invD(2) [OF assms(1) that(2)] that(1) by blast
    show "mutex_owner st = Some j \<longleftrightarrow> j < length (threads g) \<and> holds ((threads g)[i := p] ! j) = Some 0" if "states g 0 = Some st" for st j
      using gz_invD(8) [OF assms(1) that] h by blast
    show "activeUsers st = of_nat (users 0 ((threads g)[i := p]))" if "states g 0 = Some st" for st
      using gz_invD(1) [OF assms(1) that] by (simp add: u)
    show "(\<exists>st. states g 0 = Some st \<and> running st) \<and> owns p \<noteq> Some 0 \<and> (self_state g = Some 0 \<or> threads g ! i = Sr_created 0)"
      if "self_state g = Some 0"
      using gz_invD(3) [OF assms(1) that] n(3) [OF assms(4), of 0] that by simp
  qed (use assms(3,4) n [OF assms(4)] in simp_all)
qed

lemma acquire_inv:
  assumes "gz_inv g" "\<not> undefined_behaviour g" "i < length (threads g)" "acquireState i p rs g = Some g'" "threads g ! i = Idle"
    and "\<And>s. counted (p s) = Some s" "\<And>s. holds (p s) = None" "\<And>s. owns (p s) = None"
  shows "fine_step g g'"
  using assms(4) unfolding acquireState_def
proof (cases rule: with_lock_cases)
  case 2
  show ?thesis
  proof (cases "self_state g")
    case None
    with assms(1,2) 2(2) show ?thesis by (auto simp: fine_step_def)
  next
    case (Some s)
    obtain st where st: "states g s = Some st" "running st" using gz_invD(3) [OF assms(1) Some] by blast
    let ?st = "st\<lparr>activeUsers := activeUsers st + 1\<rparr>"
    have g': "g' = goto i (p s) (put_state s ?st g)" using 2(2) by (simp add: Some st)
    have "gz_inv (goto i (p s) (put_state s ?st g))"
      by (rule gz_inv_step [OF assms(1,3) st(1) refl])
        (use assms(5-8) st Some owns_None [OF assms(8) [of s]] in auto)
    then show ?thesis using assms(2) by (simp add: g' fine_step_def)
  qed
qed (simp add: fine_step_def)

text \<open>Creating, publishing and taking back a state, and its deletion.\<close>

lemma new_SourceState_simps [simp]:
  "activeUsers new_SourceState = 0" "running new_SourceState" "mutex_owner new_SourceState = None" "st_frame new_SourceState = None"
  by (simp_all add: new_SourceState_def)

lemma unknown_state:
  assumes "gz_inv g" "states g a = None" "j < length (threads g)"
  shows "refers (threads g ! j) \<noteq> Some a" "counted (threads g ! j) \<noteq> Some a" "holds (threads g ! j) \<noteq> Some a"
proof -
  show r: "refers (threads g ! j) \<noteq> Some a" using gz_invD(2) [OF assms(1,3)] assms(2) by blast
  then show "counted (threads g ! j) \<noteq> Some a" "holds (threads g ! j) \<noteq> Some a" using refers_parts(1,2) by blast+
qed

lemma new_inv:
  assumes "gz_inv g" "i < length (threads g)" "threads g ! i = Sr_checked" "states g a = None"
  shows "gz_inv (goto i (Sr_created a) (put_state a new_SourceState g))"
proof (rule inv_move [OF assms(1,2) refl, where s = a and x = "Some new_SourceState" and q = "self_state g" and p = "Sr_created a"])
  note no = unknown_state [OF assms(1,4)]
  show "activeUsers st = of_nat (users a ((threads g)[i := Sr_created a]))" if "Some new_SourceState = Some st" for st
  proof -
    have "counted ((threads g)[i := Sr_created a] ! j) \<noteq> Some a" if "j < length (threads g)" for j
      using no(2) [OF that] that by (cases "j = i") auto
    then have "users a ((threads g)[i := Sr_created a]) = 0" by (intro users_none) simp
    with that show ?thesis by auto
  qed
  show "mutex_owner st = Some j \<longleftrightarrow> j < length (threads g) \<and> holds ((threads g)[i := Sr_created a] ! j) = Some a"
    if "Some new_SourceState = Some st" for st j
    using no(3) [of j] that assms(2) by (cases "j = i") auto
  show "(\<exists>st. Some new_SourceState = Some st \<and> running st) \<and> owns (Sr_created a) \<noteq> Some a \<and> (self_state g = Some a \<or> threads g ! i = Sr_created a)"
    if "self_state g = Some a" using gz_invD(3) [OF assms(1) that] assms(4) by simp
qed (use assms(3,4) in simp_all)

text \<open>Steps that change what is published and leave the states as they are.\<close>

lemma repoint_inv:
  assumes inv: "gz_inv g" and i: "i < length (threads g)" and s: "states g s = Some st"
    and refs: "refers (threads g ! i) \<in> {None, Some s}" "refers p = Some s" "counted p = None" "counted (threads g ! i) = None"
      "holds p = None" "holds (threads g ! i) = None" "\<And>s. p \<noteq> St_deleting s" "\<And>s. p \<noteq> Sr_created s"
    and publ: "q = None \<or> q = Some s \<and> threads g ! i = Sr_created s \<and> owns p = None"
    and enter: "refers (threads g ! i) = Some s \<or> self_state g = Some s"
    and stop: "stopping p = Some s \<Longrightarrow> self_state g = Some s"
  shows "gz_inv (goto i p (g\<lparr>self_state := q\<rparr>))"
proof (rule inv_move [OF inv i refl, where s = s and x = "states g s" and q = q and p = p])
  have u: "users s ((threads g)[i := p]) = users s (threads g)"
    using users_update [OF i, of s p] refs(3,4) by simp
  have h: "holds ((threads g)[i := p] ! j) = Some s \<longleftrightarrow> holds (threads g ! j) = Some s" for j
    using refs(5,6) i by (cases "j = i") simp_all
  show "activeUsers st = of_nat (users s ((threads g)[i := p]))" if "states g s = Some st" for st
    using gz_invD(1) [OF inv that] by (simp add: u)
  show "mutex_owner st = Some j \<longleftrightarrow> j < length (threads g) \<and> holds ((threads g)[i := p] ! j) = Some s" if "states g s = Some st" for st j
    using gz_invD(8) [OF inv that] h by blast
  show "(\<exists>st. states g s = Some st \<and> running st) \<and> owns p \<noteq> Some s \<and> (self_state g = Some s \<or> threads g ! i = Sr_created s)" if "q = Some s"
    using publ that s gz_invD(9) [OF inv i _ s] by simp
qed (use refs publ enter stop s in auto)

lemma delete_inv:
  assumes inv: "gz_inv g" and ub: "\<not> undefined_behaviour g" and i: "i < length (threads g)" and d: "delete_state i s p g = Some g'"
    and old: "owns (threads g ! i) = Some s" "holds (threads g ! i) = None" "counted (threads g ! i) = None" and p: "refers p = None"
  shows "gz_inv g' \<and> \<not> undefined_behaviour g' \<or>
    undefined_behaviour g' \<and> (\<exists>j < length (threads g). j \<noteq> i \<and> refers (threads g ! j) = Some s)"
proof -
  have r: "refers (threads g ! i) = Some s" using old(1) by simp
  obtain st where st: "states g s = Some st" using gz_invD(2) [OF inv i r] by blast
  let ?b = "mutex_owner st \<noteq> None \<or> list_ex (\<lambda>j. j \<noteq> i \<and> refers (threads g ! j) = Some s) [0..<length (threads g)]"
  have g': "g' = goto i p (g\<lparr>states := (states g)(s := None), undefined_behaviour := ?b\<rparr>)"
    using d ub by (simp add: delete_state_def st)
  show ?thesis
  proof (cases "\<exists>j < length (threads g). j \<noteq> i \<and> refers (threads g ! j) = Some s")
    case True
    then have ?b by (auto simp: list_ex_iff)
    with True show ?thesis by (simp add: g')
  next
    case False
    have "mutex_owner st \<noteq> Some j" for j
      using gz_invD(8) [OF inv st, of j] False old(2) refers_parts(2) by (metis option.distinct(1))
    then have "mutex_owner st = None" by (cases "mutex_owner st") auto
    with False have b: "\<not> ?b" by (auto simp: list_ex_iff)
    have n: "counted p = None" "holds p = None" "owns p = None" "stopping p = None" using p by (cases p; simp)+
    have "gz_inv g'"
    proof (rule inv_move [OF inv i refl, where s = s and x = None and q = "self_state g" and p = p])
      show "(\<exists>st. None = Some st \<and> running st) \<and> owns p \<noteq> Some s \<and> (self_state g = Some s \<or> threads g ! i = Sr_created s)"
        if "self_state g = Some s" using gz_invD(4) [OF inv i old(1)] that by simp
    qed (use False r p n in \<open>auto simp: g'\<close>)
    with b show ?thesis by (simp add: g')
  qed
qed

lemma deleting_inv:
  assumes "gz_inv g" "i < length (threads g)" "threads g ! i = St_marked s" "users s (threads g) = 0"
  shows "gz_inv (goto i (St_deleting s) g)"
proof -
  obtain st where st: "states g s = Some st" using gz_invD(2) [OF assms(1,2), of s] assms(3) by auto
  have u: "users s ((threads g)[i := St_deleting s]) = 0"
    using users_update [OF assms(2), of s "St_deleting s"] assms(3,4) by simp
  have h: "holds ((threads g)[i := St_deleting s] ! j) = Some s \<longleftrightarrow> holds (threads g ! j) = Some s" for j
    using assms(2,3) by (cases "j = i") simp_all
  show ?thesis
  proof (rule inv_move [OF assms(1,2) refl, where s = s and x = "Some st" and q = "self_state g" and p = "St_deleting s"])
    show "activeUsers st' = of_nat (users s ((threads g)[i := St_deleting s]))" if "Some st = Some st'" for st'
      using gz_invD(1) [OF assms(1) st] that u assms(4) by simp
    show "mutex_owner st' = Some j \<longleftrightarrow> j < length (threads g) \<and> holds ((threads g)[i := St_deleting s] ! j) = Some s" if "Some st = Some st'" for st' j
      using gz_invD(8) [OF assms(1) st, of j] h that by simp
    show "(\<exists>st'. Some st = Some st' \<and> running st') \<and> owns (St_deleting s) \<noteq> Some s \<and> (self_state g = Some s \<or> threads g ! i = Sr_created s)"
      if "self_state g = Some s" using gz_invD(4) [OF assms(1,2), of s] assms(3) that by simp
  qed (use assms(3) st u in \<open>simp_all add: fun_upd_idem\<close>)
qed

section \<open>The operations\<close>

lemma onGazeboImage_inv:
  assumes "gz_inv g" "\<not> undefined_behaviour g" "i < length (threads g)" "onGazeboImage i now g = Some g'"
  shows "fine_step g g'"
proof (cases "threads g ! i")
  case (Cb_acquired s msg)
  then have "g' = goto i (Cb_rejected s) g \<or> (\<exists>f. g' = goto i (Cb_checked s f) g)"
    using assms(4) by (auto simp: onGazeboImage_def split: option.splits if_splits)
  moreover have "gz_inv (goto i (Cb_rejected s) g)" "gz_inv (goto i (Cb_checked s f) g)" for f
    by (rule goto_inv [OF assms(1,3), of s]; simp add: Cb_acquired)+
  ultimately show ?thesis using assms(2) by (auto simp: fine_step_def)
next
  case (Cb_rejected s)
  with assms(4) have "releaseState i s Idle g = Some g'" by (simp add: onGazeboImage_def)
  then show ?thesis by (rule release_inv [OF assms(1-3)]) (simp_all add: Cb_rejected)
next
  case (Cb_checked s f)
  with assms(4) have "lock_state i s (Cb_locked s f) g = Some g'" by (simp add: onGazeboImage_def)
  then show ?thesis by (rule lock_inv [OF assms(1-3)]) (simp_all add: Cb_checked)
next
  case (Cb_locked s f)
  obtain st where st: "states g s = Some st" using gz_invD(2) [OF assms(1,3), of s] Cb_locked by auto
  show ?thesis
  proof (cases "running st")
    case True
    with assms(4) st Cb_locked have "unlock_state i s (Cb_stored s) (put_state s (store_frame f st) g) = Some g'"
      by (simp add: onGazeboImage_def)
    then show ?thesis
      by (rule unlock_inv [OF assms(1-3) st]) (simp_all add: Cb_locked store_frame_def Let_def True)
  next
    case False
    with assms(4) st Cb_locked have "releaseState i s (Cb_leaving s) g = Some g'" by (simp add: onGazeboImage_def)
    then show ?thesis by (rule release_inv [OF assms(1-3)]) (simp_all add: Cb_locked)
  qed
next
  case (Cb_stored s)
  with assms(4) have "releaseState i s Idle g = Some g'" by (simp add: onGazeboImage_def)
  then show ?thesis by (rule release_inv [OF assms(1-3)]) (simp_all add: Cb_stored)
next
  case (Cb_leaving s)
  obtain st where st: "states g s = Some st" using gz_invD(2) [OF assms(1,3), of s] Cb_leaving by auto
  with assms(4) Cb_leaving have "unlock_state i s Idle (put_state s st g) = Some g'"
    by (simp add: onGazeboImage_def put_state_same)
  then show ?thesis
  proof (rule unlock_inv [OF assms(1-3) st])
    show "running st" if "self_state g = Some s" using gz_invD(3) [OF assms(1) that] st by auto
  qed (simp_all add: Cb_leaving)
qed (use assms(4) in \<open>simp_all add: onGazeboImage_def\<close>)

lemma create_inv:
  assumes "gz_inv g" "\<not> undefined_behaviour g" "i < length (threads g)" "gst_gz_img_src_create i sc al g = Some g'"
  shows "fine_step g g'"
proof (cases "threads g ! i")
  case (Cr_acquired s)
  with assms(4) have "lock_state i s (Cr_locked s) g = Some g'" by (simp add: gst_gz_img_src_create_def)
  then show ?thesis by (rule lock_inv [OF assms(1-3)]) (simp_all add: Cr_acquired)
next
  case (Cr_waiting s)
  with assms(4) have "lock_state i s (Cr_locked s) g = Some g'" by (simp add: gst_gz_img_src_create_def)
  then show ?thesis by (rule lock_inv [OF assms(1-3)]) (simp_all add: Cr_waiting)
next
  case (Cr_locked s)
  obtain st where st: "states g s = Some st" using gz_invD(2) [OF assms(1,3), of s] Cr_locked by auto
  show ?thesis
  proof (cases "running st")
    case False
    with assms(4) st Cr_locked have "releaseState i s (Cr_leaving s) g = Some g'" by (simp add: gst_gz_img_src_create_def)
    then show ?thesis by (rule release_inv [OF assms(1-3)]) (simp_all add: Cr_locked)
  next
    case r: True
    show ?thesis
    proof (cases "st_frame st")
      case None
      with assms(4) st r Cr_locked have "unlock_state i s (Cr_waiting s) (put_state s st g) = Some g'"
        by (simp add: gst_gz_img_src_create_def put_state_same)
      then show ?thesis by (rule unlock_inv [OF assms(1-3) st]) (simp_all add: Cr_locked r)
    next
      case (Some f)
      with assms(4) st r Cr_locked have "unlock_state i s (Cr_taken s f) (put_state s (st\<lparr>st_frame := None\<rparr>) g) = Some g'"
        by (simp add: gst_gz_img_src_create_def)
      then show ?thesis by (rule unlock_inv [OF assms(1-3) st]) (simp_all add: Cr_locked r)
    qed
  qed
next
  case (Cr_taken s f)
  let ?g = "g\<lparr>results := push_frame sc al f # results g\<rparr>"
  from assms(4) Cr_taken have "releaseState i s Idle ?g = Some g'" by (simp add: gst_gz_img_src_create_def)
  then have "fine_step ?g g'" by (rule release_inv [rotated 3]) (use assms(1-3) Cr_taken in simp_all)
  then show ?thesis by (simp add: fine_step_def)
next
  case (Cr_leaving s)
  let ?g = "g\<lparr>results := GST_FLOW_FLUSHING # results g\<rparr>"
  obtain st where st: "states g s = Some st" using gz_invD(2) [OF assms(1,3), of s] Cr_leaving by auto
  then have "put_state s st ?g = ?g" by (intro put_state_same) simp
  with assms(4) Cr_leaving have u: "unlock_state i s Idle (put_state s st ?g) = Some g'"
    by (simp add: gst_gz_img_src_create_def)
  have "fine_step ?g g'"
  proof (rule unlock_inv [of ?g i s st Idle st, OF _ _ _ _ u])
    show "running st" if "self_state ?g = Some s" using gz_invD(3) [OF assms(1), of s] that st by auto
  qed (use assms(1-3) st Cr_leaving in simp_all)
  then show ?thesis by (simp add: fine_step_def)
qed (use assms(4) in \<open>simp_all add: gst_gz_img_src_create_def\<close>)

text \<open>\<^verbatim>\<open>start\<close>, \<^verbatim>\<open>stop\<close> and \<^verbatim>\<open>finalize\<close>: their steps are fine too, but for the deletion of a state some other
  thread still refers to.\<close>

definition dangling_step :: "nat \<Rightarrow> GstGzImgSrc \<Rightarrow> GstGzImgSrc \<Rightarrow> bool" where
  "dangling_step i g g' \<longleftrightarrow> undefined_behaviour g' \<and>
     (\<exists>s j. j < length (threads g) \<and> j \<noteq> i \<and> refers (threads g ! j) = Some s \<and>
       (threads g ! i = St_deleting s \<or> threads g ! i = Sr_unpublished s))"

lemma start_inv:
  assumes "gz_inv g" "\<not> undefined_behaviour g" "i < length (threads g)" "gst_gz_img_src_start i a sub g = Some g'"
  shows "fine_step g g' \<or> dangling_step i g g'"
proof (cases "threads g ! i")
  case Idle
  with assms(4) have "with_lock (Some (if self_state g \<noteq> None then g\<lparr>start_results := True # start_results g\<rparr>
         else goto i Sr_checked g)) g = Some g'" by (simp add: gst_gz_img_src_start_def)
  then show ?thesis
  proof (cases rule: with_lock_cases)
    case 2
    moreover have "gz_inv (goto i Sr_checked g)" by (rule stroll_inv [OF assms(1,3)]) (simp_all add: Idle)
    ultimately show ?thesis using assms(1,2) by (auto simp: fine_step_def split: if_splits)
  qed (simp add: fine_step_def)
next
  case Sr_checked
  with assms(4) have a: "states g a = None" and g': "g' = goto i (Sr_created a) (put_state a new_SourceState g)"
    by (simp_all add: gst_gz_img_src_start_def split: if_splits)
  from new_inv [OF assms(1,3) Sr_checked a] assms(2) show ?thesis by (simp add: g' fine_step_def)
next
  case (Sr_created s)
  obtain st where st: "states g s = Some st" using gz_invD(2) [OF assms(1,3), of s] Sr_created by auto
  from assms(4) Sr_created have "with_lock (Some (goto i (Sr_published s) (g\<lparr>self_state := Some s\<rparr>))) g = Some g'"
    by (simp add: gst_gz_img_src_start_def)
  then show ?thesis
  proof (cases rule: with_lock_cases)
    case 2
    moreover have "gz_inv (goto i (Sr_published s) (g\<lparr>self_state := Some s\<rparr>))"
      by (rule repoint_inv [OF assms(1,3) st]) (simp_all add: Sr_created)
    ultimately show ?thesis using assms(2) by (auto simp: fine_step_def)
  qed (simp add: fine_step_def)
next
  case (Sr_published s)
  obtain st where st: "states g s = Some st" using gz_invD(2) [OF assms(1,3), of s] Sr_published by auto
  have "gz_inv (goto i Idle g)" "gz_inv (goto i (Sr_failed s) g)"
    by (rule goto_inv [OF assms(1,3), of s]; simp add: Sr_published)+
  with assms(2,4) Sr_published st show ?thesis by (auto simp: gst_gz_img_src_start_def fine_step_def split: if_splits)
next
  case (Sr_failed s)
  obtain st where st: "states g s = Some st" using gz_invD(2) [OF assms(1,3), of s] Sr_failed by auto
  from assms(4) Sr_failed have "with_lock (Some (goto i (Sr_unpublished s) (g\<lparr>self_state := None\<rparr>))) g = Some g'"
    by (simp add: gst_gz_img_src_start_def)
  then show ?thesis
  proof (cases rule: with_lock_cases)
    case 2
    moreover have "gz_inv (goto i (Sr_unpublished s) (g\<lparr>self_state := None\<rparr>))"
      by (rule repoint_inv [OF assms(1,3) st]) (simp_all add: Sr_failed)
    ultimately show ?thesis using assms(2) by (auto simp: fine_step_def)
  qed (simp add: fine_step_def)
next
  case (Sr_unpublished s)
  let ?g = "g\<lparr>start_results := False # start_results g\<rparr>"
  from assms(4) Sr_unpublished have d: "delete_state i s Idle ?g = Some g'" by (simp add: gst_gz_img_src_start_def)
  have "gz_inv g' \<and> \<not> undefined_behaviour g' \<or>
      undefined_behaviour g' \<and> (\<exists>j < length (threads ?g). j \<noteq> i \<and> refers (threads ?g ! j) = Some s)"
    by (rule delete_inv [OF _ _ _ d]) (use assms(1-3) Sr_unpublished in simp_all)
  then show ?thesis using Sr_unpublished by (auto simp: fine_step_def dangling_step_def)
qed (use assms(4) in \<open>simp_all add: gst_gz_img_src_start_def\<close>)

lemma swap_inv:
  assumes "gz_inv g" "\<not> undefined_behaviour g" "i < length (threads g)" "swap_state i p g = Some g'"
    and "refers (threads g ! i) = None" "refers p = None"
  shows "fine_step g g'"
  using assms(4) unfolding swap_state_def
proof (cases rule: with_lock_cases)
  case 2
  show ?thesis
  proof (cases "self_state g")
    case None
    with 2 stroll_inv [OF assms(1,3,5,6)] assms(2) show ?thesis by (auto simp: fine_step_def)
  next
    case (Some s)
    obtain st where st: "states g s = Some st" using gz_invD(3) [OF assms(1) Some] by blast
    have n: "counted (threads g ! i) = None" "holds (threads g ! i) = None" using assms(5) by (cases "threads g ! i"; simp)+
    have "gz_inv (goto i (St_swapped s) (g\<lparr>self_state := None\<rparr>))"
      by (rule repoint_inv [OF assms(1,3) st]) (simp_all add: assms(5) n Some)
    with 2 Some assms(2) show ?thesis by (auto simp: fine_step_def)
  qed
qed (simp add: fine_step_def)

lemma stop_inv:
  assumes "gz_inv g" "\<not> undefined_behaviour g" "i < length (threads g)" "length (threads g) < 2 ^ 32" "gst_gz_img_src_stop i g = Some g'"
  shows "fine_step g g' \<or> dangling_step i g g'"
proof (cases "threads g ! i")
  case (St_swapped s)
  with assms(5) have "lock_state i s (St_locked s) g = Some g'" by (simp add: gst_gz_img_src_stop_def)
  then have "fine_step g g'" by (rule lock_inv [OF assms(1-3)]) (simp_all add: St_swapped)
  then show ?thesis ..
next
  case (St_locked s)
  obtain st where st: "states g s = Some st" using gz_invD(2) [OF assms(1,3), of s] St_locked by auto
  with assms(5) St_locked have "unlock_state i s (St_marked s) (put_state s (st\<lparr>running := False, st_frame := None\<rparr>) g) = Some g'"
    by (simp add: gst_gz_img_src_stop_def)
  then have "fine_step g g'"
    by (rule unlock_inv [OF assms(1-3) st]) (use gz_invD(4) [OF assms(1,3), of s] in \<open>simp_all add: St_locked\<close>)
  then show ?thesis ..
next
  case (St_marked s)
  obtain st where st: "states g s = Some st" using gz_invD(2) [OF assms(1,3), of s] St_marked by auto
  from assms(5) St_marked st have "with_lock (if 0 < activeUsers st then None else Some (goto i (St_deleting s) g)) g = Some g'"
    by (simp add: gst_gz_img_src_stop_def)
  then have "fine_step g g'"
  proof (cases rule: with_lock_cases)
    case 2
    then have g': "g' = goto i (St_deleting s) g" and z: "activeUsers st = 0" by (simp_all add: word_gt_0 split: if_splits)
    have "users s (threads g) < 2 ^ 32" using users_le [of s "threads g"] assms(4) by linarith
    moreover have "(of_nat (users s (threads g)) :: u32) = 0" using gz_invD(1) [OF assms(1) st] z by simp
    ultimately have "users s (threads g) = 0" by (auto simp: word_of_nat_eq_0_iff dest: dvd_imp_le)
    from deleting_inv [OF assms(1,3) St_marked this] assms(2) show ?thesis by (simp add: g' fine_step_def)
  qed (simp add: fine_step_def)
  then show ?thesis ..
next
  case (St_deleting s)
  with assms(5) have d: "delete_state i s (if i \<in> finalizing g then Fi_stopped else Idle) g = Some g'"
    by (simp add: gst_gz_img_src_stop_def)
  have "refers (if i \<in> finalizing g then Fi_stopped else Idle) = None" by simp
  from delete_inv [OF assms(1-3) d _ _ _ this] St_deleting show ?thesis by (auto simp: fine_step_def dangling_step_def)
next
  case Idle
  with assms(5) have "swap_state i (if i \<in> finalizing g then Fi_stopped else Idle) g = Some g'" by (simp add: gst_gz_img_src_stop_def)
  from swap_inv [OF assms(1-3) this] Idle show ?thesis by simp
next
  case Fi_checked
  with assms(5) have "swap_state i (if i \<in> finalizing g then Fi_stopped else Idle) g = Some g'" by (simp add: gst_gz_img_src_stop_def)
  from swap_inv [OF assms(1-3) this] Fi_checked show ?thesis by simp
qed (use assms(5) in \<open>simp_all add: gst_gz_img_src_stop_def\<close>)

lemma finalize_inv:
  assumes "gz_inv g" "\<not> undefined_behaviour g" "i < length (threads g)" "length (threads g) < 2 ^ 32" "gst_gz_img_src_finalize i g = Some g'"
  shows "fine_step g g' \<or> dangling_step i g g'"
proof (cases "cleared g")
  case True
  with assms(5) show ?thesis by (auto simp: gst_gz_img_src_finalize_def fine_step_def)
next
  case c: False
  show ?thesis
  proof (cases "threads g ! i")
    case Idle
    have "gz_inv (goto i Fi_checked g)" "gz_inv (goto i Fi_stopped g)" by (rule stroll_inv [OF assms(1,3)]; simp add: Idle)+
    with c Idle assms(2,5) show ?thesis by (auto simp: gst_gz_img_src_finalize_def fine_step_def split: if_splits)
  next
    case Fi_checked
    with c assms(5) have "gst_gz_img_src_stop i g = Some g'" by (simp add: gst_gz_img_src_finalize_def)
    then show ?thesis by (rule stop_inv [OF assms(1-4)])
  next
    case Fi_stopped
    have "gz_inv (goto i Idle g)" by (rule stroll_inv [OF assms(1,3)]; simp add: Fi_stopped)
    with c Fi_stopped assms(2,5) show ?thesis by (auto simp: gst_gz_img_src_finalize_def fine_step_def)
  qed (use c assms(5) in \<open>simp_all add: gst_gz_img_src_finalize_def\<close>)
qed

text \<open>Which operation a step belongs to.\<close>

lemma advance_cases:
  assumes "advance i inp g = Some g'"
  obtains (callback_steps) now where "onGazeboImage i now g = Some g'"
    | (create_steps) sc al where "gst_gz_img_src_create i sc al g = Some g'"
    | (start_steps) a sub where "gst_gz_img_src_start i a sub g = Some g'"
    | (stop_steps) "gst_gz_img_src_stop i g = Some g'"
    | (finalize_steps) "gst_gz_img_src_finalize i g = Some g'"
    | (image) msg where "inp = OnImage msg" "threads g ! i = Idle" "acquireState i (\<lambda>s. Cb_acquired s msg) [] g = Some g'"
    | (create_call) "threads g ! i = Idle" "acquireState i Cr_acquired [GST_FLOW_FLUSHING] g = Some g'"
    | (property) propId v where "threads g ! i = Idle" "g' = gst_gz_img_src_set_property propId v g"
proof (cases inp)
  case (Continue now sc al)
  with assms callback_steps create_steps stop_steps finalize_steps show ?thesis by (cases "threads g ! i") auto
next
  case (StartStep a sub)
  with assms start_steps show ?thesis by (auto split: if_splits)
qed (use assms start_steps stop_steps finalize_steps image create_call property in \<open>auto split: if_splits\<close>)

lemma property_fields [simp]:
  "gz_inv (gst_gz_img_src_set_property propId v g) = gz_inv g"
  "undefined_behaviour (gst_gz_img_src_set_property propId v g) = undefined_behaviour g"
  "threads (gst_gz_img_src_set_property propId v g) = threads g" "states (gst_gz_img_src_set_property propId v g) = states g"
  "self_state (gst_gz_img_src_set_property propId v g) = self_state g" "results (gst_gz_img_src_set_property propId v g) = results g"
  "cleared (gst_gz_img_src_set_property propId v g) = cleared g" "finalizing (gst_gz_img_src_set_property propId v g) = finalizing g"
  by (cases propId; simp add: gst_gz_img_src_set_property_def)+

lemma advance_inv:
  assumes "gz_inv g" "\<not> undefined_behaviour g" "i < length (threads g)" "length (threads g) < 2 ^ 32" "advance i inp g = Some g'"
  shows "fine_step g g' \<or> dangling_step i g g'"
  using assms(5)
proof (cases rule: advance_cases)
  case (image msg)
  from acquire_inv [OF assms(1-3) image(3,2)] show ?thesis by simp
next
  case create_call
  from acquire_inv [OF assms(1-3) create_call(2,1)] show ?thesis by simp
next
  case (property propId v)
  with assms(1,2) show ?thesis by (simp add: fine_step_def)
qed (use onGazeboImage_inv [OF assms(1-3)] create_inv [OF assms(1-3)] start_inv [OF assms(1-3)] stop_inv [OF assms(1-4)]
    finalize_inv [OF assms(1-4)] in blast)+

text \<open>The number of threads stays.\<close>

abbreviation same_threads :: "GstGzImgSrc \<Rightarrow> GstGzImgSrc \<Rightarrow> bool" where
  "same_threads g g' \<equiv> length (threads g') = length (threads g)"

lemma access_length:
  "access s f h = Some g' \<Longrightarrow> same_threads g h \<Longrightarrow> (\<And>st. states h s = Some st \<Longrightarrow> f st = Some g' \<Longrightarrow> same_threads g g') \<Longrightarrow> same_threads g g'"
  by (auto simp: access_def split: option.splits)

lemma with_lock_length: "with_lock f h = Some g' \<Longrightarrow> same_threads g h \<Longrightarrow> (f = Some g' \<Longrightarrow> same_threads g g') \<Longrightarrow> same_threads g g'"
  by (auto simp: with_lock_def split: if_splits)

lemma parts_length:
  "releaseState i s p h = Some g' \<Longrightarrow> same_threads g h \<Longrightarrow> same_threads g g'"
  "lock_state i s p h = Some g' \<Longrightarrow> same_threads g h \<Longrightarrow> same_threads g g'"
  "unlock_state i s p h = Some g' \<Longrightarrow> same_threads g h \<Longrightarrow> same_threads g g'"
  "acquireState i nxt none h = Some g' \<Longrightarrow> same_threads g h \<Longrightarrow> same_threads g g'"
  "delete_state i s p h = Some g' \<Longrightarrow> same_threads g h \<Longrightarrow> same_threads g g'"
  "swap_state i p h = Some g' \<Longrightarrow> same_threads g h \<Longrightarrow> same_threads g g'"
  by (auto simp: releaseState_def lock_state_def unlock_state_def acquireState_def delete_state_def swap_state_def
      elim!: access_length with_lock_length split: option.splits if_splits)

lemma advance_length: "advance i inp g = Some g' \<Longrightarrow> length (threads g') = length (threads g)"
proof (erule advance_cases)
  show "onGazeboImage i now g = Some g' \<Longrightarrow> same_threads g g'" for now
    by (cases "threads g ! i") (auto simp: onGazeboImage_def elim!: access_length parts_length split: option.splits if_splits)
  show "gst_gz_img_src_create i sc al g = Some g' \<Longrightarrow> same_threads g g'" for sc al
    by (cases "threads g ! i") (auto simp: gst_gz_img_src_create_def elim!: access_length parts_length split: option.splits if_splits)
  show "gst_gz_img_src_start i a sub g = Some g' \<Longrightarrow> same_threads g g'" for a sub
    by (cases "threads g ! i") (auto simp: gst_gz_img_src_start_def elim!: access_length with_lock_length parts_length split: if_splits)
  have stop: "gst_gz_img_src_stop i g = Some g' \<Longrightarrow> same_threads g g'"
    by (cases "threads g ! i") (auto simp: gst_gz_img_src_stop_def elim!: access_length with_lock_length parts_length split: if_splits)
  then show "gst_gz_img_src_stop i g = Some g' \<Longrightarrow> same_threads g g'" .
  show "gst_gz_img_src_finalize i g = Some g' \<Longrightarrow> same_threads g g'"
    using stop by (cases "threads g ! i") (auto simp: gst_gz_img_src_finalize_def split: if_splits)
qed (auto elim: parts_length)

lemma gz_inv_init: "gz_inv (gst_gz_img_src_init n)"
  by (rule gz_invI) (simp_all add: gst_gz_img_src_init_def)

lemma gz_reachable:
  assumes "gz_step\<^sup>*\<^sup>* (gst_gz_img_src_init n) g" "n < 2 ^ 32"
  shows "length (threads g) = n \<and> (undefined_behaviour g \<or> gz_inv g)"
  using assms(1)
proof (induction rule: rtranclp_induct)
  case base
  then show ?case using gz_inv_init by (simp add: gst_gz_img_src_init_def)
next
  case (step g g')
  from step(2) obtain i inp where s: "i < length (threads g)" "\<not> undefined_behaviour g" "advance i inp g = Some g'"
    by (auto elim: gz_stepE)
  with step.IH have inv: "gz_inv g" "length (threads g) < 2 ^ 32" using assms(2) by auto
  have "length (threads g') = n" using advance_length [OF s(3)] step.IH by simp
  moreover have "undefined_behaviour g' \<or> gz_inv g'"
    using advance_inv [OF inv(1) s(2,1) inv(2) s(3)] by (auto simp: fine_step_def dangling_step_def)
  ultimately show ?case by blast
qed

lemma lawful_gz_step: "lawful_step g g' \<Longrightarrow> gz_step g g'"
  by (auto elim!: lawful_stepE intro: gz_step.step)

lemma lawful_gz_steps: "lawful_step\<^sup>*\<^sup>* g g' \<Longrightarrow> gz_step\<^sup>*\<^sup>* g g'"
  using lawful_gz_step mono_rtranclp by metis

text \<open>A schedule: the calls and steps of the threads, executed; and the schedules whose calls keep the contract.\<close>

fun run_schedule :: "(nat \<times> input) list \<Rightarrow> GstGzImgSrc \<Rightarrow> GstGzImgSrc option" where
  "run_schedule [] g = Some g"
| "run_schedule ((i, inp) # es) g = (if length (threads g) \<le> i \<or> undefined_behaviour g then None
     else case advance i inp g of None \<Rightarrow> None | Some g' \<Rightarrow> run_schedule es g')"

lemma run_schedule_steps: "run_schedule es g = Some g' \<Longrightarrow> gz_step\<^sup>*\<^sup>* g g'"
proof (induction es g rule: run_schedule.induct)
  case (2 i inp es g)
  then obtain g1 where "i < length (threads g)" "\<not> undefined_behaviour g" "advance i inp g = Some g1" "run_schedule es g1 = Some g'"
    by (auto split: if_splits option.splits)
  with 2 show ?case by (auto intro: converse_rtranclp_into_rtranclp gz_step.step)
qed simp

fun lawful_schedule :: "(nat \<times> input) list \<Rightarrow> GstGzImgSrc \<Rightarrow> bool" where
  "lawful_schedule [] g = True"
| "lawful_schedule ((i, inp) # es) g = (permitted inp g \<and>
     (case advance i inp g of None \<Rightarrow> True | Some g' \<Rightarrow> lawful_schedule es g'))"

lemma lawful_schedule_steps: "run_schedule es g = Some g' \<Longrightarrow> lawful_schedule es g \<Longrightarrow> lawful_step\<^sup>*\<^sup>* g g'"
proof (induction es g rule: run_schedule.induct)
  case (2 i inp es g)
  then obtain g1 where "i < length (threads g)" "\<not> undefined_behaviour g" "advance i inp g = Some g1" "run_schedule es g1 = Some g'"
    "permitted inp g" "lawful_schedule es g1"
    by (auto split: if_splits option.splits)
  with 2 show ?case by (auto intro: converse_rtranclp_into_rtranclp lawful_step.lawful)
qed simp

definition cont :: input where
  "cont = Continue 5 (\<lambda>_. True) True"

text \<open>A whole \<^verbatim>\<open>start\<close> of thread \<open>i\<close> that gets the address \<open>a\<close>, with the answer of \<^verbatim>\<open>Subscribe\<close>.\<close>

definition started :: "nat \<Rightarrow> nat \<Rightarrow> bool \<Rightarrow> (nat \<times> input) list" where
  "started i a ok = [(i, Start), (i, StartStep a (\<lambda>_. ok)), (i, StartStep a (\<lambda>_. ok)), (i, StartStep a (\<lambda>_. ok))]"

section \<open>Properties\<close>

text \<open>C23: in every interleaving of the steps of any number of threads inside start, stop, create, the image callback,
  property changes and finalize, the user count protects the state.  A thread with a pointer to a state that it is
  going to use refers to a live one, whose count is the number of its users and whose owner is the thread that
  holds its mutex.  Until the element's lock is cleared a step has undefined behaviour only in two places.  \<^verbatim>\<open>stop\<close>
  deletes a state another thread still refers to: one that is leaving it through its \<^verbatim>\<open>!running\<close> branch, or a
  \<^verbatim>\<open>start\<close> that has not returned.  And a \<^verbatim>\<open>start\<close> whose subscription failed deletes the state it had published
  while another thread refers to it: it does not wait for the users.\<close>

theorem user_count_protects:
  assumes "n < 2 ^ 32" "gz_step\<^sup>*\<^sup>* (gst_gz_img_src_init n) g" "\<not> undefined_behaviour g"
  shows "(\<forall>i s. i < n \<and> refers (threads g ! i) = Some s \<longrightarrow>
      (\<exists>st. states g s = Some st \<and> (holds (threads g ! i) = Some s \<longleftrightarrow> mutex_owner st = Some i) \<and>
        activeUsers st = of_nat (users s (threads g)))) \<and>
    (\<forall>i inp g'. i < n \<and> \<not> cleared g \<and> advance i inp g = Some g' \<and> undefined_behaviour g' \<longrightarrow>
      (\<exists>s j. j < n \<and> j \<noteq> i \<and>
        (threads g ! i = St_deleting s \<and> (leaving (threads g ! j) = Some s \<or> starting (threads g ! j) = Some s) \<or>
         threads g ! i = Sr_unpublished s \<and> refers (threads g ! j) = Some s)))"
proof -
  have len: "length (threads g) = n" and inv: "gz_inv g" using gz_reachable [OF assms(2,1)] assms(3) by auto
  have small: "length (threads g) < 2 ^ 32" using len assms(1) by simp
  note D = gz_invD [OF inv, unfolded len]
  have "\<exists>st. states g s = Some st \<and> (holds (threads g ! i) = Some s \<longleftrightarrow> mutex_owner st = Some i) \<and> activeUsers st = of_nat (users s (threads g))"
    if i: "i < n" and r: "refers (threads g ! i) = Some s" for i s
  proof -
    obtain st where st: "states g s = Some st" using D(2) [OF i r] by blast
    with D(1) [OF st] D(8) [OF st, of i] i show ?thesis by blast
  qed
  moreover have "\<exists>s j. j < n \<and> j \<noteq> i \<and>
        (threads g ! i = St_deleting s \<and> (leaving (threads g ! j) = Some s \<or> starting (threads g ! j) = Some s) \<or>
         threads g ! i = Sr_unpublished s \<and> refers (threads g ! j) = Some s)"
    if i: "i < n" and c: "\<not> cleared g" and a: "advance i inp g = Some g'" and u: "undefined_behaviour g'" for i inp g'
  proof -
    have "dangling_step i g g'" using advance_inv [OF inv assms(3) _ small a] i len c u by (auto simp: fine_step_def)
    then obtain s j where j: "j < n" "j \<noteq> i" "refers (threads g ! j) = Some s" "threads g ! i = St_deleting s \<or> threads g ! i = Sr_unpublished s"
      unfolding dangling_step_def len by blast
    have "leaving (threads g ! j) = Some s \<or> starting (threads g ! j) = Some s" if d: "threads g ! i = St_deleting s"
    proof -
      have "counted (threads g ! j) \<noteq> Some s" using users_pos [of j "threads g" s] D(7) [OF i d] j(1) len by auto
      moreover have "stopping (threads g ! j) \<noteq> Some s" using D(5) [OF i j(1), of s] d j(2) by auto
      ultimately show ?thesis using j(3) refers_cases by blast
    qed
    with j show ?thesis by blast
  qed
  ultimately show ?thesis by blast
qed

text \<open>Thread 0 delivers an image while thread 1 stops the element.\<close>

definition stop_race :: "(nat \<times> input) list" where
  "stop_race = started 0 42 True @ [(0, OnImage grey_pixel), (0, cont), (1, Stop), (1, cont), (1, cont),
     (0, cont), (0, cont), (1, cont), (1, cont)]"

lemmas gz_eval = gst_gz_img_src_init_def acquireState_def gst_gz_img_src_start_def onGazeboImage_def gst_gz_img_src_create_def
  gst_gz_img_src_stop_def gst_gz_img_src_finalize_def swap_state_def with_lock_def delete_state_def releaseState_def
  lock_state_def unlock_state_def goto_def put_state_def access_def started_def cont_def

text \<open>C35: the \<^verbatim>\<open>!running\<close> branch of the image callback releases the state before its lock guard unlocks the
  state's mutex: there is a schedule of one image and one \<^verbatim>\<open>stop\<close>, within the callers' contract, in which \<^verbatim>\<open>stop\<close>
  sees no user and deletes the state while the callback still holds its mutex and is about to unlock it.\<close>

theorem stop_deletes_locked_state:
  "\<exists>g. run_schedule (butlast stop_race) (gst_gz_img_src_init 2) = Some g \<and> gz_step\<^sup>*\<^sup>* (gst_gz_img_src_init 2) g \<and>
     lawful_step\<^sup>*\<^sup>* (gst_gz_img_src_init 2) g \<and>
     \<not> undefined_behaviour g \<and> threads g = [Cb_leaving 42, St_deleting 42] \<and>
     (\<exists>st. states g 42 = Some st \<and> mutex_owner st = Some 0 \<and> activeUsers st = 0) \<and>
     (\<exists>g'. advance 1 cont g = Some g' \<and> undefined_behaviour g' \<and> states g' 42 = None \<and> threads g' ! 0 = Cb_leaving 42)"
proof -
  have "\<exists>g. run_schedule (butlast stop_race) (gst_gz_img_src_init 2) = Some g \<and>
     lawful_schedule (butlast stop_race) (gst_gz_img_src_init 2) \<and>
     \<not> undefined_behaviour g \<and> threads g = [Cb_leaving 42, St_deleting 42] \<and> finalizing g = {} \<and>
     (\<exists>st. states g 42 = Some st \<and> mutex_owner st = Some 0 \<and> activeUsers st = 0)"
    using grey_pixel_accepted by (simp add: stop_race_def gz_eval numeral_2_eq_2 grey_pixel_def)
  then obtain g where g: "run_schedule (butlast stop_race) (gst_gz_img_src_init 2) = Some g"
    "lawful_schedule (butlast stop_race) (gst_gz_img_src_init 2)" "\<not> undefined_behaviour g"
    "threads g = [Cb_leaving 42, St_deleting 42]" "finalizing g = {}"
    "\<exists>st. states g 42 = Some st \<and> mutex_owner st = Some 0 \<and> activeUsers st = 0" by blast
  then have "\<exists>g'. advance 1 cont g = Some g' \<and> undefined_behaviour g' \<and> states g' 42 = None \<and> threads g' ! 0 = Cb_leaving 42"
    by (auto simp: cont_def gst_gz_img_src_stop_def delete_state_def goto_def)
  with g run_schedule_steps [OF g(1)] lawful_schedule_steps [OF g(1,2)] show ?thesis by blast
qed

text \<open>A \<^verbatim>\<open>create\<close> that comes between the publication of a state and the failure of the subscription waits on a state
  that \<^verbatim>\<open>start\<close> then deletes.\<close>

definition start_race :: "(nat \<times> input) list" where
  "start_race = [(0, Start), (0, StartStep 42 (\<lambda>_. False)), (0, StartStep 42 (\<lambda>_. False)), (1, Create), (1, cont), (1, cont),
     (0, StartStep 42 (\<lambda>_. False)), (0, StartStep 42 (\<lambda>_. False)), (0, StartStep 42 (\<lambda>_. False))]"

lemma failed_start_deletes_used_state:
  "\<exists>g. run_schedule start_race (gst_gz_img_src_init 2) = Some g \<and> lawful_schedule start_race (gst_gz_img_src_init 2) \<and>
     undefined_behaviour g \<and> threads g = [Idle, Cr_waiting 42] \<and> states g 42 = None \<and> start_results g = [False]"
  by (simp add: start_race_def gz_eval numeral_2_eq_2 new_SourceState_def)

theorem user_count_protects_witness:
  "\<exists>g. gz_step\<^sup>*\<^sup>* (gst_gz_img_src_init 1) g \<and> threads g ! 0 = Cb_acquired 42 grey_pixel \<and>
     (\<exists>st. states g 42 = Some st \<and> activeUsers st = of_nat (users 42 (threads g)))"
proof -
  let ?es = "started 0 42 True @ [(0, OnImage grey_pixel)]"
  have "\<exists>g. run_schedule ?es (gst_gz_img_src_init 1) = Some g \<and> \<not> undefined_behaviour g \<and> threads g = [Cb_acquired 42 grey_pixel]"
    by (simp add: gz_eval)
  then obtain g where r: "run_schedule ?es (gst_gz_img_src_init 1) = Some g"
    and g: "\<not> undefined_behaviour g" "threads g = [Cb_acquired 42 grey_pixel]" by blast
  from user_count_protects [OF _ run_schedule_steps [OF r] g(1), THEN conjunct1] g(2) run_schedule_steps [OF r]
  show ?thesis by fastforce
qed

end
