(* ===== verification/GzImgStop.thy ===== *)
theory GzImgStop
  imports GzImgThreads
begin

text \<open>
  How long \<^verbatim>\<open>gst_gz_img_src_stop\<close> waits for the users of the state it takes away: they can always go on, every
  step of theirs brings them nearer to the end, and nothing stays allocated afterwards.
\<close>

section \<open>The work left on a state\<close>

text \<open>The threads that use a state, also those that leave it uncounted.\<close>

definition on :: "nat \<Rightarrow> pc \<Rightarrow> bool" where
  "on s p \<longleftrightarrow> counted p = Some s \<or> leaving p = Some s"

text \<open>The steps a thread has left once the state is not running.\<close>

fun rank :: "pc \<Rightarrow> nat" where
  "rank (Cb_acquired s m) = 4" | "rank (Cb_checked s f) = 3" | "rank (Cb_locked s f) = 2" | "rank (Cb_rejected s) = 1"
| "rank (Cb_stored s) = 1" | "rank (Cb_leaving s) = 1" | "rank (Cr_acquired s) = 3" | "rank (Cr_waiting s) = 3"
| "rank (Cr_locked s) = 2" | "rank (Cr_taken s f) = 1" | "rank (Cr_leaving s) = 1" | "rank _ = 0"

definition left_on :: "nat \<Rightarrow> pc \<Rightarrow> nat" where
  "left_on s p = (if on s p then rank p else 0)"

definition work :: "nat \<Rightarrow> GstGzImgSrc \<Rightarrow> nat" where
  "work s g = sum_list (map (left_on s) (threads g))"

lemma left_on_le: "left_on s p \<le> 4"
  by (cases p) (simp_all add: left_on_def)

lemma left_on_pos: "on s p \<Longrightarrow> 0 < left_on s p"
  by (cases p) (simp_all add: left_on_def on_def)

lemma work_le: "work s g \<le> 4 * length (threads g)"
proof -
  have "sum_list (map (left_on s) ts) \<le> 4 * length ts" for ts
  proof (induction ts)
    case (Cons p ts)
    then show ?case using left_on_le [of s p] by simp
  qed simp
  then show ?thesis by (simp add: work_def)
qed

lemma work_step: "i < length (threads g) \<Longrightarrow> threads g' = (threads g)[i := p] \<Longrightarrow>
    work s g' + left_on s (threads g ! i) = work s g + left_on s p"
  unfolding work_def using elem_le_sum_list [of i "map (left_on s) (threads g)"]
  by (simp add: map_update sum_list_update)

section \<open>Where a step takes a thread\<close>

lemma with_lock_defined: "with_lock f g = Some g' \<Longrightarrow> \<not> undefined_behaviour g' \<Longrightarrow> f = Some g'"
  by (auto simp: with_lock_def split: if_splits)

lemma release_threads: "releaseState i s p g = Some g' \<Longrightarrow> \<not> undefined_behaviour g' \<Longrightarrow> threads g' = (threads g)[i := p]"
  by (auto simp: releaseState_def access_def goto_def put_state_def dest!: with_lock_defined split: option.splits)

lemma lock_threads: "lock_state i s p g = Some g' \<Longrightarrow> \<not> undefined_behaviour g' \<Longrightarrow> threads g' = (threads g)[i := p]"
  by (auto simp: lock_state_def access_def goto_def put_state_def split: option.splits)

lemma unlock_threads: "unlock_state i s p g = Some g' \<Longrightarrow> \<not> undefined_behaviour g' \<Longrightarrow> threads g' = (threads g)[i := p]"
  by (auto simp: unlock_state_def access_def goto_def put_state_def split: option.splits if_splits)

lemma acquire_threads: "acquireState i nxt none g = Some g' \<Longrightarrow> \<not> undefined_behaviour g' \<Longrightarrow>
    threads g' = threads g \<or> (\<exists>s. self_state g = Some s \<and> threads g' = (threads g)[i := nxt s])"
  by (auto simp: acquireState_def access_def goto_def put_state_def dest!: with_lock_defined split: option.splits)

lemma delete_threads: "delete_state i s p g = Some g' \<Longrightarrow> \<not> undefined_behaviour g' \<Longrightarrow> threads g' = (threads g)[i := p]"
  by (auto simp: delete_state_def access_def goto_def split: option.splits)

lemma swap_threads: "swap_state i p g = Some g' \<Longrightarrow> \<not> undefined_behaviour g' \<Longrightarrow>
    (\<exists>a. self_state g = Some a \<and> threads g' = (threads g)[i := St_swapped a] \<and> states g' = states g \<and> self_state g' = None) \<or>
    self_state g = None \<and> threads g' = (threads g)[i := p] \<and> states g' = states g \<and> self_state g' = None"
  by (auto simp: swap_state_def goto_def dest!: with_lock_defined split: option.splits)

text \<open>A state that was taken away and stopped: no thread comes to it, and the threads on it go towards the
  exit.\<close>

definition retired :: "nat \<Rightarrow> GstGzImgSrc \<Rightarrow> bool" where
  "retired s g \<longleftrightarrow> self_state g \<noteq> Some s \<and> (\<exists>st. states g s = Some st \<and> \<not> running st)"

definition goes :: "nat \<Rightarrow> nat \<Rightarrow> GstGzImgSrc \<Rightarrow> GstGzImgSrc \<Rightarrow> bool" where
  "goes s j g g' \<longleftrightarrow> (\<exists>p. threads g' = (threads g)[j := p] \<and>
     (if on s (threads g ! j) then left_on s p < left_on s (threads g ! j) else \<not> on s p) \<and>
     stopping p = None \<and> stopping (threads g ! j) = None)"

lemma goesI:
  assumes "threads g' = (threads g)[j := p]" "on s p \<Longrightarrow> on s (threads g ! j) \<and> rank p < rank (threads g ! j)"
    and "stopping p = None" "stopping (threads g ! j) = None"
  shows "goes s j g g'"
  unfolding goes_def using assms left_on_pos [of s "threads g ! j"] by (intro exI [of _ p]) (auto simp: left_on_def)

lemma callback_goes:
  assumes "onGazeboImage j now g = Some g'" "\<not> undefined_behaviour g'" "retired s g"
  shows "goes s j g g'"
proof (cases "threads g ! j")
  case (Cb_acquired a m)
  with assms(1) have "threads g' = (threads g)[j := Cb_rejected a] \<or> (\<exists>f. threads g' = (threads g)[j := Cb_checked a f])"
    by (auto simp: onGazeboImage_def goto_def split: option.splits if_splits)
  then show ?thesis by (elim disjE exE; intro goesI) (auto simp: Cb_acquired on_def)
next
  case (Cb_rejected a)
  with assms(1) have "threads g' = (threads g)[j := Idle]" by (simp add: onGazeboImage_def release_threads [OF _ assms(2)])
  then show ?thesis by (rule goesI) (auto simp: Cb_rejected on_def)
next
  case (Cb_checked a f)
  with assms(1) have "threads g' = (threads g)[j := Cb_locked a f]" by (simp add: onGazeboImage_def lock_threads [OF _ assms(2)])
  then show ?thesis by (rule goesI) (auto simp: Cb_checked on_def)
next
  case (Cb_locked a f)
  with assms(1) have "access a (\<lambda>st. if \<not> running st then releaseState j a (Cb_leaving a) g
         else unlock_state j a (Cb_stored a) (put_state a (store_frame f st) g)) g = Some g'" by (simp add: onGazeboImage_def)
  from access_defined [OF this assms(2)] obtain st where st: "states g a = Some st"
    and b: "(if \<not> running st then releaseState j a (Cb_leaving a) g
         else unlock_state j a (Cb_stored a) (put_state a (store_frame f st) g)) = Some g'" by blast
  show ?thesis
  proof (cases "running st")
    case True
    with b have "threads g' = (threads g)[j := Cb_stored a]" using unlock_threads [OF _ assms(2)] by auto
    moreover have "a \<noteq> s" using True st assms(3) by (auto simp: retired_def)
    ultimately show ?thesis by (intro goesI) (auto simp: Cb_locked on_def)
  next
    case False
    with b have "threads g' = (threads g)[j := Cb_leaving a]" using release_threads [OF _ assms(2)] by auto
    then show ?thesis by (rule goesI) (auto simp: Cb_locked on_def)
  qed
next
  case (Cb_stored a)
  with assms(1) have "threads g' = (threads g)[j := Idle]" by (simp add: onGazeboImage_def release_threads [OF _ assms(2)])
  then show ?thesis by (rule goesI) (auto simp: Cb_stored on_def)
next
  case (Cb_leaving a)
  with assms(1) have "threads g' = (threads g)[j := Idle]" by (simp add: onGazeboImage_def unlock_threads [OF _ assms(2)])
  then show ?thesis by (rule goesI) (auto simp: Cb_leaving on_def)
qed (use assms(1) in \<open>simp_all add: onGazeboImage_def\<close>)

lemma create_goes:
  assumes "gst_gz_img_src_create j sc al g = Some g'" "\<not> undefined_behaviour g'" "retired s g"
  shows "goes s j g g'"
proof (cases "threads g ! j")
  case (Cr_acquired a)
  with assms(1) have "threads g' = (threads g)[j := Cr_locked a]" by (simp add: gst_gz_img_src_create_def lock_threads [OF _ assms(2)])
  then show ?thesis by (rule goesI) (auto simp: Cr_acquired on_def)
next
  case (Cr_waiting a)
  with assms(1) have "threads g' = (threads g)[j := Cr_locked a]" by (simp add: gst_gz_img_src_create_def lock_threads [OF _ assms(2)])
  then show ?thesis by (rule goesI) (auto simp: Cr_waiting on_def)
next
  case (Cr_locked a)
  with assms(1) have "access a (\<lambda>st. if running st then (case st_frame st of
             None \<Rightarrow> unlock_state j a (Cr_waiting a) g
           | Some frame \<Rightarrow> unlock_state j a (Cr_taken a frame) (put_state a (st\<lparr>st_frame := None\<rparr>) g))
         else releaseState j a (Cr_leaving a) g) g = Some g'" by (simp add: gst_gz_img_src_create_def)
  from access_defined [OF this assms(2)] obtain st where st: "states g a = Some st"
    and b: "(if running st then (case st_frame st of
             None \<Rightarrow> unlock_state j a (Cr_waiting a) g
           | Some frame \<Rightarrow> unlock_state j a (Cr_taken a frame) (put_state a (st\<lparr>st_frame := None\<rparr>) g))
         else releaseState j a (Cr_leaving a) g) = Some g'" by blast
  show ?thesis
  proof (cases "running st")
    case True
    with b have "threads g' = (threads g)[j := Cr_waiting a] \<or> (\<exists>f. threads g' = (threads g)[j := Cr_taken a f])"
      by (cases "st_frame st") (auto dest!: unlock_threads [OF _ assms(2)])
    moreover have "a \<noteq> s" using True st assms(3) by (auto simp: retired_def)
    ultimately show ?thesis by (elim disjE exE; intro goesI) (auto simp: Cr_locked on_def)
  next
    case False
    with b have "threads g' = (threads g)[j := Cr_leaving a]" using release_threads [OF _ assms(2)] by auto
    then show ?thesis by (rule goesI) (auto simp: Cr_locked on_def)
  qed
next
  case (Cr_taken a f)
  with assms(1) have "threads g' = (threads g)[j := Idle]"
    by (auto simp: gst_gz_img_src_create_def dest!: release_threads [OF _ assms(2)])
  then show ?thesis by (rule goesI) (auto simp: Cr_taken on_def)
next
  case (Cr_leaving a)
  with assms(1) have "threads g' = (threads g)[j := Idle]"
    by (auto simp: gst_gz_img_src_create_def dest!: unlock_threads [OF _ assms(2)])
  then show ?thesis by (rule goesI) (auto simp: Cr_leaving on_def)
qed (use assms(1) in \<open>simp_all add: gst_gz_img_src_create_def\<close>)

text \<open>The steps of \<^verbatim>\<open>start\<close>, \<^verbatim>\<open>stop\<close> and \<^verbatim>\<open>finalize\<close> keep off the count.\<close>

lemma stop_moved:
  assumes "gst_gz_img_src_stop j g = Some g'" "\<not> undefined_behaviour g'"
  shows "(\<exists>a. stopping (threads g ! j) = Some a \<and> threads g' = (threads g)[j :=
      (case threads g ! j of St_swapped a \<Rightarrow> St_locked a | St_locked a \<Rightarrow> St_marked a | St_marked a \<Rightarrow> St_deleting a
        | _ \<Rightarrow> if j \<in> finalizing g then Fi_stopped else Idle)]) \<or>
    (threads g ! j = Idle \<or> threads g ! j = Fi_checked) \<and>
      swap_state j (if j \<in> finalizing g then Fi_stopped else Idle) g = Some g'"
proof (cases "threads g ! j")
  case (St_locked a)
  with assms(1) show ?thesis
    by (auto simp: gst_gz_img_src_stop_def dest!: access_defined [OF _ assms(2)] unlock_threads [OF _ assms(2)])
next
  case (St_marked a)
  with assms(1) show ?thesis
    by (auto simp: gst_gz_img_src_stop_def goto_def dest!: with_lock_defined [OF _ assms(2)] access_defined [OF _ assms(2)] split: if_splits)
next
  case (St_deleting a)
  with assms(1) show ?thesis by (auto simp: gst_gz_img_src_stop_def dest!: delete_threads [OF _ assms(2)])
qed (use assms in \<open>auto simp: gst_gz_img_src_stop_def dest!: lock_threads\<close>)

lemma start_moved:
  assumes "gst_gz_img_src_start j a sub g = Some g'" "\<not> undefined_behaviour g'"
  shows "\<exists>p. threads g' = (threads g)[j := p] \<and> counted p = None \<and> leaving p = None \<and> stopping p = None \<and>
    counted (threads g ! j) = None \<and> leaving (threads g ! j) = None"
proof -
  note I = exI [of _ Idle] exI [of _ Sr_checked] exI [of _ "Sr_created a"]
  show ?thesis
  proof (cases "threads g ! j")
    case Idle
    then have "threads g' = threads g \<or> threads g' = (threads g)[j := Sr_checked]"
      using assms(1) by (auto simp: gst_gz_img_src_start_def dest!: with_lock_defined [OF _ assms(2)] split: if_splits)
    then show ?thesis
    proof
      assume "threads g' = threads g"
      with Idle show ?thesis by (intro exI [of _ Idle]) (metis counted.simps(10) leaving.simps(3) list_update_id stopping.simps(5))
    qed (use Idle in auto)
  next
    case Sr_checked
    with assms(1) show ?thesis by (auto simp: gst_gz_img_src_start_def split: if_splits intro!: exI [of _ "Sr_created a"])
  next
    case (Sr_created s)
    with assms(1) show ?thesis
      by (auto simp: gst_gz_img_src_start_def dest!: with_lock_defined [OF _ assms(2)] intro!: exI [of _ "Sr_published s"])
  next
    case (Sr_published s)
    with assms(1) have "threads g' = (threads g)[j := Idle] \<or> threads g' = (threads g)[j := Sr_failed s]"
      by (auto simp: gst_gz_img_src_start_def dest!: access_defined [OF _ assms(2)] split: if_splits)
    with Sr_published show ?thesis by auto
  next
    case (Sr_failed s)
    with assms(1) show ?thesis
      by (auto simp: gst_gz_img_src_start_def dest!: with_lock_defined [OF _ assms(2)] intro!: exI [of _ "Sr_unpublished s"])
  next
    case (Sr_unpublished s)
    with assms(1) have "threads g' = (threads g)[j := Idle]"
      by (auto simp: gst_gz_img_src_start_def dest!: delete_threads [OF _ assms(2)])
    with Sr_unpublished show ?thesis by auto
  qed (use assms(1) in \<open>simp_all add: gst_gz_img_src_start_def\<close>)
qed

text \<open>A step of \<^verbatim>\<open>finalize\<close> is one of \<^verbatim>\<open>stop\<close> or between two points without a state.\<close>

lemma finalize_moved:
  assumes "gst_gz_img_src_finalize j g = Some g'" "\<not> undefined_behaviour g'"
  shows "gst_gz_img_src_stop j g = Some g' \<and> threads g ! j = Fi_checked \<or>
    (\<exists>p. threads g' = (threads g)[j := p] \<and> states g' = states g \<and> self_state g' = self_state g \<and>
      (threads g ! j = Idle \<and> (p = Fi_checked \<or> p = Fi_stopped \<and> self_state g = None) \<and> cleared g' = cleared g \<or>
       threads g ! j = Fi_stopped \<and> p = Idle \<and> cleared g'))"
  using assms by (cases "threads g ! j") (auto simp: gst_gz_img_src_finalize_def split: if_splits)

text \<open>The effect of any step of a thread that is not stopping \<open>s\<close> on the work left.\<close>

definition lightens :: "nat \<Rightarrow> nat \<Rightarrow> GstGzImgSrc \<Rightarrow> GstGzImgSrc \<Rightarrow> bool" where
  "lightens s j g g' \<longleftrightarrow> (\<exists>p. threads g' = (threads g)[j := p] \<and>
     (if on s (threads g ! j) then left_on s p < left_on s (threads g ! j) else \<not> on s p))"

lemma goes_lightens: "goes s j g g' \<Longrightarrow> lightens s j g g'"
  unfolding goes_def lightens_def by blast

lemma lightens_same: "threads g' = threads g \<Longrightarrow> threads g ! j = Idle \<Longrightarrow> lightens s j g g'"
  unfolding lightens_def by (intro exI [of _ Idle]) (metis counted.simps(10) leaving.simps(3) list_update_id on_def option.distinct(1))

lemma lightensI: "threads g' = (threads g)[j := p] \<Longrightarrow> \<not> on s (threads g ! j) \<Longrightarrow> \<not> on s p \<Longrightarrow> lightens s j g g'"
  unfolding lightens_def by auto

lemma acquire_lightens:
  assumes "acquireState j nxt none g = Some g'" "\<not> undefined_behaviour g'" "retired s g" "threads g ! j = Idle"
    and "\<And>a. a \<noteq> s \<Longrightarrow> \<not> on s (nxt a)"
  shows "lightens s j g g'"
  using acquire_threads [OF assms(1,2)]
proof (elim disjE exE conjE)
  assume "threads g' = threads g"
  then show ?thesis by (rule lightens_same [OF _ assms(4)])
next
  fix a assume a: "self_state g = Some a" "threads g' = (threads g)[j := nxt a]"
  with assms(3) have "a \<noteq> s" by (auto simp: retired_def)
  with a(2) assms(4,5) show ?thesis by (intro lightensI) (auto simp: on_def)
qed

lemma stop_lightens:
  assumes "gst_gz_img_src_stop j g = Some g'" "\<not> undefined_behaviour g'"
  shows "lightens s j g g'"
  using stop_moved [OF assms]
proof (elim disjE exE conjE)
  fix a assume "stopping (threads g ! j) = Some a" "threads g' = (threads g)[j :=
      (case threads g ! j of St_swapped a \<Rightarrow> St_locked a | St_locked a \<Rightarrow> St_marked a | St_marked a \<Rightarrow> St_deleting a
        | _ \<Rightarrow> if j \<in> finalizing g then Fi_stopped else Idle)]"
  then show ?thesis by (cases "threads g ! j") (auto intro!: lightensI simp: on_def split: if_splits)
qed (auto dest!: swap_threads [OF _ assms(2)] intro!: lightensI simp: on_def split: if_splits)

lemma advance_lightens:
  assumes "advance j inp g = Some g'" "\<not> undefined_behaviour g'" "retired s g"
  shows "lightens s j g g'"
  using assms(1)
proof (cases rule: advance_cases)
  case (callback_steps now)
  then show ?thesis using callback_goes [OF _ assms(2,3)] goes_lightens by blast
next
  case (create_steps sc al)
  then show ?thesis using create_goes [OF _ assms(2,3)] goes_lightens by blast
next
  case (start_steps a sub)
  from start_moved [OF this assms(2)] show ?thesis by (auto intro!: lightensI simp: on_def)
next
  case stop_steps
  then show ?thesis by (rule stop_lightens [OF _ assms(2)])
next
  case finalize_steps
  from finalize_moved [OF this assms(2)] show ?thesis
  proof
    assume "\<exists>p. threads g' = (threads g)[j := p] \<and> states g' = states g \<and> self_state g' = self_state g \<and>
      (threads g ! j = Idle \<and> (p = Fi_checked \<or> p = Fi_stopped \<and> self_state g = None) \<and> cleared g' = cleared g \<or>
       threads g ! j = Fi_stopped \<and> p = Idle \<and> cleared g')"
    then show ?thesis by (auto intro!: lightensI simp: on_def)
  qed (use stop_lightens [OF _ assms(2)] in blast)
next
  case (image msg)
  with assms(2,3) show ?thesis by (intro acquire_lightens) (auto simp: on_def)
next
  case create_call
  with assms(2,3) show ?thesis by (intro acquire_lightens) (auto simp: on_def)
next
  case (property propId v)
  then show ?thesis by (intro lightens_same) simp_all
qed

lemma lightens_work:
  assumes "lightens s j g g'" "j < length (threads g)"
  shows "work s g' + (if on s (threads g ! j) then 1 else 0) \<le> work s g" and "k \<noteq> j \<Longrightarrow> threads g' ! k = threads g ! k"
proof -
  obtain p where p: "threads g' = (threads g)[j := p]"
    and d: "if on s (threads g ! j) then left_on s p < left_on s (threads g ! j) else \<not> on s p"
    using assms(1) by (auto simp: lightens_def)
  have "\<not> on s q \<Longrightarrow> left_on s q = 0" for q by (simp add: left_on_def)
  with work_step [OF assms(2) p, of s] d
  show "work s g' + (if on s (threads g ! j) then 1 else 0) \<le> work s g" by (auto split: if_splits)
  show "k \<noteq> j \<Longrightarrow> threads g' ! k = threads g ! k" by (simp add: p)
qed

section \<open>A stopped state stays stopped\<close>

text \<open>No state runs in \<open>g\<close> that \<open>B\<close> knows and knows as stopped.\<close>

definition below :: "(nat \<Rightarrow> SourceState option) \<Rightarrow> GstGzImgSrc \<Rightarrow> bool" where
  "below B g \<longleftrightarrow> (\<forall>s st st0. states g s = Some st \<longrightarrow> B s = Some st0 \<longrightarrow> running st \<longrightarrow> running st0)"

lemma belowD: "below B g \<Longrightarrow> states g s = Some st \<Longrightarrow> B s = Some st0 \<Longrightarrow> running st \<Longrightarrow> running st0"
  unfolding below_def by blast

lemma below_self: "below (states g) g"
  by (simp add: below_def)

lemma below_updates [simp]:
  "below B (g\<lparr>undefined_behaviour := b\<rparr>) = below B g" "below B (g\<lparr>self_state := x\<rparr>) = below B g"
  "below B (g\<lparr>self_topic := w\<rparr>) = below B g" "below B (g\<lparr>results := rs\<rparr>) = below B g" "below B (goto i p g) = below B g"
  "below B (g\<lparr>start_results := bs\<rparr>) = below B g" "below B (g\<lparr>cleared := b\<rparr>) = below B g" "below B (g\<lparr>finalizing := F\<rparr>) = below B g"
  by (simp_all add: below_def goto_def)

lemma below_put: "below B g \<Longrightarrow> states g s = Some st0 \<Longrightarrow> (running st \<Longrightarrow> running st0) \<Longrightarrow> below B (put_state s st g)"
  by (auto simp: below_def put_state_def)

lemma below_fields:
  assumes "below B g" "states g s = Some st"
  shows "below B (put_state s (st\<lparr>activeUsers := n\<rparr>) g)" "below B (put_state s (st\<lparr>mutex_owner := w\<rparr>) g)"
    "below B (put_state s (st\<lparr>st_frame := f\<rparr>) g)" "below B (put_state s (store_frame h st) g)"
    "below B (put_state s (st\<lparr>running := False, st_frame := f\<rparr>) g)"
  by (rule below_put [OF assms]; simp add: store_frame_def Let_def)+

lemma access_below:
  assumes "access s f g = Some g'" "below B g" "\<And>st. states g s = Some st \<Longrightarrow> f st = Some g' \<Longrightarrow> below B g'"
  shows "below B g'"
  using assms by (cases "states g s") (auto simp: access_def)

lemma with_lock_below: "with_lock f g = Some g' \<Longrightarrow> below B g \<Longrightarrow> (f = Some g' \<Longrightarrow> below B g') \<Longrightarrow> below B g'"
  by (auto simp: with_lock_def split: if_splits)

lemma release_below: "releaseState i s p g = Some g' \<Longrightarrow> below B g \<Longrightarrow> below B g'"
  unfolding releaseState_def by (auto dest: below_fields elim!: with_lock_below access_below)

lemma lock_below: "lock_state i s p g = Some g' \<Longrightarrow> below B g \<Longrightarrow> below B g'"
  unfolding lock_state_def by (erule access_below) (auto dest: below_fields split: option.splits)

lemma unlock_below: "unlock_state i s p g = Some g' \<Longrightarrow> below B g \<Longrightarrow> below B g'"
  unfolding unlock_state_def by (erule access_below) (auto dest: below_fields split: if_splits)

lemma acquire_below: "acquireState i nxt none g = Some g' \<Longrightarrow> below B g \<Longrightarrow> below B g'"
  by (auto simp: acquireState_def dest: below_fields split: option.splits elim!: with_lock_below access_below)

lemma callback_below: "onGazeboImage j now g = Some g' \<Longrightarrow> below B g \<Longrightarrow> below B g'"
  by (cases "threads g ! j")
    (auto simp: onGazeboImage_def dest: below_fields dest!: release_below [where B = B] lock_below [where B = B] unlock_below [where B = B] elim!: access_below split: option.splits if_splits)

lemma create_below: "gst_gz_img_src_create j sc al g = Some g' \<Longrightarrow> below B g \<Longrightarrow> below B g'"
  by (cases "threads g ! j")
    (auto simp: gst_gz_img_src_create_def dest: below_fields dest!: release_below [where B = B] lock_below [where B = B] unlock_below [where B = B] elim!: access_below
      split: option.splits if_splits)

lemma delete_below: "delete_state i s p g = Some g' \<Longrightarrow> below B g \<Longrightarrow> below B g'"
proof -
  assume d: "delete_state i s p g = Some g'" and b: "below B g"
  have "below B (goto i p (g\<lparr>states := (states g)(s := None), undefined_behaviour := u\<rparr>))" for u
    using b by (simp add: below_def goto_def)
  with d b show ?thesis unfolding delete_state_def by (auto elim!: access_below)
qed

lemma swap_below: "swap_state i p g = Some g' \<Longrightarrow> below B g \<Longrightarrow> below B g'"
  by (auto simp: swap_state_def elim!: with_lock_below split: option.splits)

lemma stop_below: "gst_gz_img_src_stop j g = Some g' \<Longrightarrow> below B g \<Longrightarrow> below B g'"
  by (cases "threads g ! j")
    (auto simp: gst_gz_img_src_stop_def dest: below_fields delete_below [where B = B] swap_below [where B = B]
      dest!: lock_below [where B = B] unlock_below [where B = B] elim!: with_lock_below access_below split: if_splits)

lemma start_below: "gst_gz_img_src_start j a sub g = Some g' \<Longrightarrow> below (states g) g'"
proof -
  assume s: "gst_gz_img_src_start j a sub g = Some g'"
  have "below (states g) (put_state a st g)" if "states g a = None" for st
    using that by (auto simp: below_def put_state_def)
  with s show ?thesis
    by (cases "threads g ! j")
      (auto simp: gst_gz_img_src_start_def below_self dest!: delete_below [where B = "states g"]
        elim!: with_lock_below access_below split: if_splits)
qed

lemma finalize_below: "gst_gz_img_src_finalize j g = Some g' \<Longrightarrow> below B g \<Longrightarrow> below B g'"
  by (cases "threads g ! j") (auto simp: gst_gz_img_src_finalize_def dest: stop_below split: if_splits)

lemma property_below [simp]: "below B (gst_gz_img_src_set_property propId v g) = below B g"
  by (simp add: below_def)

lemma advance_below:
  assumes "advance j inp g = Some g'"
  shows "below (states g) g'"
  using assms
proof (cases rule: advance_cases)
  case (start_steps a sub)
  then show ?thesis by (rule start_below)
qed (use below_self callback_below create_below stop_below finalize_below acquire_below in auto)

text \<open>A step moves its own thread only, and only \<^verbatim>\<open>stop\<close> moves a thread to where its state is stopped.\<close>

definition moves :: "nat \<Rightarrow> pc set \<Rightarrow> GstGzImgSrc \<Rightarrow> GstGzImgSrc \<Rightarrow> bool" where
  "moves j Q g g' \<longleftrightarrow> (\<exists>p. threads g' = (threads g)[j := p] \<and> (p \<in> Q \<or> p = threads g ! j))"

definition aside :: "pc set" where
  "aside = {p. \<not> lifecycle p}"

lemma in_aside [simp]: "p \<in> aside \<longleftrightarrow> \<not> lifecycle p"
  by (simp add: aside_def)

lemma movesI: "threads g' = (threads g)[j := p] \<Longrightarrow> p \<in> Q \<Longrightarrow> moves j Q g g'"
  unfolding moves_def by blast

lemma moves_same: "threads g' = threads g \<Longrightarrow> moves j Q g g'"
  unfolding moves_def by (intro exI [of _ "threads g ! j"]) simp

lemma access_moves:
  assumes "access s f g = Some g'" "\<And>st. states g s = Some st \<Longrightarrow> f st = Some g' \<Longrightarrow> moves j Q g g'"
  shows "moves j Q g g'"
  using assms by (cases "states g s") (auto simp: access_def intro: moves_same)

lemma with_lock_moves:
  assumes "with_lock f g = Some g'" "f = Some g' \<Longrightarrow> moves j Q g g'"
  shows "moves j Q g g'"
  using assms by (auto simp: with_lock_def intro: moves_same split: if_splits)

lemma moves_goto: "threads h = threads g \<Longrightarrow> p \<in> Q \<Longrightarrow> moves j Q g (goto j p h)"
  by (rule movesI) simp_all

lemma parts_move:
  "releaseState j s p h = Some g' \<Longrightarrow> threads h = threads g \<Longrightarrow> p \<in> Q \<Longrightarrow> moves j Q g g'"
  "lock_state j s p h = Some g' \<Longrightarrow> threads h = threads g \<Longrightarrow> p \<in> Q \<Longrightarrow> moves j Q g g'"
  "unlock_state j s p h = Some g' \<Longrightarrow> threads h = threads g \<Longrightarrow> p \<in> Q \<Longrightarrow> moves j Q g g'"
  "acquireState j nxt none h = Some g' \<Longrightarrow> threads h = threads g \<Longrightarrow> (\<And>s. nxt s \<in> Q) \<Longrightarrow> moves j Q g g'"
  by (auto simp: releaseState_def lock_state_def unlock_state_def acquireState_def access_def with_lock_def
      split: option.splits if_splits intro: moves_same intro!: moves_goto)

lemma callback_moves: "onGazeboImage j now g = Some g' \<Longrightarrow> moves j aside g g'"
  by (cases "threads g ! j")
    (auto simp: onGazeboImage_def elim!: access_moves parts_move intro!: moves_goto split: option.splits if_splits)

lemma create_moves: "gst_gz_img_src_create j sc al g = Some g' \<Longrightarrow> moves j aside g g'"
  by (cases "threads g ! j")
    (auto simp: gst_gz_img_src_create_def elim!: access_moves parts_move split: option.splits if_splits)

lemma moves_mono: "moves j Q g g' \<Longrightarrow> Q \<subseteq> R \<Longrightarrow> moves j R g g'"
  unfolding moves_def by blast

text \<open>The calls take an idle thread to its first step; the later steps of a stop come in their order.\<close>

definition in_order :: "pc \<Rightarrow> pc set" where
  "in_order q = {p. \<forall>a. (p = St_marked a \<longrightarrow> q = St_locked a) \<and> (p = St_deleting a \<longrightarrow> q = St_marked a)}"

lemma aside_in_order: "aside \<subseteq> in_order q"
  by (auto simp: in_order_def)

lemma not_stopping_in_order: "stopping p = None \<Longrightarrow> p \<in> in_order q"
  by (auto simp: in_order_def)

lemma stop_in_order:
  assumes "gst_gz_img_src_stop j g = Some g'" "\<not> undefined_behaviour g'"
  shows "moves j (in_order (threads g ! j)) g g'"
proof -
  consider a where "stopping (threads g ! j) = Some a" "threads g' = (threads g)[j :=
      (case threads g ! j of St_swapped a \<Rightarrow> St_locked a | St_locked a \<Rightarrow> St_marked a | St_marked a \<Rightarrow> St_deleting a
        | _ \<Rightarrow> if j \<in> finalizing g then Fi_stopped else Idle)]"
    | "swap_state j (if j \<in> finalizing g then Fi_stopped else Idle) g = Some g'"
    using stop_moved [OF assms] by blast
  then show ?thesis
  proof cases
    case (1 a)
    then show ?thesis by (cases "threads g ! j") (auto intro!: movesI simp: in_order_def split: if_splits)
  next
    case 2
    from swap_threads [OF this assms(2)]
    have "(\<exists>a. threads g' = (threads g)[j := St_swapped a]) \<or> threads g' = (threads g)[j := if j \<in> finalizing g then Fi_stopped else Idle]"
      by blast
    then show ?thesis by (elim disjE exE) (erule movesI, simp add: in_order_def)+
  qed
qed

lemma advance_moves:
  assumes "advance j inp g = Some g'" "\<not> undefined_behaviour g'"
  shows "moves j (in_order (threads g ! j)) g g'"
  using assms(1)
proof (cases rule: advance_cases)
  case (start_steps a sub)
  from start_moved [OF this assms(2)] show ?thesis by (auto intro!: movesI not_stopping_in_order)
next
  case stop_steps
  then show ?thesis by (rule stop_in_order [OF _ assms(2)])
next
  case finalize_steps
  from finalize_moved [OF this assms(2)] show ?thesis
  proof
    assume "\<exists>p. threads g' = (threads g)[j := p] \<and> states g' = states g \<and> self_state g' = self_state g \<and>
      (threads g ! j = Idle \<and> (p = Fi_checked \<or> p = Fi_stopped \<and> self_state g = None) \<and> cleared g' = cleared g \<or>
       threads g ! j = Fi_stopped \<and> p = Idle \<and> cleared g')"
    then show ?thesis by (auto intro!: movesI simp: in_order_def)
  qed (use stop_in_order [OF _ assms(2)] in blast)
next
  case (image msg)
  then show ?thesis by (auto intro!: moves_mono [OF _ aside_in_order] elim: parts_move)
next
  case create_call
  then show ?thesis by (auto intro!: moves_mono [OF _ aside_in_order] elim: parts_move)
next
  case (property propId v)
  then show ?thesis by (intro moves_same) simp
qed (use callback_moves create_moves moves_mono [OF _ aside_in_order] in blast)+

definition stopped :: "GstGzImgSrc \<Rightarrow> bool" where
  "stopped g \<longleftrightarrow> (\<forall>i s st. i < length (threads g) \<longrightarrow> threads g ! i = St_marked s \<or> threads g ! i = St_deleting s \<longrightarrow>
     states g s = Some st \<longrightarrow> \<not> running st)"

lemma stoppedD:
  "stopped g \<Longrightarrow> i < length (threads g) \<Longrightarrow> threads g ! i = St_marked s \<or> threads g ! i = St_deleting s \<Longrightarrow>
    states g s = Some st \<Longrightarrow> \<not> running st"
  unfolding stopped_def by blast

lemma marked_not_running:
  assumes "gst_gz_img_src_stop j g = Some g'" "\<not> undefined_behaviour g'" "threads g ! j = St_locked s" "states g' s = Some st"
  shows "\<not> running st"
proof -
  obtain st0 where "states g s = Some st0"
    and "unlock_state j s (St_marked s) (put_state s (st0\<lparr>running := False, st_frame := None\<rparr>) g) = Some g'"
    using assms(1-3) by (auto simp: gst_gz_img_src_stop_def dest!: access_defined)
  with assms(2,4) show ?thesis by (auto simp: unlock_state_def access_def goto_def split: if_splits)
qed

lemma locked_by_stop:
  assumes "advance j inp g = Some g'" "threads g ! j = St_locked s"
  shows "gst_gz_img_src_stop j g = Some g'"
  using assms by (cases inp) (auto simp: gst_gz_img_src_start_def gst_gz_img_src_finalize_def split: if_splits)

lemma stopped_step:
  assumes "advance j inp g = Some g'" "\<not> undefined_behaviour g'" "gz_inv g" "j < length (threads g)" "stopped g"
  shows "stopped g'"
  unfolding stopped_def
proof (intro allI impI)
  fix i s st
  assume i: "i < length (threads g')" and at: "threads g' ! i = St_marked s \<or> threads g' ! i = St_deleting s" and st: "states g' s = Some st"
  have len: "i < length (threads g)" using i advance_length [OF assms(1)] by simp
  have old: "\<not> running st" if at0: "threads g ! i = St_marked s \<or> threads g ! i = St_deleting s"
  proof -
    obtain st0 where st0: "states g s = Some st0" using gz_invD(2) [OF assms(3) len, of s] at0 by auto
    from belowD [OF advance_below [OF assms(1)] st this] stoppedD [OF assms(5) len at0 this] show ?thesis by blast
  qed
  obtain p where p: "threads g' = (threads g)[j := p]" "p \<in> in_order (threads g ! j) \<or> p = threads g ! j"
    using advance_moves [OF assms(1,2)] by (auto simp: moves_def)
  show "\<not> running st"
  proof (cases "threads g ! j = St_locked s \<and> i = j")
    case True
    then show ?thesis using marked_not_running [OF locked_by_stop [OF assms(1)] assms(2) _ st] by blast
  next
    case False
    show ?thesis
    proof (cases "i = j")
      case True
      with False p at assms(4) have "threads g ! i = St_marked s \<or> threads g ! i = St_deleting s"
        by (auto simp: in_order_def)
      then show ?thesis by (rule old)
    qed (use p at old in auto)
  qed
qed

lemma stopped_reachable:
  assumes "gz_step\<^sup>*\<^sup>* (gst_gz_img_src_init n) g" "n < 2 ^ 32"
  shows "undefined_behaviour g \<or> stopped g"
  using assms(1)
proof (induction rule: rtranclp_induct)
  case base
  show ?case by (simp add: stopped_def gst_gz_img_src_init_def)
next
  case (step g g')
  from step(2) obtain j inp where s: "j < length (threads g)" "\<not> undefined_behaviour g" "advance j inp g = Some g'"
    by (auto elim: gz_stepE)
  then show ?case using gz_reachable [OF step(1) assms(2)] step.IH stopped_step [OF s(3) _ _ s(1)] by blast
qed

lemma waiting_retired:
  assumes "gz_inv g" "stopped g" "i < length (threads g)" "threads g ! i = St_marked s"
  shows "retired s g"
  using gz_invD(2,4) [OF assms(1,3), of s] stoppedD [OF assms(2,3), of s] assms(4) by (auto simp: retired_def)


section \<open>Who keeps a state allocated\<close>

text \<open>What the thread inside \<^verbatim>\<open>start\<close>, \<^verbatim>\<open>stop\<close> or \<^verbatim>\<open>finalize\<close> knows of \<^verbatim>\<open>self->state\<close>.\<close>

fun publishes :: "pc \<Rightarrow> nat option \<Rightarrow> bool" where
  "publishes (Sr_published s) q = (q = Some s)" | "publishes (Sr_failed s) q = (q = Some s)"
| "publishes Fi_checked q = True" | "publishes _ q = (q = None)"

text \<open>Every allocated state is the published one or some thread keeps it, one thread at most is inside \<^verbatim>\<open>start\<close>,
  \<^verbatim>\<open>stop\<close> or \<^verbatim>\<open>finalize\<close>, and behind \<^verbatim>\<open>finalize\<close> there is no thread and no state any more.\<close>

definition tidy :: "GstGzImgSrc \<Rightarrow> bool" where
  "tidy g \<longleftrightarrow> (let ts = threads g in
     (\<forall>s. states g s \<noteq> None \<longrightarrow> self_state g = Some s \<or> (\<exists>i < length ts. owns (ts ! i) = Some s)) \<and>
     (\<forall>i j. i < length ts \<longrightarrow> j < length ts \<longrightarrow> lifecycle (ts ! i) \<longrightarrow> lifecycle (ts ! j) \<longrightarrow> j = i) \<and>
     (\<forall>i. i < length ts \<longrightarrow> lifecycle (ts ! i) \<longrightarrow> publishes (ts ! i) (self_state g)) \<and>
     (cleared g \<longrightarrow> self_state g = None \<and> (\<forall>i < length ts. ts ! i = Idle)))"

lemma tidyD:
  assumes "tidy g"
  shows "states g s \<noteq> None \<Longrightarrow> self_state g = Some s \<or> (\<exists>i < length (threads g). owns (threads g ! i) = Some s)"
    and "i < length (threads g) \<Longrightarrow> j < length (threads g) \<Longrightarrow> lifecycle (threads g ! i) \<Longrightarrow> lifecycle (threads g ! j) \<Longrightarrow> j = i"
    and "i < length (threads g) \<Longrightarrow> lifecycle (threads g ! i) \<Longrightarrow> publishes (threads g ! i) (self_state g)"
    and "cleared g \<Longrightarrow> self_state g = None" "cleared g \<Longrightarrow> i < length (threads g) \<Longrightarrow> threads g ! i = Idle"
  using assms unfolding tidy_def Let_def by (elim conjE; metis)+

lemma tidyI:
  assumes "\<And>s. states g s \<noteq> None \<Longrightarrow> self_state g = Some s \<or> (\<exists>i < length (threads g). owns (threads g ! i) = Some s)"
    and "\<And>i j. i < length (threads g) \<Longrightarrow> j < length (threads g) \<Longrightarrow> lifecycle (threads g ! i) \<Longrightarrow> lifecycle (threads g ! j) \<Longrightarrow> j = i"
    and "\<And>i. i < length (threads g) \<Longrightarrow> lifecycle (threads g ! i) \<Longrightarrow> publishes (threads g ! i) (self_state g)"
    and "cleared g \<Longrightarrow> self_state g = None \<and> (\<forall>i < length (threads g). threads g ! i = Idle)"
  shows "tidy g"
  unfolding tidy_def Let_def by (intro conjI allI impI; (rule assms assms(4) [THEN conjunct1] assms(4) [THEN conjunct2, rule_format]; assumption)?)

lemma owns_lifecycle [simp]: "owns p = Some s \<Longrightarrow> lifecycle p"
  by (cases p) auto

text \<open>A step of thread \<open>j\<close> to \<open>p\<close>: it hands every state it knows on, to itself or to the element.\<close>

lemma tidy_move:
  assumes t: "tidy g" and c: "\<not> cleared g" "\<not> cleared g'" and j: "j < length (threads g)" and thr: "threads g' = (threads g)[j := p]"
    and enter: "lifecycle p \<Longrightarrow> lifecycle (threads g ! j) \<or> \<not> list_ex lifecycle (threads g)"
    and knows: "lifecycle p \<Longrightarrow> publishes p (self_state g')"
    and self: "lifecycle (threads g ! j) \<or> lifecycle p \<or> self_state g' = self_state g"
    and hand: "\<And>s. states g' s \<noteq> None \<Longrightarrow> owns p \<noteq> Some s \<Longrightarrow> states g s \<noteq> None \<and>
      (owns (threads g ! j) = Some s \<or> self_state g = Some s \<longrightarrow> self_state g' = Some s)"
  shows "tidy g'"
proof (rule tidyI)
  have nth: "threads g' ! i = (if i = j then p else threads g ! i)" if "i < length (threads g)" for i
    using that j by (simp add: thr nth_list_update)
  have len: "length (threads g') = length (threads g)" by (simp add: thr)
  have alone: "\<not> lifecycle (threads g ! i)" if "i < length (threads g)" "i \<noteq> j" "lifecycle p \<or> lifecycle (threads g ! j)" for i
    using that enter tidyD(2) [OF t j that(1)] by (auto simp: list_ex_length)
  show "self_state g' = Some s \<or> (\<exists>i < length (threads g'). owns (threads g' ! i) = Some s)" if "states g' s \<noteq> None" for s
  proof (cases "owns p = Some s")
    case True
    then show ?thesis using j nth len by auto
  next
    case False
    note h = hand [OF that False]
    from tidyD(1) [OF t h [THEN conjunct1]] show ?thesis
    proof (elim disjE exE conjE)
      fix i assume i: "i < length (threads g)" "owns (threads g ! i) = Some s"
      with h nth [OF i(1)] len show ?thesis by (cases "i = j") auto
    qed (use h in blast)
  qed
  show "k = i" if "i < length (threads g')" "k < length (threads g')" "lifecycle (threads g' ! i)" "lifecycle (threads g' ! k)" for i k
    using that nth len alone [of i] alone [of k] tidyD(2) [OF t, of i k] by (auto split: if_splits)
  show "publishes (threads g' ! i) (self_state g')" if "i < length (threads g')" "lifecycle (threads g' ! i)" for i
  proof (cases "i = j")
    case True
    with that nth len knows show ?thesis by simp
  next
    case False
    with that nth len have i: "lifecycle (threads g ! i)" "i < length (threads g)" by simp_all
    with alone [OF i(2) False] self have "self_state g' = self_state g" by blast
    with tidyD(3) [OF t i(2,1)] nth [OF i(2)] False show ?thesis by simp
  qed
qed (use c in simp)

text \<open>The last step of \<^verbatim>\<open>finalize\<close>: nothing is left.\<close>

lemma tidy_clear:
  assumes t: "tidy g" and inv: "gz_inv g" and j: "j < length (threads g)" "threads g ! j = Fi_stopped"
    and g': "threads g' = (threads g)[j := Idle]" "states g' = states g" "self_state g' = self_state g"
  shows "tidy g'"
proof -
  have q: "self_state g = None" using tidyD(3) [OF t j(1)] j(2) by simp
  have one: "\<not> lifecycle (threads g ! i)" if "i < length (threads g)" "i \<noteq> j" for i
    using tidyD(2) [OF t j(1) that(1)] j(2) that(2) by auto
  have none: "states g s = None" for s
  proof (rule ccontr)
    assume "states g s \<noteq> None"
    with q tidyD(1) [OF t] obtain i where i: "i < length (threads g)" "owns (threads g ! i) = Some s" by auto
    with one [of i] j(2) show False by (cases "i = j") auto
  qed
  have "threads g ! i = Idle" if "i < length (threads g)" "i \<noteq> j" for i
    using one [OF that] gz_invD(2) [OF inv that(1)] none by (cases "threads g ! i") auto
  then have "threads g' ! i = Idle" if "i < length (threads g')" for i using that j(1) by (cases "i = j") (auto simp: g')
  then show ?thesis using q none by (intro tidyI) (auto simp: g')
qed

text \<open>The steps of callbacks and of \<^verbatim>\<open>create\<close> neither allocate nor publish.\<close>

definition same_alloc :: "GstGzImgSrc \<Rightarrow> GstGzImgSrc \<Rightarrow> bool" where
  "same_alloc g g' \<longleftrightarrow> dom (states g') = dom (states g) \<and> self_state g' = self_state g \<and> cleared g' = cleared g"

lemma same_alloc_updates [simp]:
  "same_alloc g (h\<lparr>undefined_behaviour := b\<rparr>) = same_alloc g h" "same_alloc g (h\<lparr>results := rs\<rparr>) = same_alloc g h"
  "same_alloc g (goto j p h) = same_alloc g h" "same_alloc g g"
  by (simp_all add: same_alloc_def goto_def)

lemma same_alloc_put: "same_alloc g h \<Longrightarrow> states h s \<noteq> None \<Longrightarrow> same_alloc g (put_state s st h)"
  by (auto simp: same_alloc_def put_state_def)

lemma access_alloc:
  assumes "access s f h = Some g'" "same_alloc g h" "\<And>st. states h s = Some st \<Longrightarrow> f st = Some g' \<Longrightarrow> same_alloc g g'"
  shows "same_alloc g g'"
  using assms by (cases "states h s") (auto simp: access_def)

lemma with_lock_alloc: "with_lock f h = Some g' \<Longrightarrow> same_alloc g h \<Longrightarrow> (f = Some g' \<Longrightarrow> same_alloc g g') \<Longrightarrow> same_alloc g g'"
  by (auto simp: with_lock_def split: if_splits)

lemma parts_alloc:
  "releaseState j s p h = Some g' \<Longrightarrow> same_alloc g h \<Longrightarrow> same_alloc g g'"
  "lock_state j s p h = Some g' \<Longrightarrow> same_alloc g h \<Longrightarrow> same_alloc g g'"
  "unlock_state j s p h = Some g' \<Longrightarrow> same_alloc g h \<Longrightarrow> same_alloc g g'"
  "acquireState j nxt none h = Some g' \<Longrightarrow> same_alloc g h \<Longrightarrow> same_alloc g g'"
  by (auto simp: releaseState_def lock_state_def unlock_state_def acquireState_def elim!: access_alloc with_lock_alloc
      intro!: same_alloc_put split: option.splits if_splits)

lemma callback_alloc: "onGazeboImage j now g = Some g' \<Longrightarrow> same_alloc g g' \<and> \<not> lifecycle (threads g ! j)"
  by (cases "threads g ! j")
    (auto simp: onGazeboImage_def elim!: access_alloc parts_alloc intro!: same_alloc_put split: option.splits if_splits)

lemma create_alloc: "gst_gz_img_src_create j sc al g = Some g' \<Longrightarrow> same_alloc g g' \<and> \<not> lifecycle (threads g ! j)"
  by (cases "threads g ! j")
    (auto simp: gst_gz_img_src_create_def elim!: access_alloc parts_alloc intro!: same_alloc_put split: option.splits if_splits)

lemma tidy_aside:
  assumes "tidy g" "\<not> cleared g" "j < length (threads g)" "same_alloc g g'" "moves j aside g g'" "\<not> lifecycle (threads g ! j)"
  shows "tidy g'"
proof -
  obtain p where p: "threads g' = (threads g)[j := p]" "\<not> lifecycle p" using assms(5,6) by (auto simp: moves_def)
  have "states g' s \<noteq> None \<longleftrightarrow> states g s \<noteq> None" for s using assms(4) by (auto simp: same_alloc_def dom_def set_eq_iff)
  with assms p show ?thesis by (intro tidy_move [OF assms(1,2) _ assms(3) p(1)]) (auto simp: same_alloc_def dest: owns_lifecycle)
qed

lemma tidy_same: "tidy g \<Longrightarrow> threads g' = threads g \<Longrightarrow> states g' = states g \<Longrightarrow> self_state g' = self_state g \<Longrightarrow> cleared g' = cleared g \<Longrightarrow> tidy g'"
  by (simp add: tidy_def)

lemma start_tidy:
  assumes "gst_gz_img_src_start j a sub g = Some g'" "\<not> undefined_behaviour g'" "tidy g" "\<not> cleared g" "j < length (threads g)"
    and "threads g ! j = Idle \<Longrightarrow> \<not> list_ex lifecycle (threads g)"
  shows "tidy g'"
proof -
  note move = tidy_move [OF assms(3,4) _ assms(5)]
  show ?thesis
  proof (cases "threads g ! j")
    case Idle
    show ?thesis
    proof (cases "self_state g")
      case None
      with Idle assms show ?thesis
        by (intro move [where p = Sr_checked]) (auto simp: gst_gz_img_src_start_def with_lock_def)
    next
      case (Some s)
      with Idle assms(1,4) show ?thesis
        by (intro tidy_same [OF assms(3)]) (auto simp: gst_gz_img_src_start_def with_lock_def)
    qed
  next
    case Sr_checked
    then have "self_state g = None" using tidyD(3) [OF assms(3,5)] by simp
    with Sr_checked assms(1,4) show ?thesis
      by (intro move [where p = "Sr_created a"]) (auto simp: gst_gz_img_src_start_def split: if_splits)
  next
    case (Sr_created s)
    then have "self_state g = None" using tidyD(3) [OF assms(3,5)] by simp
    with Sr_created assms(1,4) show ?thesis
      by (intro move [where p = "Sr_published s"]) (auto simp: gst_gz_img_src_start_def with_lock_def)
  next
    case (Sr_published s)
    then have q: "self_state g = Some s" using tidyD(3) [OF assms(3,5)] by simp
    from Sr_published assms(1) have "access s (\<lambda>st. Some (
         if sub (start_topic (self_topic g)) then goto j Idle (g\<lparr>start_results := True # start_results g\<rparr>)
         else goto j (Sr_failed s) g)) g = Some g'" by (simp add: gst_gz_img_src_start_def)
    from access_defined [OF this assms(2)]
    have "g' = goto j Idle (g\<lparr>start_results := True # start_results g\<rparr>) \<or> g' = goto j (Sr_failed s) g" by (auto split: if_splits)
    with Sr_published assms(4) q show ?thesis
      by (elim disjE) (intro move [where p = Idle] move [where p = "Sr_failed s"]; auto)+
  next
    case (Sr_failed s)
    then have "self_state g = Some s" using tidyD(3) [OF assms(3,5)] by simp
    with Sr_failed assms(1,4) show ?thesis
      by (intro move [where p = "Sr_unpublished s"]) (auto simp: gst_gz_img_src_start_def with_lock_def)
  next
    case (Sr_unpublished s)
    then have "self_state g = None" using tidyD(3) [OF assms(3,5)] by simp
    with Sr_unpublished assms(1,2,4) show ?thesis
      by (intro move [where p = Idle])
        (auto simp: gst_gz_img_src_start_def delete_state_def goto_def dest!: access_defined [OF _ assms(2)] split: if_splits)
  qed (use assms(1) in \<open>simp_all add: gst_gz_img_src_start_def\<close>)
qed

lemma stop_tidy:
  assumes "gst_gz_img_src_stop j g = Some g'" "\<not> undefined_behaviour g'" "tidy g" "\<not> cleared g" "j < length (threads g)"
    and "threads g ! j = Idle \<Longrightarrow> \<not> list_ex lifecycle (threads g)"
  shows "tidy g'"
proof -
  note move = tidy_move [OF assms(3,4) _ assms(5)]
  have q: "self_state g = None" if "stopping (threads g ! j) \<noteq> None"
    using tidyD(3) [OF assms(3,5)] that by (cases "threads g ! j") simp_all
  have swap: "tidy g'" if s: "swap_state j p g = Some g'" and p: "p = Idle \<or> p = Fi_stopped" and at: "threads g ! j = Idle \<or> threads g ! j = Fi_checked" for p
  proof (cases "self_state g")
    case None
    then have "g' = goto j p g" using s assms(4) by (simp add: swap_state_def with_lock_def)
    with None assms(4,6) p at show ?thesis by (intro move [where p = p]) auto
  next
    case (Some a)
    then have "g' = goto j (St_swapped a) (g\<lparr>self_state := None\<rparr>)" using s assms(4) by (simp add: swap_state_def with_lock_def)
    with Some assms(4,6) at show ?thesis by (intro move [where p = "St_swapped a"]) auto
  qed
  show ?thesis
  proof (cases "threads g ! j")
    case (St_swapped a)
    then obtain st where "states g a = Some st" "g' = goto j (St_locked a) (put_state a (st\<lparr>mutex_owner := Some j\<rparr>) g)"
      using assms(1) by (auto simp: gst_gz_img_src_stop_def lock_state_def dest!: access_defined [OF _ assms(2)] split: option.splits)
    with St_swapped assms(4) q show ?thesis by (intro move [where p = "St_locked a"]) auto
  next
    case (St_locked a)
    then obtain st m where "states g a = Some st" "g' = goto j (St_marked a) (put_state a m g)"
      using assms(1,2) by (auto simp: gst_gz_img_src_stop_def unlock_state_def dest!: access_defined [OF _ assms(2)] split: if_splits)
    with St_locked assms(4) q show ?thesis by (intro move [where p = "St_marked a"]) auto
  next
    case (St_marked a)
    then have "g' = goto j (St_deleting a) g"
      using assms(1,4) by (auto simp: gst_gz_img_src_stop_def with_lock_def dest!: access_defined [OF _ assms(2)] split: if_splits)
    with St_marked assms(4) q show ?thesis by (intro move [where p = "St_deleting a"]) auto
  next
    case (St_deleting a)
    with assms(1) have "delete_state j a (if j \<in> finalizing g then Fi_stopped else Idle) g = Some g'" by (simp add: gst_gz_img_src_stop_def)
    with St_deleting assms(2,4) q show ?thesis
      by (intro move [where p = "if j \<in> finalizing g then Fi_stopped else Idle"])
        (auto simp: delete_state_def goto_def dest!: access_defined [OF _ assms(2)] split: if_splits)
  qed (use assms(1) swap in \<open>auto simp: gst_gz_img_src_stop_def\<close>)
qed

lemma finalize_tidy:
  assumes "gst_gz_img_src_finalize j g = Some g'" "\<not> undefined_behaviour g'" "gz_inv g" "tidy g" "\<not> cleared g" "j < length (threads g)"
    and "threads g ! j = Idle \<Longrightarrow> \<not> list_ex lifecycle (threads g)"
  shows "tidy g'"
  using finalize_moved [OF assms(1,2)]
proof (elim disjE exE conjE)
  assume "gst_gz_img_src_stop j g = Some g'"
  then show ?thesis using stop_tidy [OF _ assms(2,4-7)] by blast
next
  fix p assume "threads g' = (threads g)[j := p]" "states g' = states g" "self_state g' = self_state g" "threads g ! j = Fi_stopped" "p = Idle"
  then show ?thesis using tidy_clear [OF assms(4,3,6)] by simp
next
  fix p assume "threads g' = (threads g)[j := p]" "states g' = states g" "self_state g' = self_state g" "threads g ! j = Idle"
    "cleared g' = cleared g" "p = Fi_checked"
  with assms(5,7) show ?thesis by (intro tidy_move [OF assms(4,5) _ assms(6), where p = Fi_checked]) simp_all
next
  fix p assume "threads g' = (threads g)[j := p]" "states g' = states g" "self_state g' = self_state g" "threads g ! j = Idle"
    "cleared g' = cleared g" "p = Fi_stopped" "self_state g = None"
  with assms(5,7) show ?thesis by (intro tidy_move [OF assms(4,5) _ assms(6), where p = Fi_stopped]) simp_all
qed

lemma acquire_tidy:
  assumes "acquireState j nxt none g = Some g'" "tidy g" "\<not> cleared g" "j < length (threads g)" "threads g ! j = Idle" "\<And>s. \<not> lifecycle (nxt s)"
  shows "tidy g'"
  by (rule tidy_aside [OF assms(2-4) parts_alloc(4) [OF assms(1)] parts_move(4) [OF assms(1)]]) (simp_all add: assms(5,6))

lemma tidy_step:
  assumes "lawful_step g g'" "\<not> undefined_behaviour g'" "gz_inv g" "tidy g"
  shows "tidy g'"
proof -
  obtain j inp where j: "j < length (threads g)" "permitted inp g" "advance j inp g = Some g'" using assms(1) by (auto elim: lawful_stepE)
  have open_lock: "\<not> cleared g"
  proof
    assume "cleared g"
    with j assms(4) show False using tidyD(5) [OF assms(4) _ j(1)] by (cases inp) auto
  qed
  note side = tidy_aside [OF assms(4) open_lock j(1)]
  note rules = start_tidy [OF _ assms(2,4) open_lock j(1)] stop_tidy [OF _ assms(2,4) open_lock j(1)]
    finalize_tidy [OF _ assms(2-4) open_lock j(1)]
  show ?thesis
  proof (cases inp)
    case (Continue now sc al)
    then have "threads g ! j \<noteq> Idle" "onGazeboImage j now g = Some g' \<or> gst_gz_img_src_create j sc al g = Some g' \<or>
        gst_gz_img_src_stop j g = Some g' \<or> gst_gz_img_src_finalize j g = Some g'"
      using j(3) by (cases "threads g ! j"; simp)+
    then show ?thesis using rules side callback_alloc callback_moves create_alloc create_moves by metis
  next
    case (OnImage msg)
    with j show ?thesis by (intro acquire_tidy [OF _ assms(4) open_lock j(1)]) (auto split: if_splits)
  next
    case Create
    with j show ?thesis by (intro acquire_tidy [OF _ assms(4) open_lock j(1)]) (auto split: if_splits)
  next
    case (SetProperty propId v)
    with j show ?thesis by (intro tidy_same [OF assms(4)]) (auto split: if_splits)
  qed (use j(2,3) rules in \<open>auto split: if_splits\<close>)
qed

lemma tidy_reachable:
  assumes "lawful_step\<^sup>*\<^sup>* (gst_gz_img_src_init n) g" "n < 2 ^ 32"
  shows "undefined_behaviour g \<or> tidy g"
  using assms(1)
proof (induction rule: rtranclp_induct)
  case base
  show ?case by (simp add: tidy_def gst_gz_img_src_init_def)
next
  case (step g g')
  have "\<not> undefined_behaviour g" using step(2) by (auto elim: lawful_stepE)
  then show ?case using gz_reachable [OF lawful_gz_steps [OF step(1)] assms(2)] step.IH tidy_step [OF step(2)] by blast
qed

section \<open>The wait of a stop\<close>

lemma holder_continues:
  assumes "gz_inv g" "j < length (threads g)" "holds (threads g ! j) = Some s" "states g s = Some st"
    "stopping (threads g ! j) = None"
  shows "advance j (Continue now sc al) g \<noteq> None \<and> on s (threads g ! j)"
proof -
  have "mutex_owner st = Some j" using gz_invD(8) [OF assms(1,4), of j] assms(2,3) by simp
  with assms(3-5) show ?thesis
    by (cases "threads g ! j")
      (auto simp: on_def onGazeboImage_def gst_gz_img_src_create_def with_lock_def releaseState_def unlock_state_def access_def put_state_def split: option.splits)
qed

lemma user_continues:
  assumes "counted (threads g ! j) = Some s" "states g s = Some st" "mutex_owner st = None" "holds (threads g ! j) = None"
  shows "advance j (Continue now sc al) g \<noteq> None \<and> on s (threads g ! j)"
  using assms
  by (cases "threads g ! j")
    (auto simp: on_def onGazeboImage_def gst_gz_img_src_create_def with_lock_def releaseState_def lock_state_def access_def split: option.splits)

text \<open>While a stop waits, some thread on its state or the stop itself can go on.\<close>

lemma stop_progress:
  assumes "gz_inv g" "stopped g" "i < length (threads g)" "threads g ! i = St_marked s"
  shows "\<exists>j < length (threads g). (j = i \<or> on s (threads g ! j)) \<and> (\<forall>now sc al. advance j (Continue now sc al) g \<noteq> None)"
proof -
  obtain st where st: "states g s = Some st" using gz_invD(2) [OF assms(1,3), of s] assms(4) by auto
  show ?thesis
  proof (cases "mutex_owner st")
    case (Some k)
    then have k: "k < length (threads g)" "holds (threads g ! k) = Some s" using gz_invD(8) [OF assms(1) st, of k] by auto
    have "stopping (threads g ! k) \<noteq> Some s"
      using gz_invD(5) [OF assms(1,3) k(1), of s] assms(4) k(2) by auto
    with k(2) have "stopping (threads g ! k) = None" by (cases "threads g ! k") auto
    from holder_continues [OF assms(1) k st this] k(1) show ?thesis by blast
  next
    case None
    show ?thesis
    proof (cases "users s (threads g) = 0")
      case True
      then have "activeUsers st = 0" using gz_invD(1) [OF assms(1) st] by simp
      then have "advance i (Continue now sc al) g \<noteq> None" for now sc al
        using assms(4) st by (simp add: gst_gz_img_src_stop_def with_lock_def)
      with assms(3) show ?thesis by blast
    next
      case False
      then obtain k where k: "k < length (threads g)" "counted (threads g ! k) = Some s" by (metis users_none)
      have "holds (threads g ! k) \<noteq> Some s" using gz_invD(8) [OF assms(1) st, of k] None k(1) by simp
      with k(2) have "holds (threads g ! k) = None" by (cases "threads g ! k") auto
      from user_continues [OF k(2) st None this] k(1) show ?thesis by blast
    qed
  qed
qed

text \<open>The steps of a schedule by threads that are on \<open>s\<close> at the time.\<close>

fun steps_on :: "nat \<Rightarrow> (nat \<times> input) list \<Rightarrow> GstGzImgSrc \<Rightarrow> nat" where
  "steps_on s [] g = 0"
| "steps_on s ((j, inp) # es) g = (if on s (threads g ! j) then 1 else 0) +
     (case advance j inp g of None \<Rightarrow> 0 | Some g' \<Rightarrow> steps_on s es g')"

lemma steps_on_bounded:
  assumes "gz_inv g" "stopped g" "length (threads g) < 2 ^ 32" "i < length (threads g)" "threads g ! i = St_marked s"
    and "run_schedule es g = Some g'" "\<not> undefined_behaviour g'" "\<And>e. e \<in> set es \<Longrightarrow> fst e \<noteq> i"
  shows "steps_on s es g + work s g' \<le> work s g"
  using assms
proof (induction es arbitrary: g)
  case (Cons e es)
  obtain j inp where e: "e = (j, inp)" by (cases e)
  with Cons.prems(6) obtain g1 where j: "j < length (threads g)" and ub: "\<not> undefined_behaviour g"
    and a: "advance j inp g = Some g1" and r: "run_schedule es g1 = Some g'" by (auto split: if_splits option.splits)
  have ub1: "\<not> undefined_behaviour g1"
    using r Cons.prems(7) by (cases es) (auto split: if_splits)
  have inv1: "gz_inv g1" using advance_inv [OF Cons.prems(1) ub j Cons.prems(3) a] ub1 by (auto simp: fine_step_def dangling_step_def)
  have len: "length (threads g1) = length (threads g)" by (rule advance_length [OF a])
  note l = advance_lightens [OF a ub1 waiting_retired [OF Cons.prems(1,2,4,5)]]
  have "i \<noteq> j" using Cons.prems(8) [of e] by (simp add: e)
  then have "threads g1 ! i = St_marked s" using lightens_work(2) [OF l j, of i] Cons.prems(5) by simp
  then have "steps_on s es g1 + work s g' \<le> work s g1"
    using Cons.IH [OF inv1 stopped_step [OF a ub1 Cons.prems(1) j Cons.prems(2)] _ _ _ r Cons.prems(7)] Cons.prems(3,4,8) len by auto
  with lightens_work(1) [OF l j] show ?case by (auto simp: e a)
qed simp

section \<open>Properties\<close>



text \<open>C25: no state is leaked or lost, as long as one thread at a time is inside \<^verbatim>\<open>start\<close>, \<^verbatim>\<open>stop\<close> or \<^verbatim>\<open>finalize\<close>, which is
  GStreamer's part (two concurrent calls of \<^verbatim>\<open>start\<close> would publish one state over the other).  Under every interleaving
  of callbacks, \<^verbatim>\<open>create\<close> and property changes with them, a failed \<^verbatim>\<open>start\<close> included, every allocated state is either
  the published one or kept by exactly one thread, which is stopping it or inside \<^verbatim>\<open>start\<close> before or after its
  publication.  So when no thread is inside a call the element owns the published state and nothing else; and once
  \<^verbatim>\<open>finalize\<close> has cleared the lock, whether the element was stopped before or not, no state is allocated, none is
  published and no thread is inside a call.\<close>

theorem states_have_one_owner:
  assumes "n < 2 ^ 32" "lawful_step\<^sup>*\<^sup>* (gst_gz_img_src_init n) g" "\<not> undefined_behaviour g"
  shows "(\<forall>s. states g s \<noteq> None \<longrightarrow>
      (self_state g = Some s \<and> (\<forall>i<n. owns (threads g ! i) \<noteq> Some s)) \<or>
      (self_state g \<noteq> Some s \<and> (\<exists>!i. i < n \<and> owns (threads g ! i) = Some s))) \<and>
    ((\<forall>i<n. threads g ! i = Idle) \<longrightarrow> dom (states g) = (case self_state g of None \<Rightarrow> {} | Some s \<Rightarrow> {s})) \<and>
    (cleared g \<longrightarrow> dom (states g) = {} \<and> self_state g = None \<and> (\<forall>i<n. threads g ! i = Idle))"
proof -
  have len: "length (threads g) = n" and inv: "gz_inv g" using gz_reachable [OF lawful_gz_steps [OF assms(2)] assms(1)] assms(3) by auto
  have t: "tidy g" using tidy_reachable [OF assms(2,1)] assms(3) by blast
  note D = gz_invD [OF inv, unfolded len] and T = tidyD [OF t, unfolded len]
  have one: "(self_state g = Some s \<and> (\<forall>i<n. owns (threads g ! i) \<noteq> Some s)) \<or>
      (self_state g \<noteq> Some s \<and> (\<exists>!i. i < n \<and> owns (threads g ! i) = Some s))" if "states g s \<noteq> None" for s
    using that T(1) [OF that] T(2) D(4) owns_lifecycle by (metis (no_types))
  have idle: "dom (states g) = (case self_state g of None \<Rightarrow> {} | Some s \<Rightarrow> {s})" if idle: "\<forall>i<n. threads g ! i = Idle"
  proof -
    have "states g s \<noteq> None \<longleftrightarrow> self_state g = Some s" for s
    proof
      assume "states g s \<noteq> None"
      from T(1) [OF this] idle show "self_state g = Some s" by auto
    qed (use D(3) [of s] in auto)
    then show ?thesis by (auto simp: dom_def split: option.splits)
  qed
  with one T(4,5) show ?thesis by auto
qed

text \<open>An element that is started and then finalized without a \<^verbatim>\<open>stop\<close> owns nothing afterwards.\<close>

theorem states_have_one_owner_witness:
  "\<exists>g. lawful_step\<^sup>*\<^sup>* (gst_gz_img_src_init 1) g \<and> cleared g \<and> dom (states g) = {}"
proof -
  let ?es = "started 0 42 True @ [(0, Finalize), (0, cont), (0, cont), (0, cont), (0, cont), (0, cont), (0, cont)]"
  have "\<exists>g. run_schedule ?es (gst_gz_img_src_init 1) = Some g \<and> lawful_schedule ?es (gst_gz_img_src_init 1) \<and>
      \<not> undefined_behaviour g \<and> cleared g"
    by (simp add: gz_eval new_SourceState_def)
  then obtain g where r: "run_schedule ?es (gst_gz_img_src_init 1) = Some g" "lawful_schedule ?es (gst_gz_img_src_init 1)"
    and g: "\<not> undefined_behaviour g" "cleared g" by blast
  from states_have_one_owner [OF _ lawful_schedule_steps [OF r] g(1), THEN conjunct2, THEN conjunct2] g(2) lawful_schedule_steps [OF r]
  show ?thesis by auto
qed

end
