(* ===== verification/GzImgFrames.thy ===== *)
theory GzImgFrames
  imports GzImgThreads
begin

text \<open>
  Where the buffers of \<^verbatim>\<open>gzimgsrc\<close> come from: over any schedule of calls and steps, what \<^verbatim>\<open>create\<close> pushes is the
  payload of an accepted image that a callback delivered, with the image's format, size and time.
\<close>

section \<open>Frames of images\<close>

definition frame_of :: "Image \<Rightarrow> Frame \<Rightarrow> bool" where
  "frame_of msg f \<longleftrightarrow> (\<exists>fi now d. formatInfoFromGazebo (img_pixel_format msg) = Some fi \<and> validateFrameShape msg fi \<and>
     f = (make_frame now msg fi)\<lparr>fr_duration := d\<rparr>)"

lemma frame_of_make:
  "formatInfoFromGazebo (img_pixel_format msg) = Some fi \<Longrightarrow> validateFrameShape msg fi \<Longrightarrow> frame_of msg (make_frame now msg fi)"
  unfolding frame_of_def by (intro exI [of _ fi] exI [of _ now] exI [of _ GST_CLOCK_TIME_NONE]) (simp add: make_frame_def)

lemma frame_of_duration: "frame_of msg f \<Longrightarrow> frame_of msg (f\<lparr>fr_duration := d\<rparr>)"
  unfolding frame_of_def by force

lemma st_frame_store: "st_frame (store_frame f st) = Some g \<Longrightarrow> \<exists>d. g = f\<lparr>fr_duration := d\<rparr>"
  by (auto simp: store_frame_def Let_def)

text \<open>The image or the frame a thread carries.\<close>

fun pc_image :: "pc \<Rightarrow> Image option" where
  "pc_image (Cb_acquired s m) = Some m" | "pc_image _ = None"

fun pc_frame :: "pc \<Rightarrow> Frame option" where
  "pc_frame (Cb_checked s f) = Some f" | "pc_frame (Cb_locked s f) = Some f" | "pc_frame (Cr_taken s f) = Some f"
| "pc_frame _ = None"

definition pc_from :: "Image set \<Rightarrow> pc \<Rightarrow> bool" where
  "pc_from M p \<longleftrightarrow> (\<forall>m. pc_image p = Some m \<longrightarrow> m \<in> M) \<and> (\<forall>f. pc_frame p = Some f \<longrightarrow> (\<exists>m \<in> M. frame_of m f))"

definition state_from :: "Image set \<Rightarrow> SourceState \<Rightarrow> bool" where
  "state_from M st \<longleftrightarrow> (\<forall>f. st_frame st = Some f \<longrightarrow> (\<exists>m \<in> M. frame_of m f))"

definition result_from :: "Image set \<Rightarrow> GstFlowReturn \<Rightarrow> bool" where
  "result_from M r \<longleftrightarrow> (\<forall>c b. r = GST_FLOW_OK c b \<longrightarrow> (\<exists>m \<in> M. \<exists>f. frame_of m f \<and> c = frame_caps f \<and>
     b = \<lparr>buf_data = fr_data f, buf_pts = fr_pts f, buf_dts = fr_pts f, buf_duration = fr_duration f\<rparr>))"

definition all_from :: "Image set \<Rightarrow> GstGzImgSrc \<Rightarrow> bool" where
  "all_from M g \<longleftrightarrow> list_all (pc_from M) (threads g) \<and> (\<forall>s st. states g s = Some st \<longrightarrow> state_from M st) \<and>
     list_all (result_from M) (results g)"

lemma from_simps [simp]:
  "pc_from M Idle" "pc_from M (Cb_acquired s m) \<longleftrightarrow> m \<in> M" "pc_from M (Cb_rejected s)"
  "pc_from M (Cb_checked s f) \<longleftrightarrow> (\<exists>m \<in> M. frame_of m f)" "pc_from M (Cb_locked s f) \<longleftrightarrow> (\<exists>m \<in> M. frame_of m f)"
  "pc_from M (Cb_stored s)" "pc_from M (Cb_leaving s)" "pc_from M (Cr_acquired s)" "pc_from M (Cr_locked s)" "pc_from M (Cr_waiting s)"
  "pc_from M (Cr_taken s f) \<longleftrightarrow> (\<exists>m \<in> M. frame_of m f)" "pc_from M (Cr_leaving s)"
  "pc_from M (St_swapped s)" "pc_from M (St_locked s)" "pc_from M (St_marked s)" "pc_from M (St_deleting s)"
  "pc_from M Sr_checked" "pc_from M (Sr_created s)" "pc_from M (Sr_published s)" "pc_from M (Sr_failed s)"
  "pc_from M (Sr_unpublished s)" "pc_from M Fi_checked" "pc_from M Fi_stopped"
  by (simp_all add: pc_from_def)

lemma all_from_mono: "all_from M g \<Longrightarrow> M \<subseteq> N \<Longrightarrow> all_from N g"
  unfolding all_from_def pc_from_def state_from_def result_from_def list_all_iff by (meson subsetD)

text \<open>The parts a step is made of.\<close>

lemma goto_from [simp]: "all_from M g \<Longrightarrow> pc_from M p \<Longrightarrow> all_from M (goto i p g)"
  by (auto simp: all_from_def goto_def list_all_iff dest!: set_mp [OF set_update_subset_insert])

lemma put_from [simp]: "all_from M g \<Longrightarrow> state_from M st \<Longrightarrow> all_from M (put_state s st g)"
  by (simp add: all_from_def put_state_def)

lemma state_from_fields [simp]:
  "state_from M (st\<lparr>activeUsers := n\<rparr>) = state_from M st" "state_from M (st\<lparr>mutex_owner := w\<rparr>) = state_from M st"
  "state_from M (st\<lparr>st_frame := None\<rparr>)" "state_from M (st\<lparr>running := b, st_frame := None\<rparr>)"
  by (simp_all add: state_from_def)

lemma all_from_updates [simp]:
  "all_from M (g\<lparr>undefined_behaviour := b\<rparr>) = all_from M g" "all_from M (g\<lparr>self_state := x\<rparr>) = all_from M g"
  "all_from M (g\<lparr>self_topic := w\<rparr>) = all_from M g" "all_from M (g\<lparr>start_results := bs\<rparr>) = all_from M g"
  "all_from M (g\<lparr>finalizing := F\<rparr>) = all_from M g" "all_from M (g\<lparr>cleared := b\<rparr>) = all_from M g"
  "all_from M (g\<lparr>results := r # results g\<rparr>) \<longleftrightarrow> all_from M g \<and> result_from M r"
  by (auto simp: all_from_def)

lemma access_from:
  assumes "access s f g = Some g'" "all_from M g" "\<And>st g'. state_from M st \<Longrightarrow> states g s = Some st \<Longrightarrow> f st = Some g' \<Longrightarrow> all_from M g'"
  shows "all_from M g'"
proof (cases "states g s")
  case None
  with assms(1,2) show ?thesis by (auto simp: access_def all_from_def)
next
  case (Some st)
  with assms(2) have "state_from M st" by (simp add: all_from_def)
  with assms(1,3) Some show ?thesis by (simp add: access_def)
qed

lemma with_lock_from: "with_lock f g = Some g' \<Longrightarrow> all_from M g \<Longrightarrow> (f = Some g' \<Longrightarrow> all_from M g') \<Longrightarrow> all_from M g'"
  by (auto simp: with_lock_def split: if_splits)

lemma release_from: "releaseState i s p g = Some g' \<Longrightarrow> all_from M g \<Longrightarrow> pc_from M p \<Longrightarrow> all_from M g'"
  unfolding releaseState_def by (auto elim!: with_lock_from access_from)

lemma lock_from: "lock_state i s p g = Some g' \<Longrightarrow> all_from M g \<Longrightarrow> pc_from M p \<Longrightarrow> all_from M g'"
  unfolding lock_state_def by (erule access_from) (auto split: option.splits)

lemma unlock_from: "unlock_state i s p g = Some g' \<Longrightarrow> all_from M g \<Longrightarrow> pc_from M p \<Longrightarrow> all_from M g'"
  unfolding unlock_state_def by (erule access_from) (auto split: if_splits)

lemma acquire_from: "acquireState i nxt none g = Some g' \<Longrightarrow> all_from M g \<Longrightarrow> (\<And>s. pc_from M (nxt s)) \<Longrightarrow>
    list_all (result_from M) none \<Longrightarrow> all_from M g'"
  by (auto simp: acquireState_def split: option.splits elim!: with_lock_from access_from) (simp add: all_from_def)

lemma delete_from: "delete_state i s p g = Some g' \<Longrightarrow> all_from M g \<Longrightarrow> pc_from M p \<Longrightarrow> all_from M g'"
proof -
  assume d: "delete_state i s p g = Some g'" "all_from M g" "pc_from M p"
  have "all_from M (g\<lparr>states := (states g)(s := None), undefined_behaviour := u\<rparr>)" for u
    using d(2) by (simp add: all_from_def)
  with d show ?thesis unfolding delete_state_def by (auto elim!: access_from)
qed

lemma swap_from: "swap_state i p g = Some g' \<Longrightarrow> all_from M g \<Longrightarrow> pc_from M p \<Longrightarrow> all_from M g'"
  unfolding swap_state_def by (auto elim!: with_lock_from split: option.splits)

lemma result_from_simps [simp]:
  "result_from M GST_FLOW_FLUSHING" "result_from M GST_FLOW_NOT_NEGOTIATED" "result_from M GST_FLOW_ERROR"
  by (simp_all add: result_from_def)

lemma push_from: "m \<in> M \<Longrightarrow> frame_of m f \<Longrightarrow> result_from M (push_frame sc al f)"
  by (auto simp: push_frame_def result_from_def)

section \<open>Every step\<close>

lemma onGazeboImage_from:
  assumes "onGazeboImage i now g = Some g'" "all_from M g" "i < length (threads g)"
  shows "all_from M g'"
proof -
  have p: "pc_from M (threads g ! i)" using assms(2,3) by (simp add: all_from_def list_all_length)
  show ?thesis
  proof (cases "threads g ! i")
    case (Cb_acquired s m)
    with assms p show ?thesis
      by (auto simp: onGazeboImage_def intro!: goto_from bexI [of _ m] frame_of_make split: option.splits)
  next
    case (Cb_locked s f)
    from p Cb_locked obtain m where m: "m \<in> M" "frame_of m f" by auto
    have st: "state_from M (store_frame f st)" for st
      unfolding state_from_def using m st_frame_store frame_of_duration by blast
    from assms(1) Cb_locked have "access s (\<lambda>st. if \<not> running st then releaseState i s (Cb_leaving s) g
         else unlock_state i s (Cb_stored s) (put_state s (store_frame f st) g)) g = Some g'" by (simp add: onGazeboImage_def)
    then show ?thesis
      by (rule access_from [OF _ assms(2)]) (use assms(2) st in \<open>auto dest!: release_from [where M = M] unlock_from [where M = M] split: if_splits\<close>)
  qed (use assms p in \<open>auto simp: onGazeboImage_def dest!: release_from [where M = M] unlock_from [where M = M] lock_from [where M = M]\<close>)
qed

lemma create_from:
  assumes "gst_gz_img_src_create i sc al g = Some g'" "all_from M g" "i < length (threads g)"
  shows "all_from M g'"
proof -
  have p: "pc_from M (threads g ! i)" using assms(2,3) by (simp add: all_from_def list_all_length)
  show ?thesis
  proof (cases "threads g ! i")
    case (Cr_locked s)
    from assms(1) Cr_locked have "access s (\<lambda>st.
         if running st then (case st_frame st of
             None \<Rightarrow> unlock_state i s (Cr_waiting s) g
           | Some frame \<Rightarrow> unlock_state i s (Cr_taken s frame) (put_state s (st\<lparr>st_frame := None\<rparr>) g))
         else releaseState i s (Cr_leaving s) g) g = Some g'" by (simp add: gst_gz_img_src_create_def)
    then show ?thesis
    proof (rule access_from [OF _ assms(2)])
      fix st h
      assume st: "state_from M st" and h: "(if running st then (case st_frame st of
             None \<Rightarrow> unlock_state i s (Cr_waiting s) g
           | Some frame \<Rightarrow> unlock_state i s (Cr_taken s frame) (put_state s (st\<lparr>st_frame := None\<rparr>) g))
         else releaseState i s (Cr_leaving s) g) = Some h"
      show "all_from M h"
      proof (cases "running st")
        case True
        with h st assms(2) show ?thesis
          by (cases "st_frame st") (auto simp: state_from_def dest!: unlock_from [where M = M])
      next
        case False
        with h assms(2) show ?thesis by (auto dest!: release_from [where M = M])
      qed
    qed
  next
    case (Cr_taken s f)
    from p Cr_taken obtain m where m: "m \<in> M" "frame_of m f" by auto
    with assms Cr_taken show ?thesis
      by (auto simp: gst_gz_img_src_create_def push_from dest!: release_from [where M = M])
  qed (use assms in \<open>auto simp: gst_gz_img_src_create_def dest!: release_from [where M = M] unlock_from [where M = M] lock_from [where M = M]\<close>)
qed

lemma stop_from:
  assumes "gst_gz_img_src_stop i g = Some g'" "all_from M g"
  shows "all_from M g'"
  using assms
  by (cases "threads g ! i")
    (auto simp: gst_gz_img_src_stop_def elim!: with_lock_from access_from swap_from delete_from
      dest!: lock_from [where M = M] unlock_from [where M = M] split: if_splits)

lemma start_from:
  assumes "gst_gz_img_src_start i a sub g = Some g'" "all_from M g"
  shows "all_from M g'"
proof -
  have "state_from M new_SourceState" by (simp add: state_from_def new_SourceState_def)
  with assms show ?thesis
    by (cases "threads g ! i")
      (auto simp: gst_gz_img_src_start_def elim!: with_lock_from access_from dest!: delete_from [where M = M] split: if_splits)
qed

lemma finalize_from:
  assumes "gst_gz_img_src_finalize i g = Some g'" "all_from M g"
  shows "all_from M g'"
  using assms by (cases "threads g ! i") (auto simp: gst_gz_img_src_finalize_def dest: stop_from split: if_splits)

lemma property_from [simp]: "all_from M (gst_gz_img_src_set_property propId v g) = all_from M g"
  by (simp add: all_from_def)

text \<open>The images a step delivers.\<close>

definition delivered :: "(nat \<times> input) list \<Rightarrow> Image set" where
  "delivered es = {m. \<exists>i. (i, OnImage m) \<in> set es}"

lemma advance_from:
  assumes "advance i inp g = Some g'" "all_from M g" "i < length (threads g)"
  shows "all_from (M \<union> delivered [(i, inp)]) g'"
proof -
  have all: "all_from (M \<union> delivered [(i, inp)]) g" using assms(2) by (rule all_from_mono) simp
  show ?thesis
    using assms(1)
  proof (cases rule: advance_cases)
    case (image msg)
    with all show ?thesis by (auto simp: delivered_def elim!: acquire_from)
  next
    case create_call
    with all show ?thesis by (auto elim!: acquire_from)
  next
    case (property propId v)
    with all show ?thesis by simp
  qed (use onGazeboImage_from [OF _ all assms(3)] create_from [OF _ all assms(3)] start_from [OF _ all] stop_from [OF _ all]
      finalize_from [OF _ all] in blast)+
qed

lemma run_schedule_from:
  assumes "run_schedule es g = Some g'" "all_from M g"
  shows "all_from (M \<union> delivered es) g'"
  using assms
proof (induction es g arbitrary: M rule: run_schedule.induct)
  case (1 g)
  then show ?case by (simp add: delivered_def)
next
  case (2 i inp es g)
  then obtain g1 where g1: "i < length (threads g)" "\<not> undefined_behaviour g" "advance i inp g = Some g1" "run_schedule es g1 = Some g'"
    by (auto split: if_splits option.splits)
  have "all_from (M \<union> delivered [(i, inp)]) g1" by (rule advance_from [OF g1(3) "2.prems"(2) g1(1)])
  with "2.IH" [OF _ g1(3,4)] g1(1,2) have "all_from (M \<union> delivered [(i, inp)] \<union> delivered es) g'" by simp
  moreover have "delivered [(i, inp)] \<union> delivered es = delivered ((i, inp) # es)" by (auto simp: delivered_def)
  ultimately show ?case by (simp add: Un_assoc)
qed

lemma all_from_init: "all_from M (gst_gz_img_src_init n)"
  by (simp add: all_from_def gst_gz_img_src_init_def list_all_iff)

text \<open>The accepted image behind a buffer.\<close>

lemma buffer_image:
  assumes "run_schedule es (gst_gz_img_src_init n) = Some g" "GST_FLOW_OK c b \<in> set (results g)"
  obtains i msg fi where "(i, OnImage msg) \<in> set es" "formatInfoFromGazebo (img_pixel_format msg) = Some fi" "validateFrameShape msg fi"
    "c = \<lparr>caps_format = fi_gstFormat fi, caps_width = sint (img_width msg), caps_height = sint (img_height msg), caps_framerate = (0, 1)\<rparr>"
    "buf_data b = img_data msg" "buf_pts b = buf_dts b"
proof -
  have "result_from (delivered es) (GST_FLOW_OK c b)"
    using run_schedule_from [OF assms(1) all_from_init, of "{}"] assms(2) by (simp add: all_from_def list_all_iff)
  then obtain msg f where m: "msg \<in> delivered es" and f: "frame_of msg f" and c: "c = frame_caps f"
    and b: "b = \<lparr>buf_data = fr_data f, buf_pts = fr_pts f, buf_dts = fr_pts f, buf_duration = fr_duration f\<rparr>"
    by (auto simp: result_from_def)
  from m obtain i where i: "(i, OnImage msg) \<in> set es" by (auto simp: delivered_def)
  from f obtain fi now d where fi: "formatInfoFromGazebo (img_pixel_format msg) = Some fi" "validateFrameShape msg fi"
    and ff: "f = (make_frame now msg fi)\<lparr>fr_duration := d\<rparr>" by (auto simp: frame_of_def)
  show thesis by (rule that [OF i fi]) (simp_all add: c b ff frame_caps_def make_frame_def)
qed

section \<open>Properties\<close>

text \<open>C26: whatever the threads do, every buffer \<^verbatim>\<open>create\<close> pushes is the payload of an image that a callback
  delivered and the checks accepted: format and size in its caps are the image's, both time stamps are the
  same, and it is long enough for every byte of every pixel at the image's stride.\<close>

theorem buffers_come_from_images:
  assumes "run_schedule es (gst_gz_img_src_init n) = Some g" "GST_FLOW_OK c b \<in> set (results g)"
  shows "\<exists>i msg fi. (i, OnImage msg) \<in> set es \<and> formatInfoFromGazebo (img_pixel_format msg) = Some fi \<and>
    caps_format c = fi_gstFormat fi \<and> caps_width c = sint (img_width msg) \<and> caps_height c = sint (img_height msg) \<and>
    buf_data b = img_data msg \<and> buf_pts b = buf_dts b \<and>
    (length (img_data msg) < 2 ^ 64 \<longrightarrow> unat (img_step msg) * unat (img_height msg) \<le> length (buf_data b) \<and>
       unat (img_width msg) * unat (fi_bytesPerPixel fi) \<le> unat (img_step msg))"
proof -
  obtain i msg fi where m: "(i, OnImage msg) \<in> set es" "formatInfoFromGazebo (img_pixel_format msg) = Some fi" "validateFrameShape msg fi"
    "c = \<lparr>caps_format = fi_gstFormat fi, caps_width = sint (img_width msg), caps_height = sint (img_height msg), caps_framerate = (0, 1)\<rparr>"
    "buf_data b = img_data msg" "buf_pts b = buf_dts b" by (rule buffer_image [OF assms])
  have "unat (img_step msg) * unat (img_height msg) \<le> length (img_data msg) \<and>
      unat (img_width msg) * unat (fi_bytesPerPixel fi) \<le> unat (img_step msg)" if "length (img_data msg) < 2 ^ 64"
    using frame_shape_iff [OF that, of fi] m(3) by blast
  with m show ?thesis by (intro exI [of _ i] exI [of _ msg] exI [of _ fi]) simp
qed

text \<open>One image through the element: started, delivered, taken.\<close>

definition one_image :: "(nat \<times> input) list" where
  "one_image = started 0 42 True @ [(0, OnImage grey_pixel), (0, cont), (0, cont), (0, cont), (0, cont),
     (0, Create), (0, cont), (0, cont), (0, cont)]"

theorem buffers_come_from_images_witness:
  "\<exists>g c b. run_schedule one_image (gst_gz_img_src_init 1) = Some g \<and> GST_FLOW_OK c b \<in> set (results g) \<and>
     buf_data b = [7] \<and> buf_pts b = buf_dts b \<and> caps_format c = ''GRAY8''"
proof -
  have f: "formatInfoFromGazebo (img_pixel_format grey_pixel) = Some \<lparr>fi_gstFormat = ''GRAY8'', fi_bytesPerPixel = 1\<rparr>"
    using grey_pixel_accepted(1) by (simp add: grey_pixel_def)
  have "\<exists>g c b. run_schedule one_image (gst_gz_img_src_init 1) = Some g \<and> GST_FLOW_OK c b \<in> set (results g)"
    using f grey_pixel_accepted(2)
    by (simp add: one_image_def gz_eval new_SourceState_def store_frame_def push_frame_def Let_def)
  then obtain g c b where g: "run_schedule one_image (gst_gz_img_src_init 1) = Some g" "GST_FLOW_OK c b \<in> set (results g)" by blast
  from buffers_come_from_images [OF g] obtain i msg fi where i: "(i, OnImage msg) \<in> set one_image"
    and fi: "formatInfoFromGazebo (img_pixel_format msg) = Some fi"
    and r: "caps_format c = fi_gstFormat fi" "buf_data b = img_data msg" "buf_pts b = buf_dts b" by blast
  from i have "msg = grey_pixel" by (auto simp: one_image_def cont_def started_def)
  with g r fi f show ?thesis by (intro exI [of _ g] exI [of _ c] exI [of _ b]) (simp add: grey_pixel_def)
qed

text \<open>Pixel \<open>(x, y)\<close> of an image: its bytes at the image's stride.\<close>

definition image_pixel :: "Image \<Rightarrow> nat \<Rightarrow> nat \<Rightarrow> nat \<Rightarrow> u8 list" where
  "image_pixel msg bpp x y = take bpp (drop (y * unat (img_step msg) + x * bpp) (img_data msg))"

text \<open>C36: the stride of a frame is stored and never used: neither the caps nor the buffer carry it, so two images
  whose pixels differ, one with padded rows and one without, are pushed as the same buffer.\<close>

theorem row_padding_lost:
  "\<exists>m1 m2 fi. formatInfoFromGazebo (img_pixel_format m1) = Some fi \<and> formatInfoFromGazebo (img_pixel_format m2) = Some fi \<and>
     validateFrameShape m1 fi \<and> validateFrameShape m2 fi \<and> image_pixel m1 1 0 1 \<noteq> image_pixel m2 1 0 1 \<and>
     (\<forall>now set_caps alloc. push_frame set_caps alloc (make_frame now m1 fi) = push_frame set_caps alloc (make_frame now m2 fi))"
proof -
  let ?m = "\<lambda>s. \<lparr>img_pixel_format = L_INT8, img_width = 1, img_height = 2, img_step = s, img_data = [1, 2, 3, 4]\<rparr>"
  let ?fi = "\<lparr>fi_gstFormat = ''GRAY8'', fi_bytesPerPixel = 1\<rparr>"
  have v: "validateFrameShape (?m 1) ?fi" "validateFrameShape (?m 2) ?fi"
    using frame_shape_iff [of "?m 1" ?fi] frame_shape_iff [of "?m 2" ?fi] by simp_all
  have px: "image_pixel (?m 1) 1 0 1 \<noteq> image_pixel (?m 2) 1 0 1" by (simp add: image_pixel_def)
  have p: "push_frame sc al (make_frame now (?m 1) ?fi) = push_frame sc al (make_frame now (?m 2) ?fi)" for sc al now
    by (simp add: push_frame_def make_frame_def frame_caps_def)
  have f: "formatInfoFromGazebo (img_pixel_format (?m s)) = Some ?fi" for s by (simp add: formatInfoFromGazebo_def)
  from v px p f show ?thesis by blast
qed

end
