(* ===== verification/RedDetect.thy ===== *)
theory RedDetect
  imports Prelude
begin

text \<open>
  \<^verbatim>\<open>gst/gst_detector/src/controlledreddetect.cpp\<close>: the GStreamer filter that looks for red pixels in a
  frame and attaches what it found to the buffer as metadata.  OpenCV and GStreamer are arguments.
\<close>

section \<open>The element and its properties\<close>

text \<open>The part of \<^verbatim>\<open>GstVideoInfo\<close> that a mapped frame takes over.\<close>

record GstVideoInfo =
  vi_width :: nat
  vi_height :: nat
  vi_stride :: nat

record GstControlledRedDetect =
  videoInfo :: GstVideoInfo
  detectionEnabled :: bool
  lowH :: u32
  lowS :: u32
  lowV :: u32
  highH :: u32
  highS :: u32
  highV :: u32

text \<open>\<open>info\<close> is what \<^verbatim>\<open>gst_video_info_init\<close> leaves.\<close>

definition gst_controlled_red_detect_init :: "GstVideoInfo \<Rightarrow> GstControlledRedDetect" where
  "gst_controlled_red_detect_init info = \<lparr>videoInfo = info, detectionEnabled = True, lowH = 0, lowS = 100, lowV = 100,
     highH = 10, highS = 255, highV = 255\<rparr>"

datatype red_prop = PROP_DETECTION_ENABLED | PROP_LOW_H | PROP_LOW_S | PROP_LOW_V | PROP_HIGH_H | PROP_HIGH_S | PROP_HIGH_V
  | PROP_UNKNOWN nat

text \<open>A \<^verbatim>\<open>GValue\<close> of the two types in use; a getter of the wrong type returns \<^verbatim>\<open>FALSE\<close> or 0.\<close>

datatype GValue = BooleanValue bool | UintValue u32

fun g_value_get_boolean :: "GValue \<Rightarrow> bool" where
  "g_value_get_boolean (BooleanValue b) = b"
| "g_value_get_boolean (UintValue n) = False"

fun g_value_get_uint :: "GValue \<Rightarrow> u32" where
  "g_value_get_uint (UintValue n) = n"
| "g_value_get_uint (BooleanValue b) = 0"

definition gst_controlled_red_detect_set_property ::
  "red_prop \<Rightarrow> GValue \<Rightarrow> GstControlledRedDetect \<Rightarrow> GstControlledRedDetect" where
  "gst_controlled_red_detect_set_property propertyId v self = (case propertyId of
       PROP_DETECTION_ENABLED \<Rightarrow> self\<lparr>detectionEnabled := g_value_get_boolean v\<rparr>
     | PROP_LOW_H \<Rightarrow> self\<lparr>lowH := g_value_get_uint v\<rparr>
     | PROP_LOW_S \<Rightarrow> self\<lparr>lowS := g_value_get_uint v\<rparr>
     | PROP_LOW_V \<Rightarrow> self\<lparr>lowV := g_value_get_uint v\<rparr>
     | PROP_HIGH_H \<Rightarrow> self\<lparr>highH := g_value_get_uint v\<rparr>
     | PROP_HIGH_S \<Rightarrow> self\<lparr>highS := g_value_get_uint v\<rparr>
     | PROP_HIGH_V \<Rightarrow> self\<lparr>highV := g_value_get_uint v\<rparr>
     | PROP_UNKNOWN n \<Rightarrow> self)"

definition gst_controlled_red_detect_get_property :: "red_prop \<Rightarrow> GstControlledRedDetect \<Rightarrow> GValue option" where
  "gst_controlled_red_detect_get_property propertyId self = (case propertyId of
       PROP_DETECTION_ENABLED \<Rightarrow> Some (BooleanValue (detectionEnabled self))
     | PROP_LOW_H \<Rightarrow> Some (UintValue (lowH self))
     | PROP_LOW_S \<Rightarrow> Some (UintValue (lowS self))
     | PROP_LOW_V \<Rightarrow> Some (UintValue (lowV self))
     | PROP_HIGH_H \<Rightarrow> Some (UintValue (highH self))
     | PROP_HIGH_S \<Rightarrow> Some (UintValue (highS self))
     | PROP_HIGH_V \<Rightarrow> Some (UintValue (highV self))
     | PROP_UNKNOWN n \<Rightarrow> None)"

text \<open>\<open>from_caps\<close> is \<^verbatim>\<open>gst_video_info_from_caps\<close>: its result and what it leaves in its argument.\<close>

definition gst_controlled_red_detect_set_caps ::
  "('caps \<Rightarrow> GstVideoInfo \<Rightarrow> bool \<times> GstVideoInfo) \<Rightarrow> 'caps \<Rightarrow> GstControlledRedDetect \<Rightarrow> bool \<times> GstControlledRedDetect" where
  "gst_controlled_red_detect_set_caps from_caps inputCaps self = (case from_caps inputCaps (videoInfo self) of
     (ok, info) \<Rightarrow> (ok, self\<lparr>videoInfo := info\<rparr>))"

section \<open>Metadata\<close>

definition kDetectionMetaName :: string where
  "kDetectionMetaName = ''GstRedDetectionMeta''"

record DetectionMeta =
  dm_found :: bool
  dm_x :: int
  dm_y :: int
  dm_width :: int
  dm_height :: int

record DetectBuffer =
  db_data :: "u8 list"
  db_metas :: "(string \<times> DetectionMeta) list"

text \<open>The names of the registered kinds of metadata, which are global to the process.\<close>

definition ensureDetectionMetaRegistered :: "string list \<Rightarrow> string list" where
  "ensureDetectionMetaRegistered registered =
     (if kDetectionMetaName \<in> set registered then registered else kDetectionMetaName # registered)"

text \<open>\<open>add_meta\<close> tells whether \<^verbatim>\<open>gst_buffer_add_custom_meta\<close> succeeds for a name.\<close>

definition attachDetectionMeta ::
  "(string list \<Rightarrow> string \<Rightarrow> bool) \<Rightarrow> bool \<Rightarrow> int \<Rightarrow> int \<Rightarrow> int \<Rightarrow> int \<Rightarrow> DetectBuffer \<Rightarrow> string list \<Rightarrow> DetectBuffer \<times> string list" where
  "attachDetectionMeta add_meta found x y width height buffer registered = (let
     registered = ensureDetectionMetaRegistered registered in
     if \<not> add_meta registered kDetectionMetaName then (buffer, registered)
     else (buffer\<lparr>db_metas := db_metas buffer @ [(kDetectionMetaName,
       \<lparr>dm_found = found, dm_x = x, dm_y = y, dm_width = width, dm_height = height\<rparr>)]\<rparr>, registered))"

section \<open>The transformation\<close>

type_synonym pixel = "u8 \<times> u8 \<times> u8"
type_synonym 'a mat = "'a list list"

record cv_Rect =
  rect_x :: int
  rect_y :: int
  rect_width :: int
  rect_height :: int

text \<open>The OpenCV functions in use; matrices are lists of rows, a point is its column and row.\<close>

record opencv =
  cv_cvtColor :: "pixel mat \<Rightarrow> pixel mat outcome"
  cv_inRange :: "pixel mat \<Rightarrow> int \<times> int \<times> int \<Rightarrow> int \<times> int \<times> int \<Rightarrow> u8 mat"
  cv_findNonZero :: "u8 mat \<Rightarrow> (int \<times> int) list"
  cv_boundingRect :: "(int \<times> int) list \<Rightarrow> cv_Rect"

record VideoFrame =
  vf_plane :: "u8 list"
  vf_width :: nat
  vf_height :: nat
  vf_stride :: nat

text \<open>The \<^verbatim>\<open>cv::Mat\<close> over the plane: three bytes per pixel, rows a stride apart.  Reading past the plane is
  undefined.\<close>

definition rgb_pixel :: "VideoFrame \<Rightarrow> nat \<Rightarrow> nat \<Rightarrow> pixel" where
  "rgb_pixel f x y = (let i = y * vf_stride f + 3 * x; d = vf_plane f in (d ! i, d ! (i + 1), d ! (i + 2)))"

definition plane_covers :: "VideoFrame \<Rightarrow> bool" where
  "plane_covers f \<longleftrightarrow> vf_width f = 0 \<or> vf_height f = 0 \<or>
     (vf_height f - 1) * vf_stride f + 3 * vf_width f \<le> length (vf_plane f)"

definition rgb_mat :: "VideoFrame \<Rightarrow> pixel mat outcome" where
  "rgb_mat f = (if plane_covers f
     then Ok (map (\<lambda>y. map (\<lambda>x. rgb_pixel f x y) [0..<vf_width f]) [0..<vf_height f]) else Undefined)"

datatype red_flow = RED_FLOW_OK | RED_FLOW_ERROR

text \<open>\<open>map_frame\<close> is \<^verbatim>\<open>gst_video_frame_map\<close>.  An OpenCV exception leaves the function through \<^verbatim>\<open>Throw\<close>.\<close>

definition gst_controlled_red_detect_transform_ip ::
  "opencv \<Rightarrow> (GstVideoInfo \<Rightarrow> DetectBuffer \<Rightarrow> VideoFrame option) \<Rightarrow> (string list \<Rightarrow> string \<Rightarrow> bool) \<Rightarrow>
   GstControlledRedDetect \<Rightarrow> DetectBuffer \<Rightarrow> string list \<Rightarrow> (red_flow \<times> DetectBuffer \<times> string list) outcome" where
  "gst_controlled_red_detect_transform_ip cv map_frame add_meta self buffer registered = (
     if \<not> detectionEnabled self then Ok (RED_FLOW_OK, attachDetectionMeta add_meta False 0 0 0 0 buffer registered)
     else (case map_frame (videoInfo self) buffer of
       None \<Rightarrow> Ok (RED_FLOW_ERROR, buffer, registered)
     | Some videoFrame \<Rightarrow>
         obind (rgb_mat videoFrame) (\<lambda>rgb.
         obind (cv_cvtColor cv rgb) (\<lambda>hsv.
           let mask = cv_inRange cv hsv (uint (lowH self), uint (lowS self), uint (lowV self))
                 (uint (highH self), uint (highS self), uint (highV self));
               redPixels = cv_findNonZero cv mask
           in if redPixels \<noteq> []
              then (let box = cv_boundingRect cv redPixels in
                Ok (RED_FLOW_OK, attachDetectionMeta add_meta True (rect_x box) (rect_y box) (rect_width box) (rect_height box)
                  buffer registered))
              else Ok (RED_FLOW_OK, attachDetectionMeta add_meta False 0 0 0 0 buffer registered)))))"

section \<open>What the filter relies on and promises\<close>

fun channels_in :: "int \<times> int \<times> int \<Rightarrow> int \<times> int \<times> int \<Rightarrow> pixel \<Rightarrow> bool" where
  "channels_in (la, lb, lc) (ha, hb, hc) (a, b, c) = (la \<le> uint a \<and> uint a \<le> ha \<and> lb \<le> uint b \<and> uint b \<le> hb \<and> lc \<le> uint c \<and> uint c \<le> hc)"

text \<open>OpenCV's documentation: \<^verbatim>\<open>cvtColor\<close> converts pixel by pixel and only rejects an empty matrix, \<^verbatim>\<open>inRange\<close>
  gives 255 exactly where every channel is within its inclusive bounds, \<^verbatim>\<open>findNonZero\<close> lists the locations
  of the non-zero elements, \<^verbatim>\<open>boundingRect\<close> is the smallest upright rectangle of pixels with all points.\<close>

definition is_bounding_rect :: "(int \<times> int) set \<Rightarrow> cv_Rect \<Rightarrow> bool" where
  "is_bounding_rect ps r \<longleftrightarrow> rect_x r = Min (fst ` ps) \<and> rect_y r = Min (snd ` ps) \<and>
     rect_width r = Max (fst ` ps) - Min (fst ` ps) + 1 \<and> rect_height r = Max (snd ` ps) - Min (snd ` ps) + 1"

definition nonzero_points :: "u8 mat \<Rightarrow> (int \<times> int) set" where
  "nonzero_points m = {(int x, int y) | x y. y < length m \<and> x < length (m ! y) \<and> m ! y ! x \<noteq> 0}"

definition opencv_documented :: "opencv \<Rightarrow> (pixel \<Rightarrow> pixel) \<Rightarrow> bool" where
  "opencv_documented cv hsv \<longleftrightarrow>
     (\<forall>m. m \<noteq> [] \<and> hd m \<noteq> [] \<longrightarrow> cv_cvtColor cv m = Ok (map (map hsv) m)) \<and>
     (\<forall>m l h. cv_inRange cv m l h = map (map (\<lambda>p. if channels_in l h p then 255 else 0)) m) \<and>
     (\<forall>m. set (cv_findNonZero cv m) = nonzero_points m) \<and>
     (\<forall>ps. ps \<noteq> [] \<longrightarrow> is_bounding_rect (set ps) (cv_boundingRect cv ps))"

text \<open>The red pixels of a frame, by the thresholds of the element.\<close>

definition red :: "(pixel \<Rightarrow> pixel) \<Rightarrow> GstControlledRedDetect \<Rightarrow> VideoFrame \<Rightarrow> nat \<Rightarrow> nat \<Rightarrow> bool" where
  "red hsv self f x y \<longleftrightarrow> x < vf_width f \<and> y < vf_height f \<and>
     channels_in (uint (lowH self), uint (lowS self), uint (lowV self)) (uint (highH self), uint (highS self), uint (highV self))
       (hsv (rgb_pixel f x y))"

definition in_box :: "DetectionMeta \<Rightarrow> nat \<Rightarrow> nat \<Rightarrow> bool" where
  "in_box b x y \<longleftrightarrow> dm_x b \<le> int x \<and> int x < dm_x b + dm_width b \<and> dm_y b \<le> int y \<and> int y < dm_y b + dm_height b"

definition no_detection :: DetectionMeta where
  "no_detection = \<lparr>dm_found = False, dm_x = 0, dm_y = 0, dm_width = 0, dm_height = 0\<rparr>"

text \<open>What a detection must say of a frame: it is positive exactly when a pixel is red; then its box lies in the
  frame, contains the red pixels and has one on each of its four sides.\<close>

definition detection_of :: "(nat \<Rightarrow> nat \<Rightarrow> bool) \<Rightarrow> VideoFrame \<Rightarrow> DetectionMeta \<Rightarrow> bool" where
  "detection_of R f d \<longleftrightarrow> (if \<exists>x y. R x y then dm_found d \<and>
       (\<forall>x y. R x y \<longrightarrow> in_box d x y) \<and>
       (\<exists>x y. R x y \<and> int x = dm_x d) \<and> (\<exists>x y. R x y \<and> int x = dm_x d + dm_width d - 1) \<and>
       (\<exists>x y. R x y \<and> int y = dm_y d) \<and> (\<exists>x y. R x y \<and> int y = dm_y d + dm_height d - 1) \<and>
       0 \<le> dm_x d \<and> 0 \<le> dm_y d \<and> 0 < dm_width d \<and> 0 < dm_height d \<and>
       dm_x d + dm_width d \<le> int (vf_width f) \<and> dm_y d + dm_height d \<le> int (vf_height f)
     else d = no_detection)"

section \<open>Lemmas\<close>

lemma detection_of_bounding_rect:
  fixes R :: "nat \<Rightarrow> nat \<Rightarrow> bool"
  defines "ps \<equiv> {(int x, int y) | x y. R x y}"
  assumes "finite ps" "ps \<noteq> {}" "is_bounding_rect ps b" "\<And>x y. R x y \<Longrightarrow> x < vf_width f \<and> y < vf_height f"
  shows "detection_of R f \<lparr>dm_found = True, dm_x = rect_x b, dm_y = rect_y b, dm_width = rect_width b, dm_height = rect_height b\<rparr>"
    (is "detection_of R f ?d")
proof -
  let ?X = "fst ` ps" and ?Y = "snd ` ps"
  have F: "finite ?X" "finite ?Y" "?X \<noteq> {}" "?Y \<noteq> {}" using assms(2,3) by auto
  have ex: "\<exists>x y. R x y" using assms(3) by (auto simp: ps_def)
  have b: "rect_x b = Min ?X" "rect_y b = Min ?Y" "rect_x b + rect_width b = Max ?X + 1" "rect_y b + rect_height b = Max ?Y + 1"
    using assms(4) by (simp_all add: is_bounding_rect_def)
  have X: "v \<in> ?X \<Longrightarrow> \<exists>x y. R x y \<and> v = int x" and Y: "v \<in> ?Y \<Longrightarrow> \<exists>x y. R x y \<and> v = int y" for v
    by (auto simp: ps_def)
  have bounds: "Min ?X \<le> int x \<and> int x \<le> Max ?X \<and> Min ?Y \<le> int y \<and> int y \<le> Max ?Y" if "R x y" for x y
  proof -
    from that have "(int x, int y) \<in> ps" by (auto simp: ps_def)
    then have "int x \<in> ?X" "int y \<in> ?Y" by force+
    with F show ?thesis by simp
  qed
  obtain x1 y1 where 1: "R x1 y1" "Min ?X = int x1" using X [OF Min_in [OF F(1,3)]] by blast
  obtain x2 y2 where 2: "R x2 y2" "Max ?X = int x2" using X [OF Max_in [OF F(1,3)]] by blast
  obtain x3 y3 where 3: "R x3 y3" "Min ?Y = int y3" using Y [OF Min_in [OF F(2,4)]] by blast
  obtain x4 y4 where 4: "R x4 y4" "Max ?Y = int y4" using Y [OF Max_in [OF F(2,4)]] by blast
  have box: "in_box ?d x y" if "R x y" for x y
    using bounds [OF that] b by (simp add: in_box_def)
  have sides: "int x1 = dm_x ?d" "int x2 = dm_x ?d + dm_width ?d - 1" "int y3 = dm_y ?d" "int y4 = dm_y ?d + dm_height ?d - 1"
    using b 1(2) 2(2) 3(2) 4(2) by simp_all
  have size: "0 \<le> dm_x ?d" "0 \<le> dm_y ?d" "0 < dm_width ?d" "0 < dm_height ?d"
    "dm_x ?d + dm_width ?d \<le> int (vf_width f)" "dm_y ?d + dm_height ?d \<le> int (vf_height f)"
  proof -
    have "x2 < vf_width f" "y4 < vf_height f" using assms(5) [OF 2(1)] assms(5) [OF 4(1)] by blast+
    moreover have "int x1 \<le> int x2" "int y3 \<le> int y4"
      using bounds [OF 1(1)] bounds [OF 3(1)] 2(2) 4(2) by linarith+
    ultimately show "0 \<le> dm_x ?d" "0 \<le> dm_y ?d" "0 < dm_width ?d" "0 < dm_height ?d"
      "dm_x ?d + dm_width ?d \<le> int (vf_width f)" "dm_y ?d + dm_height ?d \<le> int (vf_height f)"
      using sides by linarith+
  qed
  show ?thesis
    unfolding detection_of_def if_P [OF ex]
  proof (intro conjI allI impI)
    show "in_box ?d x y" if "R x y" for x y by (rule box [OF that])
    show "\<exists>x y. R x y \<and> int x = dm_x ?d" using 1(1) sides(1) by blast
    show "\<exists>x y. R x y \<and> int x = dm_x ?d + dm_width ?d - 1" using 2(1) sides(2) by blast
    show "\<exists>x y. R x y \<and> int y = dm_y ?d" using 3(1) sides(3) by blast
    show "\<exists>x y. R x y \<and> int y = dm_y ?d + dm_height ?d - 1" using 4(1) sides(4) by blast
  qed (rule size refl | simp)+
qed

lemma mask_points:
  assumes "rgb_mat f = Ok m"
  shows "nonzero_points (map (map (\<lambda>p. if channels_in l h p then 255 else 0)) (map (map hsv) m)) =
    {(int x, int y) | x y. x < vf_width f \<and> y < vf_height f \<and> channels_in l h (hsv (rgb_pixel f x y))}"
proof -
  have m: "m = map (\<lambda>y. map (\<lambda>x. rgb_pixel f x y) [0..<vf_width f]) [0..<vf_height f]"
    using assms by (simp add: rgb_mat_def split: if_splits)
  show ?thesis unfolding nonzero_points_def m by (auto split: if_splits)
qed

lemma finite_red: "finite {(int x, int y) | x y. x < (w :: nat) \<and> y < (h :: nat) \<and> P x y}"
  by (rule finite_subset [of _ "(\<lambda>(x, y). (int x, int y)) ` ({..<w} \<times> {..<h})"]) auto

lemma attach_ok:
  assumes "\<And>names. kDetectionMetaName \<in> set names \<Longrightarrow> add_meta names kDetectionMetaName"
  shows "attachDetectionMeta add_meta fnd x y w h buffer registered =
    (buffer\<lparr>db_metas := db_metas buffer @ [(kDetectionMetaName, \<lparr>dm_found = fnd, dm_x = x, dm_y = y, dm_width = w, dm_height = h\<rparr>)]\<rparr>,
     ensureDetectionMetaRegistered registered)"
  by (simp add: attachDetectionMeta_def Let_def assms ensureDetectionMetaRegistered_def)

text \<open>A property that was set is read back, and setting one leaves the others and the caps alone.\<close>

definition value_fits :: "red_prop \<Rightarrow> GValue \<Rightarrow> bool" where
  "value_fits p v \<longleftrightarrow> (case v of BooleanValue b \<Rightarrow> p = PROP_DETECTION_ENABLED
     | UintValue n \<Rightarrow> p \<noteq> PROP_DETECTION_ENABLED \<and> (\<forall>i. p \<noteq> PROP_UNKNOWN i))"

lemma property_get_set:
  assumes "value_fits p v"
  shows "gst_controlled_red_detect_get_property q (gst_controlled_red_detect_set_property p v self) =
    (if q = p then Some v else gst_controlled_red_detect_get_property q self)"
  using assms by (cases p; cases v; cases q)
    (simp_all add: value_fits_def gst_controlled_red_detect_get_property_def gst_controlled_red_detect_set_property_def)

text \<open>The enabled filter on a frame it can map.\<close>

lemma detect_frame:
  assumes "opencv_documented cv hsv" "\<And>names. kDetectionMetaName \<in> set names \<Longrightarrow> add_meta names kDetectionMetaName"
    and "detectionEnabled self" "map_frame (videoInfo self) buffer = Some f" "plane_covers f" "0 < vf_width f" "0 < vf_height f"
  shows "\<exists>d. gst_controlled_red_detect_transform_ip cv map_frame add_meta self buffer registered =
      Ok (RED_FLOW_OK, buffer\<lparr>db_metas := db_metas buffer @ [(kDetectionMetaName, d)]\<rparr>, ensureDetectionMetaRegistered registered) \<and>
    detection_of (red hsv self f) f d"
proof -
  note A = attach_ok [of add_meta, OF assms(2)]
  obtain m where m: "rgb_mat f = Ok m" and ne: "m \<noteq> []" "hd m \<noteq> []"
    using assms(5-7) by (auto simp: rgb_mat_def hd_map)
  let ?l = "(uint (lowH self), uint (lowS self), uint (lowV self))" and ?h = "(uint (highH self), uint (highS self), uint (highV self))"
  let ?ps = "cv_findNonZero cv (cv_inRange cv (map (map hsv) m) ?l ?h)"
  let ?P = "{(int x, int y) | x y. red hsv self f x y}"
  have hsv: "cv_cvtColor cv m = Ok (map (map hsv) m)" using assms(1) ne by (simp add: opencv_documented_def)
  have ps: "set ?ps = ?P"
    using assms(1) mask_points [OF m] by (simp add: opencv_documented_def red_def)
  have fin: "finite ?P" unfolding red_def by (rule finite_red)
  show ?thesis
  proof (cases "?ps = []")
    case True
    with ps have none: "\<not> (\<exists>x y. red hsv self f x y)" by auto
    have "gst_controlled_red_detect_transform_ip cv map_frame add_meta self buffer registered =
        Ok (RED_FLOW_OK, attachDetectionMeta add_meta False 0 0 0 0 buffer registered)"
      using True by (simp add: gst_controlled_red_detect_transform_ip_def assms(3,4) m hsv Let_def)
    with none show ?thesis by (simp add: A detection_of_def no_detection_def)
  next
    case False
    let ?b = "cv_boundingRect cv ?ps"
    have "q \<noteq> [] \<Longrightarrow> is_bounding_rect (set q) (cv_boundingRect cv q)" for q
      using assms(1) by (simp add: opencv_documented_def)
    from this [OF False] have "is_bounding_rect ?P ?b" unfolding ps .
    moreover have "?P \<noteq> {}" unfolding ps [symmetric] using False by (simp only: set_empty) simp
    moreover obtain d where d: "d = \<lparr>dm_found = True, dm_x = rect_x ?b, dm_y = rect_y ?b, dm_width = rect_width ?b, dm_height = rect_height ?b\<rparr>" by blast
    ultimately have D: "detection_of (red hsv self f) f d"
      unfolding d using fin by (intro detection_of_bounding_rect) (auto simp: red_def)
    have "gst_controlled_red_detect_transform_ip cv map_frame add_meta self buffer registered =
        Ok (RED_FLOW_OK, buffer\<lparr>db_metas := db_metas buffer @ [(kDetectionMetaName, d)]\<rparr>, ensureDetectionMetaRegistered registered)"
      using False by (simp add: gst_controlled_red_detect_transform_ip_def assms(3,4) m hsv Let_def A d)
    then show ?thesis using D by auto
  qed
qed

section \<open>Properties\<close>

text \<open>C28: with OpenCV as documented, every frame the enabled filter can map gets one metadata record, positive
  exactly when a pixel lies within the thresholds, with the tight box of these pixels; the disabled filter
  attaches a negative record without looking at the frame, and a frame that cannot be mapped is an error
  that leaves the buffer alone.\<close>

theorem detection_contract:
  assumes "opencv_documented cv hsv" "\<And>names. kDetectionMetaName \<in> set names \<Longrightarrow> add_meta names kDetectionMetaName"
    and "\<And>f. map_frame (videoInfo self) buffer = Some f \<Longrightarrow> plane_covers f \<and> 0 < vf_width f \<and> 0 < vf_height f"
  shows "case gst_controlled_red_detect_transform_ip cv map_frame add_meta self buffer registered of
      Ok (RED_FLOW_OK, buffer', _) \<Rightarrow> \<exists>d. buffer' = buffer\<lparr>db_metas := db_metas buffer @ [(kDetectionMetaName, d)]\<rparr> \<and>
        (if detectionEnabled self
         then \<exists>f. map_frame (videoInfo self) buffer = Some f \<and> detection_of (red hsv self f) f d
         else d = no_detection)
    | Ok (RED_FLOW_ERROR, buffer', _) \<Rightarrow> detectionEnabled self \<and> map_frame (videoInfo self) buffer = None \<and> buffer' = buffer
    | _ \<Rightarrow> False"
proof (cases "detectionEnabled self \<and> map_frame (videoInfo self) buffer \<noteq> None")
  case False
  note A = attach_ok [of add_meta, OF assms(2)]
  from False show ?thesis by (auto simp: gst_controlled_red_detect_transform_ip_def A no_detection_def)
next
  case True
  then obtain f where f: "detectionEnabled self" "map_frame (videoInfo self) buffer = Some f" by blast
  from assms(3) [OF f(2)] have "\<exists>d. gst_controlled_red_detect_transform_ip cv map_frame add_meta self buffer registered =
      Ok (RED_FLOW_OK, buffer\<lparr>db_metas := db_metas buffer @ [(kDetectionMetaName, d)]\<rparr>, ensureDetectionMetaRegistered registered) \<and>
    detection_of (red hsv self f) f d"
    by (intro detect_frame [of cv hsv add_meta self map_frame buffer f] assms(1,2) f) blast+
  with f show ?thesis by auto
qed

text \<open>OpenCV's functions, executed, with a conversion that leaves the channels alone, and a frame of two pixels
  of which the second is red.\<close>

definition sample_cv :: opencv where
  "sample_cv = \<lparr>cv_cvtColor = (\<lambda>m. Ok (map (map id) m)),
     cv_inRange = (\<lambda>m l h. map (map (\<lambda>p. if channels_in l h p then 255 else 0)) m),
     cv_findNonZero = (\<lambda>m. concat (map (\<lambda>y. map (\<lambda>x. (int x, int y)) (filter (\<lambda>x. m ! y ! x \<noteq> 0) [0..<length (m ! y)])) [0..<length m])),
     cv_boundingRect = (\<lambda>ps. \<lparr>rect_x = Min (fst ` set ps), rect_y = Min (snd ` set ps),
       rect_width = Max (fst ` set ps) - Min (fst ` set ps) + 1, rect_height = Max (snd ` set ps) - Min (snd ` set ps) + 1\<rparr>)\<rparr>"

lemma sample_cv_documented: "opencv_documented sample_cv id"
  by (simp add: opencv_documented_def sample_cv_def is_bounding_rect_def) (auto simp: nonzero_points_def)

definition two_pixels :: DetectBuffer where
  "two_pixels = \<lparr>db_data = [0, 0, 0, 5, 200, 200], db_metas = []\<rparr>"

definition sample_map :: "GstVideoInfo \<Rightarrow> DetectBuffer \<Rightarrow> VideoFrame option" where
  "sample_map info b = Some \<lparr>vf_plane = db_data b, vf_width = 2, vf_height = 1, vf_stride = 6\<rparr>"

theorem detection_contract_witness:
  "\<exists>d r. gst_controlled_red_detect_transform_ip sample_cv sample_map (\<lambda>ns n. n \<in> set ns)
      (gst_controlled_red_detect_init \<lparr>vi_width = 2, vi_height = 1, vi_stride = 6\<rparr>) two_pixels [] =
      Ok (RED_FLOW_OK, two_pixels\<lparr>db_metas := [(kDetectionMetaName, d)]\<rparr>, r) \<and>
    dm_found d \<and> in_box d 1 0"
proof -
  let ?self = "gst_controlled_red_detect_init \<lparr>vi_width = 2, vi_height = 1, vi_stride = 6\<rparr>"
  let ?r = "gst_controlled_red_detect_transform_ip sample_cv sample_map (\<lambda>ns n. n \<in> set ns) ?self two_pixels []"
  have en: "detectionEnabled ?self" by (simp add: gst_controlled_red_detect_init_def)
  have c: "case ?r of
      Ok (RED_FLOW_OK, buffer', _) \<Rightarrow> \<exists>d. buffer' = two_pixels\<lparr>db_metas := db_metas two_pixels @ [(kDetectionMetaName, d)]\<rparr> \<and>
        (if detectionEnabled ?self
         then \<exists>f. sample_map (videoInfo ?self) two_pixels = Some f \<and> detection_of (red id ?self f) f d
         else d = no_detection)
    | Ok (RED_FLOW_ERROR, buffer', _) \<Rightarrow> detectionEnabled ?self \<and> sample_map (videoInfo ?self) two_pixels = None \<and> buffer' = two_pixels
    | _ \<Rightarrow> False"
    by (rule detection_contract [OF sample_cv_documented]) (auto simp: sample_map_def two_pixels_def plane_covers_def)
  have red: "red id ?self \<lparr>vf_plane = db_data two_pixels, vf_width = 2, vf_height = 1, vf_stride = 6\<rparr> 1 0"
    by (simp add: red_def gst_controlled_red_detect_init_def two_pixels_def rgb_pixel_def Let_def)
  obtain fl b' rg where tr: "?r = Ok (fl, b', rg)" using c by (cases ?r) auto
  have fl: "fl = RED_FLOW_OK" using c unfolding tr by (cases fl) (simp_all add: sample_map_def)
  from c obtain d where b: "b' = two_pixels\<lparr>db_metas := db_metas two_pixels @ [(kDetectionMetaName, d)]\<rparr>"
    and d: "detection_of (red id ?self \<lparr>vf_plane = db_data two_pixels, vf_width = 2, vf_height = 1, vf_stride = 6\<rparr>)
      \<lparr>vf_plane = db_data two_pixels, vf_width = 2, vf_height = 1, vf_stride = 6\<rparr> d"
    unfolding tr fl using en by (auto simp only: sample_map_def outcome.case red_flow.case prod.case if_True option.inject)
  have r: "?r = Ok (RED_FLOW_OK, two_pixels\<lparr>db_metas := [(kDetectionMetaName, d)]\<rparr>, rg)"
    unfolding tr fl b by (simp add: two_pixels_def)
  from d red have "dm_found d \<and> in_box d 1 0"
    unfolding detection_of_def by (metis (no_types, lifting))
  with r show ?thesis by blast
qed

end
