(* ===== verification/PluginClass.thy ===== *)
theory PluginClass
  imports GzImgFrames RedDetect
begin

text \<open>
  What the two plugins tell GStreamer about themselves in \<^verbatim>\<open>class_init\<close> and \<^verbatim>\<open>pluginInit\<close>: the properties with
  their types, ranges and defaults, and the formats of the pads.  The tables are data; the lemmas compare
  them with what the elements do.
\<close>

section \<open>Tables of a class\<close>

text \<open>A \<^verbatim>\<open>GParamSpec\<close>: the type with the range and the default of the property.\<close>

datatype GParamType = BooleanParam bool | UintParam u32 u32 u32 | StringParam string

record 'id GParamSpec =
  ps_id :: 'id
  ps_name :: string
  ps_type :: GParamType

datatype PadDirection = GST_PAD_SRC | GST_PAD_SINK

record PadTemplate =
  pt_name :: string
  pt_direction :: PadDirection
  pt_formats :: "string list"

text \<open>The table of a class: the functions in its slots by name, its properties, its description and its pads.\<close>

record 'id ElementClass =
  cls_slots :: "(string \<times> string) list"
  cls_properties :: "'id GParamSpec list"
  cls_metadata :: "string list"
  cls_templates :: "PadTemplate list"

section \<open>The red detector\<close>

definition sinkTemplate :: PadTemplate where
  "sinkTemplate = \<lparr>pt_name = ''sink'', pt_direction = GST_PAD_SINK, pt_formats = [''RGB'']\<rparr>"

definition srcTemplate :: PadTemplate where
  "srcTemplate = \<lparr>pt_name = ''src'', pt_direction = GST_PAD_SRC, pt_formats = [''RGB'']\<rparr>"

definition installUintProperty ::
  "'id \<Rightarrow> string \<Rightarrow> u32 \<Rightarrow> u32 \<Rightarrow> 'id GParamSpec list \<Rightarrow> 'id GParamSpec list" where
  "installUintProperty propertyId name maximum defaultValue ps =
     ps @ [\<lparr>ps_id = propertyId, ps_name = name, ps_type = UintParam 0 maximum defaultValue\<rparr>]"

definition gst_controlled_red_detect_class_init :: "red_prop ElementClass" where
  "gst_controlled_red_detect_class_init = (let
     ps = [\<lparr>ps_id = PROP_DETECTION_ENABLED, ps_name = ''detection-enabled'', ps_type = BooleanParam True\<rparr>];
     ps = installUintProperty PROP_LOW_H ''low-h'' 179 0 ps;
     ps = installUintProperty PROP_LOW_S ''low-s'' 255 100 ps;
     ps = installUintProperty PROP_LOW_V ''low-v'' 255 100 ps;
     ps = installUintProperty PROP_HIGH_H ''high-h'' 179 10 ps;
     ps = installUintProperty PROP_HIGH_S ''high-s'' 255 255 ps;
     ps = installUintProperty PROP_HIGH_V ''high-v'' 255 255 ps
   in \<lparr>cls_slots = [(''set_property'', ''gst_controlled_red_detect_set_property''),
         (''get_property'', ''gst_controlled_red_detect_get_property''), (''set_caps'', ''gst_controlled_red_detect_set_caps''),
         (''transform_ip'', ''gst_controlled_red_detect_transform_ip'')],
       cls_properties = ps,
       cls_metadata = [''ControlledRedDetect'', ''Filter/Video'', ''Detects red pixels with configurable HSV thresholds'', ''Betaloop''],
       cls_templates = [sinkTemplate, srcTemplate]\<rparr>)"

text \<open>\<open>register\<close> is \<^verbatim>\<open>gst_element_register\<close>; the second component is the kinds of metadata known to the process.\<close>

definition red_pluginInit :: "(string \<Rightarrow> bool) \<Rightarrow> string list \<Rightarrow> bool \<times> string list" where
  "red_pluginInit register registered = (register ''controlledreddetect'', ensureDetectionMetaRegistered registered)"

section \<open>The image source\<close>

definition gst_gz_img_src_class_init :: "prop_id ElementClass" where
  "gst_gz_img_src_class_init = \<lparr>
     cls_slots = [(''set_property'', ''gst_gz_img_src_set_property''), (''get_property'', ''gst_gz_img_src_get_property''),
       (''finalize'', ''gst_gz_img_src_finalize''), (''start'', ''gst_gz_img_src_start''), (''stop'', ''gst_gz_img_src_stop''),
       (''create'', ''gst_gz_img_src_create'')],
     cls_properties = [\<lparr>ps_id = PROP_TOPIC, ps_name = ''topic'', ps_type = StringParam kDefaultTopic\<rparr>],
     cls_metadata = [''Gazebo image source'', ''Source/Video'', ''Reads Gazebo image messages and outputs raw video buffers'', ''Betaloop''],
     cls_templates = [\<lparr>pt_name = ''src'', pt_direction = GST_PAD_SRC,
       pt_formats = [''RGB'', ''BGR'', ''RGBA'', ''BGRA'', ''GRAY8'', ''GRAY16_LE'']\<rparr>]\<rparr>"

definition gzimgsrc_pluginInit :: "(string \<Rightarrow> bool) \<Rightarrow> bool" where
  "gzimgsrc_pluginInit register = register ''gzimgsrc''"

section \<open>Values of a type\<close>

text \<open>GObject calls \<^verbatim>\<open>set_property\<close> with the number of an installed property and a value of its type and range.\<close>

fun conforms :: "GParamType \<Rightarrow> GValue \<Rightarrow> bool" where
  "conforms (BooleanParam d) v = (case v of BooleanValue b \<Rightarrow> True | _ \<Rightarrow> False)"
| "conforms (UintParam lo hi d) v = (case v of UintValue n \<Rightarrow> lo \<le> n \<and> n \<le> hi | _ \<Rightarrow> False)"
| "conforms (StringParam d) v = False"

definition admitted :: "red_prop GParamSpec list \<Rightarrow> red_prop \<times> GValue \<Rightarrow> bool" where
  "admitted specs call \<longleftrightarrow> (\<exists>s \<in> set specs. ps_id s = fst call \<and> conforms (ps_type s) (snd call))"

fun default_value :: "GParamType \<Rightarrow> GValue" where
  "default_value (BooleanParam d) = BooleanValue d"
| "default_value (UintParam lo hi d) = UintValue d"
| "default_value (StringParam d) = BooleanValue False"

definition set_properties :: "(red_prop \<times> GValue) list \<Rightarrow> GstControlledRedDetect \<Rightarrow> GstControlledRedDetect" where
  "set_properties calls self = fold (\<lambda>(p, v). gst_controlled_red_detect_set_property p v) calls self"

text \<open>The last value given to a property, or its default.\<close>

definition latest_value :: "red_prop GParamSpec \<Rightarrow> (red_prop \<times> GValue) list \<Rightarrow> GValue" where
  "latest_value s calls = fold (\<lambda>(p, v) w. if p = ps_id s then v else w) calls (default_value (ps_type s))"

lemma red_specs:
  "cls_properties gst_controlled_red_detect_class_init = [\<lparr>ps_id = PROP_DETECTION_ENABLED, ps_name = ''detection-enabled'', ps_type = BooleanParam True\<rparr>,
     \<lparr>ps_id = PROP_LOW_H, ps_name = ''low-h'', ps_type = UintParam 0 179 0\<rparr>, \<lparr>ps_id = PROP_LOW_S, ps_name = ''low-s'', ps_type = UintParam 0 255 100\<rparr>,
     \<lparr>ps_id = PROP_LOW_V, ps_name = ''low-v'', ps_type = UintParam 0 255 100\<rparr>, \<lparr>ps_id = PROP_HIGH_H, ps_name = ''high-h'', ps_type = UintParam 0 179 10\<rparr>,
     \<lparr>ps_id = PROP_HIGH_S, ps_name = ''high-s'', ps_type = UintParam 0 255 255\<rparr>, \<lparr>ps_id = PROP_HIGH_V, ps_name = ''high-v'', ps_type = UintParam 0 255 255\<rparr>]"
  by (simp add: gst_controlled_red_detect_class_init_def installUintProperty_def Let_def)

lemma admitted_fits: "admitted (cls_properties gst_controlled_red_detect_class_init) (p, v) \<Longrightarrow> value_fits p v"
  by (cases v) (auto simp: admitted_def red_specs value_fits_def)

lemma set_properties_get:
  assumes "list_all (admitted (cls_properties gst_controlled_red_detect_class_init)) calls"
    and "gst_controlled_red_detect_get_property (ps_id s) self = Some w"
  shows "gst_controlled_red_detect_get_property (ps_id s) (set_properties calls self) =
    Some (fold (\<lambda>(p, v) w. if p = ps_id s then v else w) calls w)"
  using assms
proof (induction calls arbitrary: self w)
  case (Cons call calls)
  obtain p v where call: "call = (p, v)" by (cases call)
  with Cons.prems(1) have "value_fits p v" by (simp add: admitted_fits)
  from property_get_set [OF this, of "ps_id s" self] Cons.prems(2)
  have "gst_controlled_red_detect_get_property (ps_id s) (gst_controlled_red_detect_set_property p v self) =
      Some (if p = ps_id s then v else w)" by simp
  from Cons.IH [OF _ this] Cons.prems(1) show ?case by (simp add: set_properties_def call)
qed (simp add: set_properties_def)

lemma latest_conforms:
  assumes "list_all (admitted (cls_properties gst_controlled_red_detect_class_init)) calls"
    and "s \<in> set (cls_properties gst_controlled_red_detect_class_init)"
  shows "conforms (ps_type s) (latest_value s calls)"
proof -
  have one: "conforms (ps_type s) v" if "admitted (cls_properties gst_controlled_red_detect_class_init) (ps_id s, v)" for v
    using that assms(2) by (auto simp: admitted_def red_specs)
  have "conforms (ps_type s) w \<Longrightarrow> conforms (ps_type s) (fold (\<lambda>(p, v) w. if p = ps_id s then v else w) cs w)"
    if "list_all (admitted (cls_properties gst_controlled_red_detect_class_init)) cs" for cs w
    using that by (induction cs arbitrary: w) (auto simp: one)
  moreover have "conforms (ps_type s) (default_value (ps_type s))"
    using assms(2) by (auto simp: red_specs)
  ultimately show ?thesis using assms(1) by (simp add: latest_value_def)
qed

section \<open>Properties\<close>

text \<open>C30: the properties of the red detector are well typed: numbers and names identify them, and after any calls of
  \<^verbatim>\<open>set_property\<close> that GObject makes on a new filter, reading a property gives the last value set or the default the
  class announces, a value of the announced type and range; so the thresholds are channels of an 8-bit HSV image,
  the hue below 180.\<close>

theorem red_properties_typed:
  assumes "list_all (admitted (cls_properties gst_controlled_red_detect_class_init)) calls"
  shows "let specs = cls_properties gst_controlled_red_detect_class_init;
      self = set_properties calls (gst_controlled_red_detect_init info) in
    distinct (map ps_id specs) \<and> distinct (map ps_name specs) \<and>
    (\<forall>s \<in> set specs. gst_controlled_red_detect_get_property (ps_id s) self = Some (latest_value s calls) \<and>
       conforms (ps_type s) (latest_value s calls)) \<and>
    lowH self < 180 \<and> highH self < 180 \<and> list_all (\<lambda>t. t < 256) [lowS self, lowV self, highS self, highV self]"
proof -
  let ?specs = "cls_properties gst_controlled_red_detect_class_init"
  let ?self = "set_properties calls (gst_controlled_red_detect_init info)"
  have init: "gst_controlled_red_detect_get_property (ps_id s) (gst_controlled_red_detect_init info) = Some (default_value (ps_type s))"
    if "s \<in> set ?specs" for s
    using that by (auto simp: red_specs gst_controlled_red_detect_get_property_def gst_controlled_red_detect_init_def)
  have all: "\<forall>s \<in> set ?specs. gst_controlled_red_detect_get_property (ps_id s) ?self = Some (latest_value s calls) \<and>
      conforms (ps_type s) (latest_value s calls)"
    using set_properties_get [OF assms init] latest_conforms [OF assms] by (simp add: latest_value_def)
  have "\<forall>s \<in> set ?specs. \<forall>v. gst_controlled_red_detect_get_property (ps_id s) ?self = Some v \<longrightarrow> conforms (ps_type s) v"
    using all by simp
  then have "lowH ?self \<le> 179 \<and> highH ?self \<le> 179 \<and> lowS ?self \<le> 255 \<and> lowV ?self \<le> 255 \<and> highS ?self \<le> 255 \<and> highV ?self \<le> 255"
    by (simp add: red_specs gst_controlled_red_detect_get_property_def)
  moreover have "x \<le> 179 \<Longrightarrow> x < 180" "x \<le> 255 \<Longrightarrow> x < 256" for x :: u32 by (simp_all add: word_le_nat_alt word_less_nat_alt)
  moreover have "distinct (map ps_id ?specs)" "distinct (map ps_name ?specs)" by (simp_all add: red_specs)
  ultimately show ?thesis using all by (simp add: Let_def)
qed

theorem red_properties_typed_witness:
  "let self = set_properties [(PROP_HIGH_H, UintValue 25), (PROP_DETECTION_ENABLED, BooleanValue False), (PROP_HIGH_H, UintValue 30)]
      (gst_controlled_red_detect_init \<lparr>vi_width = 2, vi_height = 1, vi_stride = 6\<rparr>) in
   gst_controlled_red_detect_get_property PROP_HIGH_H self = Some (UintValue 30) \<and> lowH self < 180"
proof -
  let ?calls = "[(PROP_HIGH_H, UintValue 25), (PROP_DETECTION_ENABLED, BooleanValue False), (PROP_HIGH_H, UintValue 30)]"
  have "list_all (admitted (cls_properties gst_controlled_red_detect_class_init)) ?calls"
    by (simp add: admitted_def red_specs)
  from red_properties_typed [OF this, of "\<lparr>vi_width = 2, vi_height = 1, vi_stride = 6\<rparr>"] show ?thesis
    by (simp add: Let_def red_specs latest_value_def)
qed

end
