(* ===== verification/CameraPath.thy ===== *)
theory CameraPath
  imports PluginClass
begin

text \<open>
  The two plugins joined: what \<^verbatim>\<open>gzimgsrc\<close> pushes is what \<^verbatim>\<open>controlledreddetect\<close> maps.  The caps of a buffer fit
  the announced pads, and with the image's stride as the stride of the mapped frame the detection speaks of the
  pixels of the Gazebo image.
\<close>

section \<open>Caps and pads\<close>

text \<open>The formats a pad announces; the source announces sizes from 1 and frame rates from 0.\<close>

definition fits_pad :: "PadTemplate \<Rightarrow> Caps \<Rightarrow> bool" where
  "fits_pad pt c \<longleftrightarrow> caps_format c \<in> set (pt_formats pt) \<and> 1 \<le> caps_width c \<and> 1 \<le> caps_height c \<and> 0 \<le> fst (caps_framerate c)"

definition gz_src_pad :: PadTemplate where
  "gz_src_pad = hd (cls_templates gst_gz_img_src_class_init)"

lemma format_announced:
  "formatInfoFromGazebo pf = Some fi \<Longrightarrow> fi_gstFormat fi \<in> set (pt_formats gz_src_pad) \<and> 1 \<le> unat (fi_bytesPerPixel fi)"
  by (auto simp: formatInfoFromGazebo_def gz_src_pad_def gst_gz_img_src_class_init_def split: PixelFormatType.splits)

lemma format_produced:
  "name \<in> set (pt_formats gz_src_pad) \<Longrightarrow> \<exists>pf fi. formatInfoFromGazebo pf = Some fi \<and> fi_gstFormat fi = name"
proof -
  have "\<exists>fi. formatInfoFromGazebo RGB_INT8 = Some fi \<and> fi_gstFormat fi = ''RGB''" "\<exists>fi. formatInfoFromGazebo BGR_INT8 = Some fi \<and> fi_gstFormat fi = ''BGR''"
    "\<exists>fi. formatInfoFromGazebo RGBA_INT8 = Some fi \<and> fi_gstFormat fi = ''RGBA''" "\<exists>fi. formatInfoFromGazebo BGRA_INT8 = Some fi \<and> fi_gstFormat fi = ''BGRA''"
    "\<exists>fi. formatInfoFromGazebo L_INT8 = Some fi \<and> fi_gstFormat fi = ''GRAY8''" "\<exists>fi. formatInfoFromGazebo L_INT16 = Some fi \<and> fi_gstFormat fi = ''GRAY16_LE''"
    by (simp_all add: formatInfoFromGazebo_def)
  then show "name \<in> set (pt_formats gz_src_pad) \<Longrightarrow> ?thesis"
    by (simp add: gz_src_pad_def gst_gz_img_src_class_init_def) blast
qed

lemma rgb_format: "formatInfoFromGazebo pf = Some fi \<Longrightarrow> fi_gstFormat fi = ''RGB'' \<Longrightarrow> pf = RGB_INT8 \<and> fi_bytesPerPixel fi = 3"
  by (auto simp: formatInfoFromGazebo_def split: PixelFormatType.splits)

text \<open>An image whose payload is below 2 GiB has sizes that are positive as \<^verbatim>\<open>int\<close>.\<close>

lemma sint_small: "unat (w :: u32) < 2 ^ 31 \<Longrightarrow> sint w = int (unat w)"
proof -
  assume "unat w < 2 ^ 31"
  then have "int (unat w) < int (2 ^ 31)" by (simp only: of_nat_less_iff)
  then have "uint w < 2 ^ 31" by simp
  then have "signed_take_bit 31 (uint w) = uint w" by (intro signed_take_bit_int_eq_self) (auto intro: order_trans [OF _ unsigned_greater_eq])
  then show ?thesis by (simp add: sint_uint)
qed

lemma accepted_sizes:
  assumes "formatInfoFromGazebo (img_pixel_format msg) = Some fi" "validateFrameShape msg fi" "length (img_data msg) < 2 ^ 31"
  shows "sint (img_width msg) = int (unat (img_width msg))" "sint (img_height msg) = int (unat (img_height msg))"
    "0 < unat (img_width msg)" "0 < unat (img_height msg)" "unat (img_width msg) * unat (fi_bytesPerPixel fi) \<le> unat (img_step msg)"
    "unat (img_step msg) * unat (img_height msg) \<le> length (img_data msg)"
proof -
  have len: "length (img_data msg) < 2 ^ 64" using assms(3) by simp
  note shape = frame_shape_iff [OF len, of fi] assms(2)
  then show w: "0 < unat (img_width msg)" and h: "0 < unat (img_height msg)"
    and s: "unat (img_width msg) * unat (fi_bytesPerPixel fi) \<le> unat (img_step msg)"
    and l: "unat (img_step msg) * unat (img_height msg) \<le> length (img_data msg)" by blast+
  have "1 \<le> unat (fi_bytesPerPixel fi)" using format_announced [OF assms(1)] by blast
  then have ws: "unat (img_width msg) \<le> unat (img_step msg)" using s by (metis le_trans mult.right_neutral mult_le_mono2)
  moreover have "unat (img_step msg) \<le> unat (img_step msg) * unat (img_height msg)" using h by simp
  ultimately show "sint (img_width msg) = int (unat (img_width msg))" using l assms(3) by (intro sint_small) linarith
  have "unat (img_height msg) \<le> unat (img_step msg) * unat (img_height msg)" using ws w by simp
  then show "sint (img_height msg) = int (unat (img_height msg))" using l assms(3) by (intro sint_small) linarith
qed

section \<open>The pixels of an image\<close>

text \<open>A pixel of an RGB image is red when its HSV value is within the thresholds of the filter.\<close>

definition image_red :: "(pixel \<Rightarrow> pixel) \<Rightarrow> GstControlledRedDetect \<Rightarrow> Image \<Rightarrow> nat \<Rightarrow> nat \<Rightarrow> bool" where
  "image_red hsv self msg x y \<longleftrightarrow> x < unat (img_width msg) \<and> y < unat (img_height msg) \<and>
     (case image_pixel msg 3 x y of
        [r, g, b] \<Rightarrow> channels_in (uint (lowH self), uint (lowS self), uint (lowV self)) (uint (highH self), uint (highS self), uint (highV self)) (hsv (r, g, b))
      | _ \<Rightarrow> False)"

lemma take3_drop: "i + 3 \<le> length d \<Longrightarrow> take 3 (drop i d) = [d ! i, d ! (i + 1), d ! (i + 2)]"
  by (simp add: numeral_3_eq_3 take_Suc_conv_app_nth add.commute)

lemma red_pixels:
  assumes "unat (img_width msg) * 3 \<le> stride" "stride * unat (img_height msg) \<le> length (img_data msg)" "unat (img_step msg) = stride"
  shows "red hsv self \<lparr>vf_plane = img_data msg, vf_width = unat (img_width msg), vf_height = unat (img_height msg), vf_stride = stride\<rparr> x y
    \<longleftrightarrow> image_red hsv self msg x y"
proof (cases "x < unat (img_width msg) \<and> y < unat (img_height msg)")
  case True
  have "y * stride + x * 3 + 3 \<le> (y + 1) * stride" using True assms(1) by simp
  also have "\<dots> \<le> unat (img_height msg) * stride" using True by (intro mult_le_mono1) simp
  finally have "y * stride + x * 3 + 3 \<le> length (img_data msg)" using assms(2) by (simp add: mult.commute)
  from take3_drop [OF this] True show ?thesis
    by (simp add: red_def image_red_def image_pixel_def assms(3) rgb_pixel_def Let_def mult.commute)
qed (auto simp: red_def image_red_def)

section \<open>Properties\<close>

text \<open>C29: from a pushed buffer back to the camera and on to the detection.  In a schedule whose RGB images
  all have the row size \<open>stride\<close>, an RGB buffer that create pushed is the payload of an RGB image a callback
  delivered (not every delivered image is pushed: a newer frame replaces it).  Its caps have the size of
  that image and fit the source pad and the sink pad of the detector.  When the frame is mapped with the
  size of the caps and with \<open>stride\<close>, the enabled detector attaches exactly one record to it, positive
  exactly when that image has a pixel within the thresholds, with the tight box around these pixels.
  The hypothesis on the stride is needed: create does not pass it on, see C36.\<close>

theorem camera_to_detection:
  assumes "run_schedule es (gst_gz_img_src_init n) = Some g" "GST_FLOW_OK c b \<in> set (results g)"
    and "caps_format c = ''RGB''" "length (buf_data b) < 2 ^ 31"
    and "\<And>j img. (j, OnImage img) \<in> set es \<Longrightarrow> img_pixel_format img = RGB_INT8 \<Longrightarrow> unat (img_step img) = stride"
    and "opencv_documented cv hsv" "\<And>names. kDetectionMetaName \<in> set names \<Longrightarrow> add_meta names kDetectionMetaName"
    and "detectionEnabled self" "map_frame (videoInfo self) \<lparr>db_data = buf_data b, db_metas = []\<rparr> =
      Some \<lparr>vf_plane = buf_data b, vf_width = nat (caps_width c), vf_height = nat (caps_height c), vf_stride = stride\<rparr>"
  shows "fits_pad gz_src_pad c \<and> fits_pad sinkTemplate c \<and>
    (\<exists>i msg d. (i, OnImage msg) \<in> set es \<and> img_pixel_format msg = RGB_INT8 \<and> buf_data b = img_data msg \<and>
      caps_width c = int (unat (img_width msg)) \<and> caps_height c = int (unat (img_height msg)) \<and>
      gst_controlled_red_detect_transform_ip cv map_frame add_meta self \<lparr>db_data = buf_data b, db_metas = []\<rparr> registered =
        Ok (RED_FLOW_OK, \<lparr>db_data = buf_data b, db_metas = [(kDetectionMetaName, d)]\<rparr>, ensureDetectionMetaRegistered registered) \<and>
      detection_of (image_red hsv self msg)
        \<lparr>vf_plane = img_data msg, vf_width = unat (img_width msg), vf_height = unat (img_height msg), vf_stride = stride\<rparr> d)"
proof -
  obtain i msg fi where i: "(i, OnImage msg) \<in> set es" and fi: "formatInfoFromGazebo (img_pixel_format msg) = Some fi" "validateFrameShape msg fi"
    and c: "c = \<lparr>caps_format = fi_gstFormat fi, caps_width = sint (img_width msg), caps_height = sint (img_height msg), caps_framerate = (0, 1)\<rparr>"
    and b: "buf_data b = img_data msg" by (rule buffer_image [OF assms(1,2)])
  have rgb: "img_pixel_format msg = RGB_INT8" "fi_bytesPerPixel fi = 3" using rgb_format [OF fi(1)] assms(3) by (simp_all add: c)
  have len: "length (img_data msg) < 2 ^ 31" using assms(4) by (simp add: b)
  note sz = accepted_sizes [OF fi len]
  have pos: "1 \<le> sint (img_width msg)" "1 \<le> sint (img_height msg)" unfolding sz(1,2) using sz(3,4) by linarith+
  have pads: "fits_pad gz_src_pad c" "fits_pad sinkTemplate c"
    using format_announced [OF fi(1)] pos assms(3) by (simp_all add: fits_pad_def c sinkTemplate_def)
  let ?f = "\<lparr>vf_plane = img_data msg, vf_width = unat (img_width msg), vf_height = unat (img_height msg), vf_stride = stride\<rparr>"
  let ?b = "\<lparr>db_data = buf_data b, db_metas = []\<rparr>"
  have f: "map_frame (videoInfo self) ?b = Some ?f" using assms(9) by (simp add: b c sz(1,2))
  have s: "unat (img_step msg) = stride" by (rule assms(5) [OF i rgb(1)])
  have w: "unat (img_width msg) * 3 \<le> stride" "stride * unat (img_height msg) \<le> length (img_data msg)"
    using sz(5,6) rgb(2) s by simp_all
  have "unat (img_height msg) = (unat (img_height msg) - 1) + 1" using sz(4) by simp
  with w(2) have "(unat (img_height msg) - 1) * stride + stride \<le> length (img_data msg)"
    by (metis add.commute mult.commute mult_Suc Suc_eq_plus1)
  with w(1) have covers: "plane_covers ?f" by (simp add: plane_covers_def)
  have R: "red hsv self ?f = image_red hsv self msg" using red_pixels [OF w s] by (intro ext)
  have "\<exists>d. gst_controlled_red_detect_transform_ip cv map_frame add_meta self ?b registered =
        Ok (RED_FLOW_OK, \<lparr>db_data = buf_data b, db_metas = [(kDetectionMetaName, d)]\<rparr>, ensureDetectionMetaRegistered registered) \<and>
      detection_of (image_red hsv self msg) ?f d"
    using detect_frame [of cv hsv add_meta self map_frame ?b ?f registered] assms(6-8) f covers sz(3,4) by (simp add: R)
  moreover have "caps_width c = int (unat (img_width msg))" "caps_height c = int (unat (img_height msg))"
    by (simp_all add: c sz(1,2))
  ultimately show ?thesis using pads i rgb(1) b by blast
qed

text \<open>One RGB image of two pixels, the second of them red.\<close>

definition rgb_image :: Image where
  "rgb_image = \<lparr>img_pixel_format = RGB_INT8, img_width = 2, img_height = 1, img_step = 6, img_data = db_data two_pixels\<rparr>"

definition rgb_schedule :: "(nat \<times> input) list" where
  "rgb_schedule = started 0 42 True @ [(0, OnImage rgb_image), (0, cont), (0, cont), (0, cont), (0, cont),
     (0, Create), (0, cont), (0, cont), (0, cont)]"

theorem camera_to_detection_witness:
  "\<exists>g c b d. run_schedule rgb_schedule (gst_gz_img_src_init 1) = Some g \<and> GST_FLOW_OK c b \<in> set (results g) \<and>
     gst_controlled_red_detect_transform_ip sample_cv sample_map (\<lambda>ns n. n \<in> set ns)
       (gst_controlled_red_detect_init \<lparr>vi_width = 2, vi_height = 1, vi_stride = 6\<rparr>) \<lparr>db_data = buf_data b, db_metas = []\<rparr> [] =
       Ok (RED_FLOW_OK, \<lparr>db_data = buf_data b, db_metas = [(kDetectionMetaName, d)]\<rparr>, [kDetectionMetaName]) \<and>
     dm_found d \<and> in_box d 1 0"
proof -
  let ?self = "gst_controlled_red_detect_init \<lparr>vi_width = 2, vi_height = 1, vi_stride = 6\<rparr>"
  have f: "formatInfoFromGazebo RGB_INT8 = Some \<lparr>fi_gstFormat = ''RGB'', fi_bytesPerPixel = 3\<rparr>" by (simp add: formatInfoFromGazebo_def)
  have v: "validateFrameShape rgb_image \<lparr>fi_gstFormat = ''RGB'', fi_bytesPerPixel = 3\<rparr>"
    by (subst frame_shape_iff) (simp_all add: rgb_image_def two_pixels_def)
  have m: "img_pixel_format rgb_image = RGB_INT8" "img_width rgb_image = 2" "img_height rgb_image = 1" "img_data rgb_image = db_data two_pixels"
    by (simp_all add: rgb_image_def)
  have "\<exists>g c b. run_schedule rgb_schedule (gst_gz_img_src_init 1) = Some g \<and> GST_FLOW_OK c b \<in> set (results g) \<and>
      caps_format c = ''RGB'' \<and> caps_width c = 2 \<and> caps_height c = 1 \<and> buf_data b = db_data two_pixels"
    using f v m
    by (simp add: rgb_schedule_def gz_eval new_SourceState_def store_frame_def push_frame_def Let_def frame_caps_def make_frame_def)
  then obtain g c b where g: "run_schedule rgb_schedule (gst_gz_img_src_init 1) = Some g" "GST_FLOW_OK c b \<in> set (results g)"
    and c: "caps_format c = ''RGB''" "caps_width c = 2" "caps_height c = 1" and b: "buf_data b = db_data two_pixels" by blast
  have small: "length (buf_data b) < 2 ^ 31" by (simp add: b two_pixels_def)
  have en: "detectionEnabled ?self" by (simp add: gst_controlled_red_detect_init_def)
  have mp: "sample_map (videoInfo ?self) \<lparr>db_data = buf_data b, db_metas = []\<rparr> =
      Some \<lparr>vf_plane = buf_data b, vf_width = nat (caps_width c), vf_height = nat (caps_height c), vf_stride = 6\<rparr>"
    by (simp add: sample_map_def c)
  have st: "unat (img_step img) = 6" if "(j, OnImage img) \<in> set rgb_schedule" "img_pixel_format img = RGB_INT8" for j img
    using that by (auto simp: rgb_schedule_def cont_def started_def rgb_image_def)
  obtain i msg d where i: "(i, OnImage msg) \<in> set rgb_schedule"
    and d: "gst_controlled_red_detect_transform_ip sample_cv sample_map (\<lambda>ns n. n \<in> set ns) ?self \<lparr>db_data = buf_data b, db_metas = []\<rparr> [] =
          Ok (RED_FLOW_OK, \<lparr>db_data = buf_data b, db_metas = [(kDetectionMetaName, d)]\<rparr>, ensureDetectionMetaRegistered [])"
    and D: "detection_of (image_red id ?self msg)
          \<lparr>vf_plane = img_data msg, vf_width = unat (img_width msg), vf_height = unat (img_height msg), vf_stride = 6\<rparr> d"
    using camera_to_detection [of rgb_schedule 1 g c b 6 sample_cv id "\<lambda>ns n. n \<in> set ns" ?self sample_map "[]",
        OF g c(1) small _ sample_cv_documented _ en mp] st
    by blast
  from i have msg: "msg = rgb_image" by (auto simp: rgb_schedule_def cont_def started_def)
  have red: "image_red id ?self msg 1 0"
    by (simp add: image_red_def msg rgb_image_def image_pixel_def two_pixels_def gst_controlled_red_detect_init_def)
  from D red have "dm_found d \<and> in_box d 1 0" unfolding detection_of_def by (metis (no_types, lifting))
  with g d show ?thesis by (auto simp: ensureDetectionMetaRegistered_def)
qed

end
