(* ===== verification/Spec2Isabelle.thy ===== *)
theory Spec2Isabelle
  imports MainCli BridgeLife BridgeSignals GzImgStop CameraPath
begin

text \<open>
  The Betaflight-Gazebo bridge: a process that stands between a Betaflight SITL instance, which talks UDP,
  and a Gazebo simulation, which talks gz-transport, together with two GStreamer plugins that take camera
  images out of the simulation.

  \<^bold>\<open>The program.\<close>  \<^verbatim>\<open>main\<close> parses the command line, loads and validates \<^verbatim>\<open>bridge.yaml\<close>, constructs a
  \<^verbatim>\<open>BridgeApp\<close> and runs it.  Every iteration of \<^verbatim>\<open>Run\<close> empties the motor socket, publishes the current motor
  command to Gazebo's actuators, sends a flight-dynamics packet to SITL when the period of the configured
  rate is over, updates the rangefinders (TFmini frames over TCP, MAVLink messages over UDP) and the MAVLink
  odometry, sends a heartbeat and logs the status.  Gazebo's callbacks deliver sensor messages, odometry and
  scans from other threads, under mutexes; in the model they come between the handlers.  A handler gives what it
  has emitted, how it ended and the state it leaves: what it sent before an error is sent.

  \<^bold>\<open>Theories and the code they model.\<close>
  \<^item> \<open>Prelude\<close>: outcomes of C++ calls (a value, a thrown \<^verbatim>\<open>std::runtime_error\<close>, undefined behaviour), arrays,
    byte strings, and the interfaces \<open>latest_slot\<close> (a one-message mailbox that is consumed once) and
    \<open>rate_limiter\<close> (a time stamp that keeps events a distance apart).
  \<^item> \<open>Ieee\<close>, \<open>Ieee_Bits\<close>: exact IEEE 754 arithmetic on rationals with round-to-nearest-even, infinities and
    NaN (\<open>double\<close>, \<open>single\<close>), and the 4- and 8-byte encodings.  The locale \<open>rounding\<close> is interpreted for both
    formats, \<open>fixed_codec\<close> for every width on the wire.
  \<^item> \<open>Config\<close>: \<^verbatim>\<open>Config.hh\<close>, \<^verbatim>\<open>Config.cc\<close>: all sections, \<open>Load\<close> and \<open>Validate\<close>; \<open>valid_config\<close> is the declarative
    reading of the loops of \<open>Validate\<close>.
  \<^item> \<open>MotorMapper\<close>: \<^verbatim>\<open>MotorMapper.cc\<close>: SITL's packet order, the motor map, the conversion to velocities.
  \<^item> \<open>Packets\<close>: \<^verbatim>\<open>Packets.hh\<close>: the FDM and the servo packet as bytes (\<^verbatim>\<open>RcPacket\<close> is declared there and used
    nowhere).  \<open>FdmPacket_of_bytes\<close> and \<open>ServoPacket_bytes\<close> are Betaflight's end of the wire, which no code of
    the repository has: the properties use them to say what a datagram means.
  \<^item> \<open>Quaternion\<close>: real quaternions and rotations, the reference for both frame conversions.
  \<^item> \<open>Descriptors\<close>: the kernel's set of open descriptors, the invariant \<open>owned_once\<close> (every open descriptor is
    held by exactly one slot, none was closed twice) and the interface \<open>descriptor_owner\<close>.
  \<^item> \<open>UdpSocket\<close>: \<^verbatim>\<open>UdpSocket.cc\<close>; \<open>uses\<close> is every sequence of constructions, operations, moves and destructions.
  \<^item> \<open>GazeboTransport\<close>: \<^verbatim>\<open>GazeboTransport.cc\<close>: the subscriber and its snapshot, the publisher, the FDM builder.
  \<^item> \<open>Odometry\<close>: \<^verbatim>\<open>Odometry.cc\<close>: the converter with its epochs, the quaternion conversion, the manager.
  \<^item> \<open>Rangefinder\<close>: \<^verbatim>\<open>Rangefinder.cc\<close>: TFmini frames, the TCP connection of a mapping, MAVLink messages, the
    manager; \<open>RangefinderErrors\<close> shows when its update is defined and which errors it throws.
  \<^item> \<open>BridgeApp\<close>: \<^verbatim>\<open>BridgeApp.cc\<close>: the constructor, the handlers and \<open>Run\<close>.  \<open>BridgeHandlers\<close> holds what each handler
    does, \<open>BridgeRun\<close> what holds over runs of any length, \<open>BridgeStart\<close> what the constructor promises.
  \<^item> \<open>MotorPath\<close>: the abstract motor machine that a run refines, from waiting datagrams and the clock to the
    actuators.  \<open>BridgeSignals\<close>: \<^verbatim>\<open>SignalHandler\<close> and \<open>Run\<close> as the loop with its stop flag.  \<open>BridgeLife\<close>: the
    descriptors of a bridge from construction over any run to the destructor.
  \<^item> \<open>MainCli\<close>: \<^verbatim>\<open>main.cpp\<close>.
  \<^item> \<open>GzImgSrc\<close>: \<^verbatim>\<open>gst/gst_gzimgsrc/src/gstgzimgsrc.cpp\<close>: the checks on images, and the threads that share a
    \<^verbatim>\<open>SourceState\<close> as a step relation (\<open>gz_step\<close>) with the critical sections of its mutexes as steps: callbacks,
    \<^verbatim>\<open>create\<close>, \<^verbatim>\<open>stop\<close>, \<^verbatim>\<open>start\<close> (check, allocation, publication, \<^verbatim>\<open>Subscribe\<close> and the failing branch one by one) and
    \<^verbatim>\<open>finalize\<close> with its call of \<^verbatim>\<open>stop\<close>.  A use of a deleted state, a deletion of a state that is locked or that
    another thread refers to, and a use of the cleared lock are undefined.  \<open>lawful_step\<close> is the relation under GStreamer's
    contract: one \<^verbatim>\<open>start\<close>, \<^verbatim>\<open>stop\<close> or \<^verbatim>\<open>finalize\<close> at a time, no call after \<^verbatim>\<open>finalize\<close>.  \<open>GzImgThreads\<close> has the
    invariant of the user count, \<open>GzImgStop\<close> what \<^verbatim>\<open>stop\<close> waits for and who owns a state, \<open>GzImgFrames\<close> where the
    buffers come from; only the ownership needs the contract.
  \<^item> \<open>RedDetect\<close>: \<^verbatim>\<open>gst/gst_detector/src/controlledreddetect.cpp\<close>.
  \<^item> \<open>PluginClass\<close>: \<^verbatim>\<open>class_init\<close>, pad templates and \<^verbatim>\<open>pluginInit\<close> of both plugins.  \<open>CameraPath\<close> joins the plugins,
    from the Gazebo image to the detection.

  Records have the fields of the classes, operations the names of the member functions; a step that changes
  an object returns the changed record.  An operation on a socket also takes and returns the kernel's state.

  \<^bold>\<open>What the lemmas show.\<close>  Bottom up: rounding is monotone and nearest; wire formats are inverted by their
  readers; \<open>Validate\<close> is equivalent to its declarative reading; operations keep \<open>owned_once\<close>; the managers are
  mailboxes and rate limiters.  A handler keeps \<open>app_ready\<close>, the state the constructor leaves, and throws only
  errors of \<^verbatim>\<open>recvfrom\<close> and \<^verbatim>\<open>sendto\<close>; the interface \<open>main_loop\<close> lifts this from handlers to runs, \<open>periodic_sender\<close>
  and \<open>rate_limiter\<close> lift the period of a handler to the distance between datagrams.  The same interface \<open>main_loop\<close>,
  interpreted for what the motor path reads and for the descriptors, gives the refinement of the motor machine and
  the balance of descriptors.  For the image source one invariant over all interleavings (\<open>gz_inv\<close>) shows that a
  step never meets a deleted state, except in the races that \<open>stop_deletes_locked_state\<close> and
  \<open>failed_start_deletes_used_state\<close> exhibit and in a \<^verbatim>\<open>stop\<close> that overtakes its \<^verbatim>\<open>start\<close>, and that \<^verbatim>\<open>stop\<close> waits
  boundedly; a second one over the lawful steps (\<open>tidy\<close>) that no state leaks.  The property below joins loading, construction and running.

  \<^bold>\<open>Termination.\<close>  No definition carries fuel.  The receive loop is a partial function whose value is \<open>None\<close> when
  it does not return; \<open>receive_returns_iff\<close> says exactly when it does.  The number of iterations of \<open>Run\<close> is
  the length of a list; \<open>run_while\<close> is the loop itself, \<open>None\<close> when it never ends, and \<open>signal_ends_run\<close> says that the
  first signal cuts the list.  The steps of the image source have no bound; \<open>stop_waits_boundedly\<close> bounds the ones
  that \<^verbatim>\<open>stop\<close> waits for.

  \<^bold>\<open>Parameters.\<close>  Results of system calls, clocks, yaml-cpp, gz-transport, MAVLink packing, \<^verbatim>\<open>std::pow\<close>,
  \<^verbatim>\<open>std::filesystem\<close>, GStreamer and OpenCV are arguments; what the properties need of them are named hypotheses
  (\<open>yaml_throws\<close>, \<open>fresh_sockets\<close>, \<open>os_works\<close>, \<open>gz_works\<close>, \<open>pow_laws\<close>, \<open>opencv_documented\<close>).

  \<^bold>\<open>Not modelled.\<close>  Callbacks of Gazebo in the middle of a handler of the bridge: they run between the
  handlers.  The 1 ms sleep, which changes no state; the text of log lines, except that logging changes no
  other state; a signal between \<^verbatim>\<open>store(false)\<close> and the installation of the handler, which ends the process; what
  GLib and GStreamer do with the class tables, and the flags \<^verbatim>\<open>set_in_place\<close>, \<^verbatim>\<open>set_passthrough\<close>, \<^verbatim>\<open>set_live\<close> and
  \<^verbatim>\<open>set_format\<close> the constructors pass to the base classes; the Python tools, the tests, the models and worlds.
\<close>

section \<open>The whole program\<close>

text \<open>C1: from the command line to the last message.  Started with a file that loads and whose velocity bounds
  are finite and in order, on a working system, with a SITL address that parses, and as long as the laser
  scans carry readings the distance conversions accept (\<open>sane_iteration\<close>), \<^verbatim>\<open>main\<close> returns once the motor
  queue runs empty in every iteration: either with code 0 and the zero command as its last message, or with
  code 1 and an error of \<^verbatim>\<open>recvfrom\<close> or \<^verbatim>\<open>sendto\<close> on \<^verbatim>\<open>stderr\<close>.  All velocities it published before are from
  the minimum to the maximum of the file, which rounding can exceed by one part in \<open>2 ^ 51\<close> when the minimum
  is not 0 (\<open>in_range\<close>).\<close>

theorem bridge_end_to_end:
  assumes "ParseConfigPath (w_fs w) (w_version w) argv = Ok (ConfigPath path)"
    and "Load (w_yaml w) (os_pton (w_os w)) path = Ok c"
    and "os_works (w_os w)" "gz_works (w_gz w)" "finite (open_fds k)" "os_pton (w_os w) (sitl_address (sitl c)) \<noteq> None"
    and "proper_range (mot_minRotorVelocityRadS (motors c)) (mot_maxRotorVelocityRadS (motors c))"
    and "list_all sane_iteration (w_iterations w)" "list_all (\<lambda>it. \<exists>i. failing (fst (it_recv it i))) (w_iterations w)"
  shows "\<exists>p pub. main_entry w argv k = Some (Ok p) \<and>
    p_level p = Some (ConfigureLogging (w_from_str w) (log_level (logging c))) \<and>
    list_all (message_in_range \<lparr>minVelocityRadS = mot_minRotorVelocityRadS (motors c),
      maxVelocityRadS = mot_maxRotorVelocityRadS (motors c)\<rparr>) pub \<and>
    (p_code p = 0 \<and> p_sent p = pub @ [ActuatorMsg (Publish ZeroMotors)] \<or>
     p_code p = 1 \<and> p_sent p = pub \<and> (\<exists>e. io_error e \<and> p_stderr p = ''bridge error: '' @ e @ newline))"
proof -
  have v: "valid_config (os_pton (w_os w)) c" using Load_eq_Ok [OF assms(2)] by (simp add: Validate_iff)
  obtain app k' where app: "new_BridgeApp (w_os w) (w_gz w) (w_start w) c k = (Ok app, k')"
    using construction_works [OF assms(3-5) v assms(6)] by blast
  let ?cv = "\<lparr>minVelocityRadS = mot_minRotorVelocityRadS (motors c), maxVelocityRadS = mot_maxRotorVelocityRadS (motors c)\<rparr>"
  have ready: "ready_with ?cv app" using construction_ready [OF v assms(7) app] by blast
  obtain out r app' where R: "Run (w_os w) (w_pow w) (w_iterations w) app = Some (out, r, app')"
    using Run_returns [OF ready assms(8)] assms(9) unfolding list_all_iff by (metis option.exhaust prod_cases3)
  obtain pub where pub: "list_all (message_in_range ?cv) pub"
    and o: "r = Ok 0 \<and> out = pub @ [ActuatorMsg (Publish ZeroMotors)] \<or> out = pub \<and> (\<exists>e. r = Throw e \<and> io_error e)"
    using Run_ready [OF R ready assms(8)] by blast
  from o have "r \<noteq> Undefined" by auto
  from main_run [OF assms(1,2) app R this] obtain p where
    p: "main_entry w argv k = Some (Ok p)" "p_sent p = out" "p_level p = Some (ConfigureLogging (w_from_str w) (log_level (logging c)))"
    "case r of Ok code \<Rightarrow> p_code p = code | Throw e \<Rightarrow> p_code p = 1 \<and> p_stderr p = ''bridge error: '' @ e @ newline | Undefined \<Rightarrow> False" by blast
  show ?thesis
    by (rule exI [of _ p], rule exI [of _ pub]) (use p pub o in auto)
qed

theorem bridge_end_to_end_witness:
  "\<exists>p. main_entry (sample_world\<lparr>w_iterations := [sample_iteration, sample_iteration]\<rparr>) [''bridge'', ''--config'', ''a.yaml'']
       \<lparr>open_fds = {}, bad_close = False\<rparr> = Some (Ok p) \<and> (p_code p = 0 \<or> p_code p = 1)"
proof -
  let ?w = "sample_world\<lparr>w_iterations := [sample_iteration, sample_iteration]\<rparr>"
  have pton: "os_pton (w_os ?w) = loopback_only" by (simp add: sample_world_def working_os_def)
  have parse: "ParseConfigPath (w_fs ?w) (w_version ?w) [''bridge'', ''--config'', ''a.yaml''] = Ok (ConfigPath ''a.yaml'')"
    by (simp add: ParseConfigPath_def ExecutableDirectory_def sample_world_def sample_fs_def)
  have load: "Load (w_yaml ?w) (os_pton (w_os ?w)) ''a.yaml'' = Ok bridge_config"
    unfolding pton using bridge_yaml_loads by (simp add: sample_world_def)
  have os: "os_works (w_os ?w)" "gz_works (w_gz ?w)"
    using working_os_facts(1) by (simp_all add: sample_world_def gz_works_def sample_gz_def)
  have addr: "os_pton (w_os ?w) (sitl_address (sitl bridge_config)) \<noteq> None"
    unfolding pton by (simp add: bridge_config_def default_config_def default_sitl_def loopback_only_def)
  have range: "proper_range (mot_minRotorVelocityRadS (motors bridge_config)) (mot_maxRotorVelocityRadS (motors bridge_config))"
    by (simp add: bridge_config_def default_config_def default_motors_def zero_fp_def lit_def fp_eval proper_range_def)
  have its: "list_all sane_iteration (w_iterations ?w)" "list_all (\<lambda>it. \<exists>i. failing (fst (it_recv it i))) (w_iterations ?w)"
    using sample_ready(2,3) by auto
  from bridge_end_to_end [OF parse load os _ addr range its, of "\<lparr>open_fds = {}, bad_close = False\<rparr>"]
  show ?thesis by auto
qed

end
